(* ===== verification/Prelude.thy ===== *)
theory Prelude
  imports Main "HOL-Library.Word"
begin

text \<open>
  Shared types and lemmas of the development: the machine integers of the C sources, the faults
  a C operation can end in, the sequencing of fallible operations, the two data models the
  library is built for, and the collections the component theories fill.
\<close>

unbundle bit_operations_syntax

section \<open>Machine integers\<close>

type_synonym byte = "8 word"
type_synonym u32 = "32 word"

text \<open>An \<open>unsigned long\<close> is held in 64 bits; on a 32-bit ABI its values stay below \<open>2 ^ 32\<close>.\<close>

type_synonym ulong = "64 word"

text \<open>
  \<open>Application.mk\<close> builds \<open>arm64-v8a\<close> and \<open>x86_64\<close> (LP64) and \<open>armeabi-v7a\<close> and \<open>x86\<close> (ILP32).
  All four are little-endian; they differ in the width of \<open>long\<close> and \<open>ssize_t\<close>.
\<close>

datatype abi = ILP32 | LP64

definition ulong_size :: "abi \<Rightarrow> nat" where
  "ulong_size a = (case a of ILP32 \<Rightarrow> 4 | LP64 \<Rightarrow> 8)"

lemma ulong_size_simps [simp]: "ulong_size ILP32 = 4" "ulong_size LP64 = 8"
  by (simp_all add: ulong_size_def)

lemma ulong_size_le: "ulong_size a \<le> 8"
  by (cases a) simp_all

section \<open>Faults and sequencing\<close>

text \<open>
  What C leaves undefined or stops at is a value: a failed \<open>assert\<close>, a read or a write outside an
  array, and the use of a null pointer.
\<close>

datatype fault = AssertionFailure | OutOfBoundsRead | OutOfBoundsWrite | NullPointer

definition bind_r :: "'e + 'a \<Rightarrow> ('a \<Rightarrow> 'e + 'b) \<Rightarrow> 'e + 'b" where
  "bind_r m f = (case m of Inl e \<Rightarrow> Inl e | Inr x \<Rightarrow> f x)"

lemma bind_r_simps [simp]: "bind_r (Inl e) f = Inl e" "bind_r (Inr x) f = f x"
  by (simp_all add: bind_r_def)

lemma bind_r_cong [fundef_cong]:
  "m = m' \<Longrightarrow> (\<And>x. m' = Inr x \<Longrightarrow> f x = g x) \<Longrightarrow> bind_r m f = bind_r m' g"
  by (cases m') simp_all

lemma bind_r_eq_Inr: "bind_r m f = Inr y \<longleftrightarrow> (\<exists>x. m = Inr x \<and> f x = Inr y)"
  by (cases m) simp_all

lemma bind_r_eq_Inl: "bind_r m f = Inl e \<longleftrightarrow> m = Inl e \<or> (\<exists>x. m = Inr x \<and> f x = Inl e)"
  by (cases m) simp_all

lemma bind_r_assoc: "bind_r (bind_r m f) g = bind_r m (\<lambda>x. bind_r (f x) g)"
  by (cases m) simp_all

lemma bind_r_if: "bind_r (if b then m else n) f = (if b then bind_r m f else bind_r n f)"
  by simp

lemma bind_r_Inr [simp]: "bind_r m Inr = m"
  by (cases m) simp_all

text \<open>An operation applied to the elements of a list in order, stopping at the first fault.\<close>

fun each_r :: "('a \<Rightarrow> 's \<Rightarrow> 'e + 's) \<Rightarrow> 'a list \<Rightarrow> 's \<Rightarrow> 'e + 's" where
  "each_r f [] s = Inr s"
| "each_r f (x # xs) s = bind_r (f x s) (each_r f xs)"

lemma each_r_fun:
  "each_r f [] = Inr" "each_r f (x # xs) = (\<lambda>s. bind_r (f x s) (each_r f xs))"
  by (simp_all add: fun_eq_iff)

lemma each_r_append: "each_r f (xs @ ys) s = bind_r (each_r f xs s) (each_r f ys)"
  by (induction xs arbitrary: s) (simp_all add: bind_r_def split: sum.split)

section \<open>Refinement\<close>

text \<open>
  An operation on concrete states refines one on abstract states, step by step: under an invariant it
  ends in a state that stands for the abstract result, or fails as the abstract one does, or fails in
  a way of its own. A run over a list of inputs then does too.
\<close>

locale simulation =
  fixes cstep :: "'a \<Rightarrow> 's \<Rightarrow> 'e + 's" and astep :: "'a \<Rightarrow> 't \<Rightarrow> 'e + 't"
    and abs_of :: "'s \<Rightarrow> 't" and ok :: "'s \<Rightarrow> bool" and stray :: "'e \<Rightarrow> bool"
  assumes step: "ok s \<Longrightarrow>
    (case cstep x s of
       Inl e \<Rightarrow> stray e \<or> astep x (abs_of s) = Inl e
     | Inr s' \<Rightarrow> ok s' \<and> astep x (abs_of s) = Inr (abs_of s'))"
begin

lemma run:
  "ok s \<Longrightarrow>
    (case each_r cstep xs s of
       Inl e \<Rightarrow> stray e \<or> each_r astep xs (abs_of s) = Inl e
     | Inr s' \<Rightarrow> ok s' \<and> each_r astep xs (abs_of s) = Inr (abs_of s'))"
proof (induction xs arbitrary: s)
  case (Cons x xs)
  show ?case
  proof (cases "cstep x s")
    case (Inl e)
    then show ?thesis
      using step [OF Cons.prems, of x] by auto
  next
    case (Inr t)
    then have t: "ok t" "astep x (abs_of s) = Inr (abs_of t)"
      using step [OF Cons.prems, of x] by simp_all
    have "each_r cstep (x # xs) s = each_r cstep xs t"
      "each_r astep (x # xs) (abs_of s) = each_r astep xs (abs_of t)"
      using Inr t(2) by simp_all
    then show ?thesis
      using Cons.IH [OF t(1)] by (simp only:)
  qed
qed simp

end

section \<open>Collections\<close>

named_theorems buf_simps \<open>equations between buffer operations and the bytes a buffer holds\<close>
named_theorems send_simps \<open>what each sending operation appends to the network buffer\<close>
named_theorems frame_simps \<open>the components an operation leaves alone\<close>

section \<open>Words and lists\<close>

lemma unat_sub_mod:
  fixes r w :: u32
  assumes "r < 2048" and "w < 2048"
  shows "unat ((w - r + 2048) mod 2048) = (unat w + 2048 - unat r) mod 2048"
proof -
  have r: "unat r < 2048" and w: "unat w < 2048"
    using assms by (simp_all add: word_less_nat_alt)
  have sum: "unat (w + 2048) = unat w + 2048"
    using w by (subst unat_word_ariths) simp
  have "unat (w + 2048 - r) = unat w + 2048 - unat r"
    using r sum by (subst unat_sub) (simp_all add: word_le_nat_alt)
  moreover have "w - r + 2048 = w + 2048 - r"
    by simp
  ultimately show ?thesis
    by (simp only: unat_mod) simp
qed

text \<open>Position arithmetic never loses to the 32-bit wrap: 2048 divides \<open>2 ^ 32\<close>.\<close>

lemma unat_add_mod:
  fixes a b :: u32
  shows "unat ((a + b) mod 2048) = (unat a + unat b) mod 2048"
proof -
  have "(unat a + unat b) mod 4294967296 mod 2048 = (unat a + unat b) mod 2048"
    by (rule mod_mod_cancel) simp
  then show ?thesis
    by (simp add: unat_mod unat_word_ariths)
qed

text \<open>The distance between two positions of a ring of 2048, without the \<open>mod\<close>.\<close>

lemma ring_distance:
  fixes r w :: nat
  assumes "r < 2048" and "w < 2048"
  shows "(w + 2048 - r) mod 2048 = (if r \<le> w then w - r else w + 2048 - r)"
proof (cases "r \<le> w")
  case True
  then have "w + 2048 - r = (w - r) + 2048"
    by simp
  then have "(w + 2048 - r) mod 2048 = (w - r) mod 2048"
    by (simp only: mod_add_self2)
  with True assms show ?thesis
    by simp
next
  case False
  with assms show ?thesis
    by simp
qed

lemma ring_wrap:
  fixes r i :: nat
  assumes "r < 2048" and "i < 2048"
  shows "(r + i) mod 2048 = (if r + i < 2048 then r + i else r + i - 2048)"
  using assms by (simp add: mod_if)

lemma ring_offset_neq:
  fixes r i n :: nat
  assumes "i < n" and "n < 2048"
  shows "(r + i) mod 2048 \<noteq> (r + n) mod 2048"
proof
  assume "(r + i) mod 2048 = (r + n) mod 2048"
  then have "2048 dvd (r + n) - (r + i)"
    using assms(1) by (metis mod_eq_dvd_iff_nat nat_add_left_cancel_le less_imp_le)
  then have "2048 dvd n - i"
    by simp
  then have "2048 \<le> n - i"
    using assms(1) by (intro dvd_imp_le) simp_all
  with assms show False
    by simp
qed

lemma ring_step:
  fixes r w :: nat
  assumes "r < 2048" and "w < 2048" and "(w + 2048 - r) mod 2048 < 2047"
  shows "((w + 1) mod 2048 + 2048 - r) mod 2048 = Suc ((w + 2048 - r) mod 2048)"
proof (cases "w = 2047")
  case True
  then have "((w + 1) mod 2048 + 2048 - r) mod 2048 = (0 + 2048 - r) mod 2048"
    by simp
  with assms True show ?thesis
    by (auto simp only: ring_distance split: if_splits)
next
  case False
  with assms have "w + 1 < 2048"
    by simp
  then have w1: "(w + 1) mod 2048 = w + 1"
    by (rule mod_less)
  have d1: "(w + 1 + 2048 - r) mod 2048 = (if r \<le> w + 1 then w + 1 - r else w + 1 + 2048 - r)"
    using assms(1) \<open>w + 1 < 2048\<close> by (rule ring_distance)
  have d: "(w + 2048 - r) mod 2048 = (if r \<le> w then w - r else w + 2048 - r)"
    using assms(1,2) by (rule ring_distance)
  have "r \<noteq> w + 1"
    using assms(3) unfolding d by auto
  then show ?thesis
    using assms(1) unfolding w1 d1 d by auto
qed

lemma ring_advance:
  fixes r w n :: nat
  assumes "r < 2048" and "w < 2048" and "n \<le> (w + 2048 - r) mod 2048"
  shows "(w + 2048 - (r + n) mod 2048) mod 2048 = (w + 2048 - r) mod 2048 - n"
proof -
  have "(r + n) mod 2048 = (if r + n < 2048 then r + n else r + n - 2048)"
    using assms by (intro ring_wrap) (auto simp: ring_distance split: if_splits)
  with assms show ?thesis
    by (auto simp: ring_distance split: if_splits)
qed

lemma ring_retreat:
  fixes r w :: nat
  assumes "r < 2048" and "w < 2048"
  shows "(w + 2048 - (r + 2047) mod 2048) mod 2048 = ((w + 2048 - r) mod 2048 + 1) mod 2048"
proof -
  have "(r + 2047) mod 2048 = (if r = 0 then 2047 else r - 1)"
    using assms by (cases r) (simp_all add: ring_wrap)
  moreover have "(w + 2048 - 2047) mod 2048 = (w + 2048 - 0 + 1) mod 2048"
    using mod_add_self2 [of "w + 1" 2048] by (simp add: add.commute)
  moreover have "0 < r \<Longrightarrow> w + 2048 - (r - 1) = w + 2048 - r + 1"
    using assms by arith
  ultimately have "(w + 2048 - (r + 2047) mod 2048) mod 2048 = (w + 2048 - r + 1) mod 2048"
    by (cases "r = 0") simp_all
  then show ?thesis
    by (simp only: mod_add_left_eq)
qed

lemma mod_2048_less [simp]: "(x :: u32) mod 2048 < 2048"
  by (simp add: word_less_nat_alt unat_mod)

lemma map_upt_split: "m \<le> n \<Longrightarrow> map f [0..<n] = map f [0..<m] @ map f [m..<n]"
  by (metis add_diff_inverse_nat not_le map_append upt_add_eq_append zero_le)

lemma map_upt_shift: "map f [k..<k + n] = map (\<lambda>i. f (k + i)) [0..<n]"
  by (rule nth_equalityI) simp_all

lemma take_length_le [simp]: "length xs \<le> n \<Longrightarrow> take n xs = xs"
  by simp

text \<open>C strings: the bytes before the terminating NUL.\<close>

definition c_str :: "byte list \<Rightarrow> byte list" where
  "c_str bs = takeWhile (\<lambda>b. b \<noteq> 0) bs"

definition ascii :: "string \<Rightarrow> byte list" where
  "ascii cs = map of_char cs"

lemma length_c_str_le: "length (c_str bs) \<le> length bs"
  by (simp add: c_str_def length_takeWhile_le)

lemma length_ascii [simp]: "length (ascii cs) = length cs"
  by (simp add: ascii_def)

end
