(* ===== verification/Ring_Buffer.thy ===== *)
theory Ring_Buffer
  imports Prelude
begin

text \<open>
  The ring buffers between the serial port and the network (\<open>BufferType\<close> and its operations,
  \<open>sercd.c\<close> lines 62 to 78 and 306 to 383), with 32-bit positions as in the C struct. The
  abstraction \<open>contents\<close> lists the bytes a buffer holds, oldest first; each operation is shown to
  act on it as a bounded FIFO queue. The queue interface is the locale \<open>byte_queue\<close>, interpreted
  on the ring buffer.
\<close>

section \<open>The buffer and its operations\<close>

definition BufferSize :: u32 where
  "BufferSize = 2048"

record BufferType =
  Buffer :: "nat \<Rightarrow> byte"
  RdPos :: u32
  WrPos :: u32

definition InitBuffer :: "BufferType \<Rightarrow> BufferType" where
  "InitBuffer B = B\<lparr>RdPos := 0, WrPos := 0\<rparr>"

definition BufferLength :: "BufferType \<Rightarrow> u32" where
  "BufferLength B = (WrPos B - RdPos B + BufferSize) mod BufferSize"

definition BufferRoomLeft :: "BufferType \<Rightarrow> u32" where
  "BufferRoomLeft B = BufferSize - 1 - BufferLength B"

definition BufferHasRoomFor :: "BufferType \<Rightarrow> u32 \<Rightarrow> bool" where
  "BufferHasRoomFor B x \<longleftrightarrow> x \<le> BufferRoomLeft B"

definition IsBufferEmpty :: "BufferType \<Rightarrow> bool" where
  "IsBufferEmpty B \<longleftrightarrow> BufferLength B = 0"

definition AddToBuffer :: "BufferType \<Rightarrow> byte \<Rightarrow> fault + BufferType" where
  "AddToBuffer B C =
     (if \<not> BufferHasRoomFor B 1 then Inl AssertionFailure
      else if \<not> WrPos B < BufferSize then Inl OutOfBoundsWrite
      else Inr (B\<lparr>Buffer := (Buffer B)(unat (WrPos B) := C),
                  WrPos := (WrPos B + 1) mod BufferSize\<rparr>))"

definition GetFromBuffer :: "BufferType \<Rightarrow> fault + (byte \<times> BufferType)" where
  "GetFromBuffer B =
     (if \<not> RdPos B < BufferSize then Inl OutOfBoundsRead
      else Inr (Buffer B (unat (RdPos B)), B\<lparr>RdPos := (RdPos B + 1) mod BufferSize\<rparr>))"

text \<open>
  The C function returns the address of \<open>Buffer[RdPos]\<close> and stores the length of the string
  through \<open>len\<close>; here it returns that length and \<open>buffer_bytes\<close> reads the bytes from that address.
\<close>

definition GetBufferString :: "BufferType \<Rightarrow> u32" where
  "GetBufferString B =
     (if RdPos B \<le> WrPos B then WrPos B - RdPos B else BufferSize - RdPos B)"

definition buffer_bytes :: "BufferType \<Rightarrow> nat \<Rightarrow> byte list" where
  "buffer_bytes B n = map (Buffer B) [unat (RdPos B)..<unat (RdPos B) + n]"

definition BufferPopBytes :: "BufferType \<Rightarrow> u32 \<Rightarrow> BufferType" where
  "BufferPopBytes B len = B\<lparr>RdPos := (RdPos B + len) mod BufferSize\<rparr>"

section \<open>The abstract queue\<close>

definition buf_ok :: "BufferType \<Rightarrow> bool" where
  "buf_ok B \<longleftrightarrow> RdPos B < BufferSize \<and> WrPos B < BufferSize"

definition contents :: "BufferType \<Rightarrow> byte list" where
  "contents B =
     map (\<lambda>i. Buffer B ((unat (RdPos B) + i) mod 2048)) [0..<unat (BufferLength B)]"

lemma length_contents: "length (contents B) = unat (BufferLength B)"
  by (simp add: contents_def)

lemma BufferLength_less: "unat (BufferLength B) < 2048"
  by (simp add: BufferLength_def BufferSize_def unat_mod)

lemma length_contents_less [simp]: "length (contents B) < 2048"
  by (simp add: length_contents BufferLength_less)

lemma length_contents_le [simp]: "length (contents B) \<le> 2047"
  using length_contents_less [of B] by linarith

lemma buf_ok_nat: "buf_ok B \<longleftrightarrow> unat (RdPos B) < 2048 \<and> unat (WrPos B) < 2048"
  by (simp add: buf_ok_def BufferSize_def word_less_nat_alt)

lemma BufferLength_nat:
  "buf_ok B \<Longrightarrow> unat (BufferLength B) = (unat (WrPos B) + 2048 - unat (RdPos B)) mod 2048"
  unfolding BufferLength_def buf_ok_def BufferSize_def by (rule unat_sub_mod) simp_all

lemma BufferRoomLeft_nat: "unat (BufferRoomLeft B) = 2047 - length (contents B)"
proof -
  have "BufferLength B \<le> 2047"
    using BufferLength_less [of B] by (simp add: word_le_nat_alt)
  then have "unat (2047 - BufferLength B) = 2047 - unat (BufferLength B)"
    by (subst unat_sub) simp_all
  then show ?thesis
    by (simp add: BufferRoomLeft_def BufferSize_def length_contents)
qed

lemma BufferHasRoomFor_nat:
  "BufferHasRoomFor B x \<longleftrightarrow> unat x + length (contents B) \<le> 2047"
  using length_contents_le [of B]
  unfolding BufferHasRoomFor_def word_le_nat_alt BufferRoomLeft_nat by arith

lemma IsBufferEmpty_contents: "IsBufferEmpty B \<longleftrightarrow> contents B = []"
proof -
  have "contents B = [] \<longleftrightarrow> unat (BufferLength B) = 0"
    by (simp add: contents_def)
  then show ?thesis
    by (simp add: IsBufferEmpty_def unat_eq_0)
qed

section \<open>Initialisation\<close>

lemma InitBuffer_ok [simp]: "buf_ok (InitBuffer B)"
  by (simp add: InitBuffer_def buf_ok_def BufferSize_def)

lemma contents_InitBuffer [simp]: "contents (InitBuffer B) = []"
  by (simp add: InitBuffer_def contents_def BufferLength_def BufferSize_def)

section \<open>Adding a byte\<close>

text \<open>The buffer after an addition that fits; \<open>AddToBuffer\<close> is its guarded form.\<close>

definition buf_push :: "BufferType \<Rightarrow> byte \<Rightarrow> BufferType" where
  "buf_push B C = B\<lparr>Buffer := (Buffer B)(unat (WrPos B) := C),
                    WrPos := (WrPos B + 1) mod BufferSize\<rparr>"

lemma AddToBuffer_fits:
  "buf_ok B \<Longrightarrow> length (contents B) < 2047 \<Longrightarrow> AddToBuffer B C = Inr (buf_push B C)"
  by (simp add: AddToBuffer_def BufferHasRoomFor_nat buf_ok_def buf_push_def)

lemma AddToBuffer_full:
  "\<not> length (contents B) < 2047 \<Longrightarrow> AddToBuffer B C = Inl AssertionFailure"
  by (simp add: AddToBuffer_def BufferHasRoomFor_nat)

lemma buf_ok_push [simp]: "buf_ok B \<Longrightarrow> buf_ok (buf_push B C)"
  by (simp add: buf_ok_def buf_push_def BufferSize_def)

lemma BufferLength_push:
  assumes "buf_ok B" and "length (contents B) < 2047"
  shows "unat (BufferLength (buf_push B C)) = Suc (unat (BufferLength B))"
proof -
  have "unat (WrPos (buf_push B C)) = (unat (WrPos B) + 1) mod 2048"
    using assms(1) by (simp add: buf_push_def BufferSize_def unat_add_mod)
  moreover have "RdPos (buf_push B C) = RdPos B"
    by (simp add: buf_push_def)
  ultimately have len: "unat (BufferLength (buf_push B C)) =
      ((unat (WrPos B) + 1) mod 2048 + 2048 - unat (RdPos B)) mod 2048"
    using assms(1) by (simp add: BufferLength_nat)
  moreover have "((unat (WrPos B) + 1) mod 2048 + 2048 - unat (RdPos B)) mod 2048 =
      Suc ((unat (WrPos B) + 2048 - unat (RdPos B)) mod 2048)"
    using assms by (intro ring_step) (simp_all add: buf_ok_nat length_contents BufferLength_nat)
  ultimately show ?thesis
    using assms(1) by (simp add: BufferLength_nat)
qed

text \<open>Where the next byte goes, counted from the read position.\<close>

lemma WrPos_offset:
  assumes "buf_ok B"
  shows "(unat (RdPos B) + unat (BufferLength B)) mod 2048 = unat (WrPos B)"
proof -
  have "unat (RdPos B) < 2048" "unat (WrPos B) < 2048"
    using assms by (simp_all add: buf_ok_nat)
  then have "(unat (RdPos B) + (unat (WrPos B) + 2048 - unat (RdPos B)) mod 2048) mod 2048
      = unat (WrPos B)"
    by (simp add: ring_distance)
  then show ?thesis
    using assms by (simp add: BufferLength_nat)
qed

lemma contents_push [buf_simps]:
  assumes ok: "buf_ok B" and fits: "length (contents B) < 2047"
  shows "contents (buf_push B C) = contents B @ [C]"
proof -
  let ?r = "unat (RdPos B)" and ?n = "unat (BufferLength B)"
  have push: "RdPos (buf_push B C) = RdPos B"
      "Buffer (buf_push B C) = (Buffer B)((?r + ?n) mod 2048 := C)"
    using ok by (simp_all add: buf_push_def WrPos_offset)
  have "contents (buf_push B C) =
      map (\<lambda>i. ((Buffer B)((?r + ?n) mod 2048 := C)) ((?r + i) mod 2048)) [0..<Suc ?n]"
    by (simp only: contents_def push BufferLength_push [OF ok fits])
  also have "\<dots> = map (\<lambda>i. Buffer B ((?r + i) mod 2048)) [0..<?n] @ [C]"
    using ring_offset_neq [of _ ?n ?r] BufferLength_less [of B] by simp
  finally show ?thesis
    by (simp add: contents_def)
qed

section \<open>The queue interface\<close>

text \<open>
  What the senders rely on: a queue of bounded capacity whose enqueue succeeds exactly when there
  is room, and then appends. Everything the senders need about a run of additions follows.
\<close>

locale byte_queue =
  fixes enq :: "'q \<Rightarrow> byte \<Rightarrow> 'e + 'q"
    and push :: "'q \<Rightarrow> byte \<Rightarrow> 'q"
    and bytes :: "'q \<Rightarrow> byte list"
    and ok :: "'q \<Rightarrow> bool"
    and cap :: nat
    and full :: 'e
  assumes enq_fits: "ok q \<Longrightarrow> length (bytes q) < cap \<Longrightarrow> enq q c = Inr (push q c)"
    and enq_full: "ok q \<Longrightarrow> \<not> length (bytes q) < cap \<Longrightarrow> enq q c = Inl full"
    and ok_push: "ok q \<Longrightarrow> ok (push q c)"
    and bytes_push: "ok q \<Longrightarrow> length (bytes q) < cap \<Longrightarrow> bytes (push q c) = bytes q @ [c]"
begin

lemma pushes_bytes:
  "ok q \<Longrightarrow> length (bytes q) + length cs \<le> cap \<Longrightarrow>
    ok (foldl push q cs) \<and> bytes (foldl push q cs) = bytes q @ cs"
  by (induction cs arbitrary: q) (simp_all add: ok_push bytes_push)

lemma enq_all_fits:
  "ok q \<Longrightarrow> length (bytes q) + length cs \<le> cap \<Longrightarrow>
    each_r (\<lambda>c q. enq q c) cs q = Inr (foldl push q cs)"
  by (induction cs arbitrary: q) (simp_all add: enq_fits ok_push bytes_push)

lemma enq_all_full:
  "ok q \<Longrightarrow> cap < length (bytes q) + length cs \<Longrightarrow> length (bytes q) \<le> cap \<Longrightarrow>
    each_r (\<lambda>c q. enq q c) cs q = Inl full"
proof (induction cs arbitrary: q)
  case Nil
  then show ?case by simp
next
  case (Cons c cs)
  show ?case
  proof (cases "length (bytes q) < cap")
    case True
    with Cons show ?thesis
      by (simp add: enq_fits ok_push bytes_push)
  next
    case False
    with Cons.prems(1) show ?thesis
      by (simp add: enq_full)
  qed
qed

lemma enq_all_iff:
  assumes "ok q" and "length (bytes q) \<le> cap"
  shows "(\<exists>q'. each_r (\<lambda>c q. enq q c) cs q = Inr q') \<longleftrightarrow> length (bytes q) + length cs \<le> cap"
  using enq_all_fits [OF assms(1)] enq_all_full [OF assms(1) _ assms(2)]
  by (cases "length (bytes q) + length cs \<le> cap") simp_all

end

interpretation ring: byte_queue AddToBuffer buf_push contents buf_ok 2047 AssertionFailure
  by unfold_locales (simp_all add: AddToBuffer_fits AddToBuffer_full contents_push)

definition buf_append :: "BufferType \<Rightarrow> byte list \<Rightarrow> BufferType" where
  "buf_append B cs = foldl buf_push B cs"

lemma buf_append_Nil [simp]: "buf_append B [] = B"
  by (simp add: buf_append_def)

lemma buf_append_append: "buf_append (buf_append B xs) ys = buf_append B (xs @ ys)"
  by (simp add: buf_append_def)

lemma buf_push_append: "buf_push (buf_append B xs) c = buf_append B (xs @ [c])"
  by (simp add: buf_append_def)

lemma buf_push_eq: "buf_push B c = buf_append B [c]"
  by (simp add: buf_append_def)

lemma buf_ok_append [simp]: "buf_ok B \<Longrightarrow> buf_ok (buf_append B cs)"
  unfolding buf_append_def by (induction cs arbitrary: B) simp_all

lemma contents_append [buf_simps]:
  "buf_ok B \<Longrightarrow> length (contents B) + length cs \<le> 2047 \<Longrightarrow>
    contents (buf_append B cs) = contents B @ cs"
  unfolding buf_append_def using ring.pushes_bytes [of B cs] by simp

section \<open>Taking bytes out\<close>

lemma pop_positions:
  "unat (RdPos (BufferPopBytes B len)) = (unat (RdPos B) + unat len) mod 2048"
  "WrPos (BufferPopBytes B len) = WrPos B" "Buffer (BufferPopBytes B len) = Buffer B"
  by (simp_all add: BufferPopBytes_def BufferSize_def unat_add_mod)

lemma buf_ok_pop [simp]: "buf_ok B \<Longrightarrow> buf_ok (BufferPopBytes B len)"
  by (simp add: buf_ok_def BufferPopBytes_def BufferSize_def)

lemma BufferLength_pop:
  assumes "buf_ok B" and "unat len \<le> length (contents B)"
  shows "unat (BufferLength (BufferPopBytes B len)) = unat (BufferLength B) - unat len"
proof -
  have "buf_ok (BufferPopBytes B len)"
    using assms(1) by simp
  then show ?thesis
    using assms ring_advance [of "unat (RdPos B)" "unat (WrPos B)" "unat len"]
    by (simp add: BufferLength_nat buf_ok_nat pop_positions length_contents)
qed

lemma BufferPopBytes_drop [buf_simps]:
  assumes "buf_ok B" and "unat len \<le> length (contents B)"
  shows "contents (BufferPopBytes B len) = drop (unat len) (contents B)"
proof (rule nth_equalityI)
  show "length (contents (BufferPopBytes B len)) = length (drop (unat len) (contents B))"
    using assms by (simp add: BufferLength_pop length_contents)
next
  fix i
  assume "i < length (contents (BufferPopBytes B len))"
  then show "contents (BufferPopBytes B len) ! i = drop (unat len) (contents B) ! i"
    using assms by (simp add: contents_def BufferLength_pop pop_positions length_contents
        mod_simps add.assoc less_diff_conv add.commute [of i])
qed

lemma GetFromBuffer_hd:
  assumes "buf_ok B" and "contents B \<noteq> []"
  shows "GetFromBuffer B = Inr (hd (contents B), BufferPopBytes B 1)"
proof -
  have "0 < unat (BufferLength B)"
    using assms(2) by (simp add: contents_def)
  then have "hd (contents B) = Buffer B (unat (RdPos B))"
    using assms(1) by (simp add: contents_def hd_map upt_conv_Cons buf_ok_nat)
  then show ?thesis
    using assms(1) by (simp add: GetFromBuffer_def buf_ok_def BufferPopBytes_def)
qed

text \<open>
  \<open>GetBufferString\<close> gives the longest run of bytes up to the end of the array: a prefix of the
  contents, inside the array, and empty only if the buffer is.
\<close>

lemma GetBufferString_nat:
  assumes "buf_ok B"
  shows "unat (GetBufferString B) =
    (if unat (RdPos B) \<le> unat (WrPos B) then unat (WrPos B) - unat (RdPos B)
     else 2048 - unat (RdPos B))"
  using assms
  by (auto simp: GetBufferString_def BufferSize_def word_le_nat_alt unat_sub buf_ok_nat)

lemma GetBufferString_le:
  assumes "buf_ok B"
  shows "unat (GetBufferString B) \<le> length (contents B)"
  using assms
  by (auto simp: GetBufferString_nat length_contents BufferLength_nat ring_distance buf_ok_nat)

lemma GetBufferString_in_array:
  "buf_ok B \<Longrightarrow> unat (RdPos B) + unat (GetBufferString B) \<le> 2048"
  by (auto simp: GetBufferString_nat buf_ok_nat)

lemma GetBufferString_pos:
  assumes "buf_ok B" and "contents B \<noteq> []"
  shows "0 < unat (GetBufferString B)"
proof -
  have "unat (BufferLength B) \<noteq> 0"
    using assms(2) by (simp add: contents_def)
  then show ?thesis
    using assms(1)
    by (auto simp: GetBufferString_nat BufferLength_nat ring_distance buf_ok_nat split: if_splits)
qed

lemma buffer_bytes_take:
  assumes "buf_ok B" and "n \<le> unat (GetBufferString B)"
  shows "buffer_bytes B n = take n (contents B)"
proof (rule nth_equalityI)
  have n: "n \<le> unat (BufferLength B)" "unat (RdPos B) + n \<le> 2048"
    using assms GetBufferString_le [of B] GetBufferString_in_array [of B]
    by (simp_all add: length_contents)
  then show "length (buffer_bytes B n) = length (take n (contents B))"
    by (simp add: buffer_bytes_def length_contents)
  fix i
  assume "i < length (buffer_bytes B n)"
  then show "buffer_bytes B n ! i = take n (contents B) ! i"
    using n by (simp add: buffer_bytes_def contents_def)
qed

text \<open>
  Popping \<open>-1\<close> (a \<open>ssize_t\<close> error return passed on as \<open>unsigned int\<close>): the read position moves
  back by one. The byte before it reappears, or a buffer that was full becomes empty.
\<close>

lemma pop_minus_one_pos:
  "unat (RdPos (BufferPopBytes B (- 1))) = (unat (RdPos B) + 2047) mod 2048"
proof -
  have minus_one: "unat (- 1 :: u32) = 4294967295"
    by (simp add: unsigned_minus_1_eq_mask mask_eq_exp_minus_1)
  have "(unat (RdPos B) + 4294967295) mod 2048 = (unat (RdPos B) + 2047 + 2097151 * 2048) mod 2048"
    by (rule arg_cong [where f = "\<lambda>n. n mod 2048"]) simp
  also have "\<dots> = (unat (RdPos B) + 2047) mod 2048"
    by (rule mod_mult_self1)
  finally show ?thesis
    by (simp only: pop_positions(1) minus_one)
qed

lemma BufferLength_pop_minus_one:
  assumes "buf_ok B"
  shows "unat (BufferLength (BufferPopBytes B (- 1))) = (unat (BufferLength B) + 1) mod 2048"
proof -
  have "buf_ok (BufferPopBytes B (- 1))"
    using assms by simp
  then show ?thesis
    using assms ring_retreat [of "unat (RdPos B)" "unat (WrPos B)"]
    by (simp add: BufferLength_nat buf_ok_nat pop_minus_one_pos pop_positions(2))
qed

lemma pop_minus_one_contents:
  assumes "buf_ok B"
  shows "contents (BufferPopBytes B (- 1)) =
    (if length (contents B) = 2047 then []
     else Buffer B ((unat (RdPos B) + 2047) mod 2048) # contents B)"
proof (cases "length (contents B) = 2047")
  case True
  then have "unat (BufferLength (BufferPopBytes B (- 1))) = 0"
    using assms by (simp add: BufferLength_pop_minus_one length_contents)
  with True show ?thesis
    by (simp add: contents_def)
next
  case False
  then have n: "unat (BufferLength (BufferPopBytes B (- 1))) = Suc (unat (BufferLength B))"
    using assms BufferLength_less [of B] by (simp add: BufferLength_pop_minus_one length_contents)
  have retreat: "Suc ((unat (RdPos B) + 2047) mod 2048 + i) mod 2048 = (unat (RdPos B) + i) mod 2048" for i
  proof -
    have "Suc ((unat (RdPos B) + 2047) mod 2048 + i) mod 2048 =
        (unat (RdPos B) + 2047 + Suc i) mod 2048"
      unfolding add_Suc_right [symmetric] by (rule mod_add_left_eq)
    also have "unat (RdPos B) + 2047 + Suc i = unat (RdPos B) + i + 2048"
      by simp
    finally show ?thesis
      by (simp only: mod_add_self2)
  qed
  have "contents (BufferPopBytes B (- 1)) =
      map (\<lambda>i. Buffer B (((unat (RdPos B) + 2047) mod 2048 + i) mod 2048))
        [0..<Suc (unat (BufferLength B))]"
    by (simp only: contents_def n pop_minus_one_pos pop_positions(3))
  also have "\<dots> = Buffer B ((unat (RdPos B) + 2047) mod 2048) # contents B"
    unfolding contents_def by (simp add: upt_conv_Cons map_Suc_upt [symmetric] retreat
        del: upt_Suc)
  finally show ?thesis
    using False by simp
qed

end
