(* ===== verification/Ring_Queue.thy ===== *)
theory Ring_Queue
  imports Ring_Buffer
begin

text \<open>
  The ring buffer as an abstract data type. Its operations (\<open>sercd.c\<close> lines 306 to 383) are requests
  with replies; the abstract machine serves the same requests on a list of bytes. Any sequence of
  requests that keeps to the preconditions of \<open>GetFromBuffer\<close> and \<open>BufferPopBytes\<close> gets replies
  from the ring that the list could have given, and leaves the ring holding the list's bytes.
\<close>

section \<open>Requests to the ring\<close>

datatype request =
  Reset | Put byte | Take | Discard u32
  | AskEmpty | AskLength | AskRoom | AskRoomFor u32 | AskString

datatype reply = Done | Got byte | Truth bool | Number nat | Bytes "byte list"

fun ring_step :: "request \<Rightarrow> BufferType \<Rightarrow> fault + reply \<times> BufferType" where
  "ring_step Reset B = Inr (Done, InitBuffer B)"
| "ring_step (Put c) B = bind_r (AddToBuffer B c) (\<lambda>B'. Inr (Done, B'))"
| "ring_step Take B = bind_r (GetFromBuffer B) (\<lambda>(c, B'). Inr (Got c, B'))"
| "ring_step (Discard n) B = Inr (Done, BufferPopBytes B n)"
| "ring_step AskEmpty B = Inr (Truth (IsBufferEmpty B), B)"
| "ring_step AskLength B = Inr (Number (unat (BufferLength B)), B)"
| "ring_step AskRoom B = Inr (Number (unat (BufferRoomLeft B)), B)"
| "ring_step (AskRoomFor n) B = Inr (Truth (BufferHasRoomFor B n), B)"
| "ring_step AskString B = Inr (Bytes (buffer_bytes B (unat (GetBufferString B))), B)"

fun ring_run :: "request list \<Rightarrow> BufferType \<Rightarrow> fault + reply list \<times> BufferType" where
  "ring_run [] B = Inr ([], B)"
| "ring_run (r # rs) B =
     bind_r (ring_step r B) (\<lambda>(y, B').
       bind_r (ring_run rs B') (\<lambda>(ys, B''). Inr (y # ys, B'')))"

section \<open>The abstract machine\<close>

text \<open>
  The only freedom of the abstract machine is in the string it shows: any beginning of the queue
  will do that is not empty unless the queue is.
\<close>

fun queue_reply :: "byte list \<Rightarrow> request \<Rightarrow> reply \<Rightarrow> bool" where
  "queue_reply q Take y \<longleftrightarrow> y = Got (hd q)"
| "queue_reply q AskEmpty y \<longleftrightarrow> y = Truth (q = [])"
| "queue_reply q AskLength y \<longleftrightarrow> y = Number (length q)"
| "queue_reply q AskRoom y \<longleftrightarrow> y = Number (2047 - length q)"
| "queue_reply q (AskRoomFor n) y \<longleftrightarrow> y = Truth (unat n + length q \<le> 2047)"
| "queue_reply q AskString y \<longleftrightarrow>
     (case y of Bytes p \<Rightarrow> p = take (length p) q \<and> (p = [] \<longrightarrow> q = []) | _ \<Rightarrow> False)"
| "queue_reply q r y \<longleftrightarrow> y = Done"

fun queue_after :: "byte list \<Rightarrow> request \<Rightarrow> byte list" where
  "queue_after q Reset = []"
| "queue_after q (Put c) = q @ [c]"
| "queue_after q Take = tl q"
| "queue_after q (Discard n) = drop (unat n) q"
| "queue_after q r = q"

fun queue_may :: "byte list \<Rightarrow> request \<Rightarrow> bool" where
  "queue_may q Take \<longleftrightarrow> q \<noteq> []"
| "queue_may q (Discard n) \<longleftrightarrow> unat n \<le> length q"
| "queue_may q r \<longleftrightarrow> True"

fun queue_full :: "byte list \<Rightarrow> request \<Rightarrow> bool" where
  "queue_full q (Put c) \<longleftrightarrow> 2047 \<le> length q"
| "queue_full q r \<longleftrightarrow> False"

fun permitted :: "byte list \<Rightarrow> request list \<Rightarrow> bool" where
  "permitted q [] \<longleftrightarrow> True"
| "permitted q (r # rs) \<longleftrightarrow> queue_may q r \<and> permitted (queue_after q r) rs"

fun overflows :: "byte list \<Rightarrow> request list \<Rightarrow> bool" where
  "overflows q [] \<longleftrightarrow> False"
| "overflows q (r # rs) \<longleftrightarrow> queue_full q r \<or> overflows (queue_after q r) rs"

inductive queue_run :: "byte list \<Rightarrow> request list \<Rightarrow> reply list \<Rightarrow> byte list \<Rightarrow> bool" where
  no_request: "queue_run q [] [] q"
| next_request: "queue_reply q r y \<Longrightarrow> queue_run (queue_after q r) rs ys q' \<Longrightarrow>
    queue_run q (r # rs) (y # ys) q'"

inductive_simps queue_run_Nil [simp]: "queue_run q [] ys q'"
inductive_simps queue_run_Cons [simp]: "queue_run q (r # rs) ys q'"

section \<open>Refinement\<close>

lemma string_reply:
  assumes "buf_ok B"
  shows "queue_reply (contents B) AskString (Bytes (buffer_bytes B (unat (GetBufferString B))))"
proof -
  have "buffer_bytes B (unat (GetBufferString B)) =
      take (unat (GetBufferString B)) (contents B)"
    by (rule buffer_bytes_take [OF assms order_refl])
  then show ?thesis
    using GetBufferString_pos [OF assms] GetBufferString_le [OF assms]
    by (cases "contents B = []") simp_all
qed

lemma ring_step_refines:
  assumes "buf_ok B" and "queue_may (contents B) r"
  shows "(case ring_step r B of
      Inl e \<Rightarrow> e = AssertionFailure \<and> queue_full (contents B) r
    | Inr (y, B') \<Rightarrow> \<not> queue_full (contents B) r \<and> buf_ok B' \<and>
        queue_reply (contents B) r y \<and> contents B' = queue_after (contents B) r)"
proof (cases r)
  case (Put c)
  then show ?thesis
    using assms by (cases "length (contents B) < 2047")
      (simp_all add: AddToBuffer_fits AddToBuffer_full contents_push)
next
  case Take
  then have "contents B \<noteq> []"
    using assms(2) by simp
  then have "unat (1 :: u32) \<le> length (contents B)"
    by (simp add: Suc_le_eq)
  then have "contents (BufferPopBytes B 1) = tl (contents B)"
    using BufferPopBytes_drop [OF assms(1), of 1] by (simp add: drop_Suc)
  then show ?thesis
    using Take assms by (simp add: GetFromBuffer_hd)
next
  case AskString
  then show ?thesis
    using string_reply [OF assms(1)] assms(1) by simp
qed (use assms in \<open>simp_all add: BufferPopBytes_drop IsBufferEmpty_contents length_contents [symmetric]
    BufferRoomLeft_nat BufferHasRoomFor_nat\<close>)

text \<open>
  C9. The ring buffer refines a queue of at most 2047 bytes: on any sequence of its operations, as
  long as no byte is taken from an empty queue and no more bytes are discarded than there are, it
  gives the replies of the queue and holds the bytes of the queue at the end; it fails, by the
  assertion, exactly when a byte is added to a queue of 2047.
\<close>

theorem ring_buffer_refines_queue:
  assumes "buf_ok B" and "permitted (contents B) rs"
  shows "case ring_run rs B of
      Inl e \<Rightarrow> e = AssertionFailure \<and> overflows (contents B) rs
    | Inr (ys, B') \<Rightarrow> \<not> overflows (contents B) rs \<and> buf_ok B' \<and>
        queue_run (contents B) rs ys (contents B')"
  using assms
proof (induction rs arbitrary: B)
  case Nil
  then show ?case by simp
next
  case (Cons r rs)
  then have may: "queue_may (contents B) r" and rest: "permitted (queue_after (contents B) r) rs"
    by simp_all
  note step = ring_step_refines [OF Cons.prems(1) may]
  show ?case
  proof (cases "ring_step r B")
    case (Inl e)
    then show ?thesis
      using step by simp
  next
    case (Inr p)
    then obtain y B' where B': "ring_step r B = Inr (y, B')"
      by (cases p) simp
    then have after: "buf_ok B'" "contents B' = queue_after (contents B) r"
      using step by simp_all
    show ?thesis
      using Cons.IH [OF after(1)] rest step B' after(2)
      by (auto split: sum.splits)
  qed
qed

theorem ring_buffer_refines_queue_witness:
  "\<exists>B' ys. ring_run [Put 7, Put 8, Take, AskLength, AskString, Discard 1, AskEmpty]
      \<lparr>Buffer = \<lambda>_. 0, RdPos = 2047, WrPos = 2047\<rparr> = Inr (ys, B') \<and>
    ys = [Done, Done, Got 7, Number 1, Bytes [8], Done, Truth True] \<and> contents B' = []"
proof -
  define B where "B = (\<lparr>Buffer = \<lambda>_. 0, RdPos = 2047, WrPos = 2047\<rparr> :: BufferType)"
  define rs where "rs = [Put 7, Put 8, Take, AskLength, AskString, Discard 1, AskEmpty]"
  have B: "buf_ok B" "contents B = []"
    by (simp_all add: B_def buf_ok_def BufferSize_def contents_def BufferLength_def)
  have "permitted (contents B) rs" and fits: "\<not> overflows (contents B) rs"
    by (simp_all add: B rs_def)
  then obtain ys B' where run: "ring_run rs B = Inr (ys, B')"
      "queue_run (contents B) rs ys (contents B')"
    using ring_buffer_refines_queue [OF B(1), of rs] by (auto split: sum.splits)
  have "y = Bytes [8]" if "queue_reply [8] AskString y" for y
    using that by (auto simp: take_Cons' split: reply.splits if_splits)
  then have "ys = [Done, Done, Got 7, Number 1, Bytes [8], Done, Truth True] \<and> contents B' = []"
    using run(2) by (auto simp: B rs_def simp del: queue_reply.simps(6))
  then show ?thesis
    using run(1) unfolding B_def rs_def by blast
qed

end
