(* ===== verification/Telnet_Constants.thy ===== *)
theory Telnet_Constants
  imports Prelude
begin

text \<open>
  The protocol constants of \<open>sercd.h\<close>: base Telnet, the Com Port Control option of RFC 2217 with
  its client and server commands, and the codes of its parameters. They are abbreviations, so
  that a comparison with a constant is a comparison of two numerals.
\<close>

section \<open>Base Telnet\<close>

abbreviation TNSE :: byte where "TNSE \<equiv> 240"
abbreviation TNNOP :: byte where "TNNOP \<equiv> 241"
abbreviation TNSB :: byte where "TNSB \<equiv> 250"
abbreviation TNWILL :: byte where "TNWILL \<equiv> 251"
abbreviation TNWONT :: byte where "TNWONT \<equiv> 252"
abbreviation TNDO :: byte where "TNDO \<equiv> 253"
abbreviation TNDONT :: byte where "TNDONT \<equiv> 254"
abbreviation TNIAC :: byte where "TNIAC \<equiv> 255"
abbreviation TN_TRANSMIT_BINARY :: byte where "TN_TRANSMIT_BINARY \<equiv> 0"
abbreviation TN_ECHO :: byte where "TN_ECHO \<equiv> 1"
abbreviation TN_SUPPRESS_GO_AHEAD :: byte where "TN_SUPPRESS_GO_AHEAD \<equiv> 3"
abbreviation TNCOM_PORT_OPTION :: byte where "TNCOM_PORT_OPTION \<equiv> 44"

section \<open>Com Port Control: client to server\<close>

abbreviation TNCAS_SIGNATURE :: byte where "TNCAS_SIGNATURE \<equiv> 0"
abbreviation TNCAS_SET_BAUDRATE :: byte where "TNCAS_SET_BAUDRATE \<equiv> 1"
abbreviation TNCAS_SET_DATASIZE :: byte where "TNCAS_SET_DATASIZE \<equiv> 2"
abbreviation TNCAS_SET_PARITY :: byte where "TNCAS_SET_PARITY \<equiv> 3"
abbreviation TNCAS_SET_STOPSIZE :: byte where "TNCAS_SET_STOPSIZE \<equiv> 4"
abbreviation TNCAS_SET_CONTROL :: byte where "TNCAS_SET_CONTROL \<equiv> 5"
abbreviation TNCAS_FLOWCONTROL_SUSPEND :: byte where "TNCAS_FLOWCONTROL_SUSPEND \<equiv> 8"
abbreviation TNCAS_FLOWCONTROL_RESUME :: byte where "TNCAS_FLOWCONTROL_RESUME \<equiv> 9"
abbreviation TNCAS_SET_LINESTATE_MASK :: byte where "TNCAS_SET_LINESTATE_MASK \<equiv> 10"
abbreviation TNCAS_SET_MODEMSTATE_MASK :: byte where "TNCAS_SET_MODEMSTATE_MASK \<equiv> 11"
abbreviation TNCAS_PURGE_DATA :: byte where "TNCAS_PURGE_DATA \<equiv> 12"

section \<open>Com Port Control: server to client\<close>

abbreviation TNASC_SIGNATURE :: byte where "TNASC_SIGNATURE \<equiv> 100"
abbreviation TNASC_SET_BAUDRATE :: byte where "TNASC_SET_BAUDRATE \<equiv> 101"
abbreviation TNASC_SET_DATASIZE :: byte where "TNASC_SET_DATASIZE \<equiv> 102"
abbreviation TNASC_SET_PARITY :: byte where "TNASC_SET_PARITY \<equiv> 103"
abbreviation TNASC_SET_STOPSIZE :: byte where "TNASC_SET_STOPSIZE \<equiv> 104"
abbreviation TNASC_SET_CONTROL :: byte where "TNASC_SET_CONTROL \<equiv> 105"
abbreviation TNASC_NOTIFY_MODEMSTATE :: byte where "TNASC_NOTIFY_MODEMSTATE \<equiv> 107"
abbreviation TNASC_SET_LINESTATE_MASK :: byte where "TNASC_SET_LINESTATE_MASK \<equiv> 110"
abbreviation TNASC_SET_MODEMSTATE_MASK :: byte where "TNASC_SET_MODEMSTATE_MASK \<equiv> 111"
abbreviation TNASC_PURGE_DATA :: byte where "TNASC_PURGE_DATA \<equiv> 112"

section \<open>Parameters\<close>

abbreviation TNCOM_NOPARITY :: byte where "TNCOM_NOPARITY \<equiv> 1"
abbreviation TNCOM_ODDPARITY :: byte where "TNCOM_ODDPARITY \<equiv> 2"
abbreviation TNCOM_EVENPARITY :: byte where "TNCOM_EVENPARITY \<equiv> 3"
abbreviation TNCOM_MARKPARITY :: byte where "TNCOM_MARKPARITY \<equiv> 4"
abbreviation TNCOM_SPACEPARITY :: byte where "TNCOM_SPACEPARITY \<equiv> 5"
abbreviation TNCOM_ONESTOPBIT :: byte where "TNCOM_ONESTOPBIT \<equiv> 1"
abbreviation TNCOM_TWOSTOPBITS :: byte where "TNCOM_TWOSTOPBITS \<equiv> 2"
abbreviation TNCOM_ONE5STOPBITS :: byte where "TNCOM_ONE5STOPBITS \<equiv> 3"
abbreviation TNCOM_CMD_FLOW_REQ :: byte where "TNCOM_CMD_FLOW_REQ \<equiv> 0"
abbreviation TNCOM_CMD_FLOW_NONE :: byte where "TNCOM_CMD_FLOW_NONE \<equiv> 1"
abbreviation TNCOM_CMD_FLOW_XONXOFF :: byte where "TNCOM_CMD_FLOW_XONXOFF \<equiv> 2"
abbreviation TNCOM_CMD_FLOW_HARDWARE :: byte where "TNCOM_CMD_FLOW_HARDWARE \<equiv> 3"
abbreviation TNCOM_CMD_BREAK_REQ :: byte where "TNCOM_CMD_BREAK_REQ \<equiv> 4"
abbreviation TNCOM_CMD_BREAK_ON :: byte where "TNCOM_CMD_BREAK_ON \<equiv> 5"
abbreviation TNCOM_CMD_BREAK_OFF :: byte where "TNCOM_CMD_BREAK_OFF \<equiv> 6"
abbreviation TNCOM_CMD_DTR_REQ :: byte where "TNCOM_CMD_DTR_REQ \<equiv> 7"
abbreviation TNCOM_CMD_DTR_ON :: byte where "TNCOM_CMD_DTR_ON \<equiv> 8"
abbreviation TNCOM_CMD_DTR_OFF :: byte where "TNCOM_CMD_DTR_OFF \<equiv> 9"
abbreviation TNCOM_CMD_RTS_REQ :: byte where "TNCOM_CMD_RTS_REQ \<equiv> 10"
abbreviation TNCOM_CMD_RTS_ON :: byte where "TNCOM_CMD_RTS_ON \<equiv> 11"
abbreviation TNCOM_CMD_RTS_OFF :: byte where "TNCOM_CMD_RTS_OFF \<equiv> 12"
abbreviation TNCOM_CMD_INFLOW_REQ :: byte where "TNCOM_CMD_INFLOW_REQ \<equiv> 13"
abbreviation TNCOM_CMD_INFLOW_NONE :: byte where "TNCOM_CMD_INFLOW_NONE \<equiv> 14"
abbreviation TNCOM_CMD_INFLOW_XONXOFF :: byte where "TNCOM_CMD_INFLOW_XONXOFF \<equiv> 15"
abbreviation TNCOM_CMD_INFLOW_HARDWARE :: byte where "TNCOM_CMD_INFLOW_HARDWARE \<equiv> 16"
abbreviation TNCOM_CMD_FLOW_DCD :: byte where "TNCOM_CMD_FLOW_DCD \<equiv> 17"
abbreviation TNCOM_CMD_INFLOW_DTR :: byte where "TNCOM_CMD_INFLOW_DTR \<equiv> 18"
abbreviation TNCOM_CMD_FLOW_DSR :: byte where "TNCOM_CMD_FLOW_DSR \<equiv> 19"
abbreviation TNCOM_MODMASK_RLSD :: byte where "TNCOM_MODMASK_RLSD \<equiv> 128"
abbreviation TNCOM_MODMASK_RING :: byte where "TNCOM_MODMASK_RING \<equiv> 64"
abbreviation TNCOM_MODMASK_DSR :: byte where "TNCOM_MODMASK_DSR \<equiv> 32"
abbreviation TNCOM_MODMASK_CTS :: byte where "TNCOM_MODMASK_CTS \<equiv> 16"
abbreviation TNCOM_MODMASK_RLSD_DELTA :: byte where "TNCOM_MODMASK_RLSD_DELTA \<equiv> 8"
abbreviation TNCOM_MODMASK_RING_TRAIL :: byte where "TNCOM_MODMASK_RING_TRAIL \<equiv> 4"
abbreviation TNCOM_MODMASK_DSR_DELTA :: byte where "TNCOM_MODMASK_DSR_DELTA \<equiv> 2"
abbreviation TNCOM_MODMASK_CTS_DELTA :: byte where "TNCOM_MODMASK_CTS_DELTA \<equiv> 1"

definition TNCOM_MODMASK_NODELTA :: byte where
  "TNCOM_MODMASK_NODELTA =
     TNCOM_MODMASK_RLSD OR TNCOM_MODMASK_RING OR TNCOM_MODMASK_DSR OR TNCOM_MODMASK_CTS"

abbreviation TNCOM_PURGE_RX :: byte where "TNCOM_PURGE_RX \<equiv> 1"
abbreviation TNCOM_PURGE_TX :: byte where "TNCOM_PURGE_TX \<equiv> 2"
abbreviation TNCOM_PURGE_BOTH :: byte where "TNCOM_PURGE_BOTH \<equiv> 3"

lemma NODELTA_eq: "TNCOM_MODMASK_NODELTA = 240"
  by (simp add: TNCOM_MODMASK_NODELTA_def)

end
