(* ===== verification/Serial_Port.thy ===== *)
theory Serial_Port
  imports Telnet_Constants
begin

text \<open>
  The serial port settings (\<open>unix.c\<close> lines 66 to 595): the conversions between the terminal
  attributes and the codes of RFC 2217, and the getters and setters behind the Com Port Control
  commands. The terminal driver and the C library calls that reach it are a parameter, the record
  \<open>tty\<close>; what POSIX and Linux document of them is the predicate \<open>tty_faithful\<close>, and \<open>mem_tty\<close>
  is a driver that keeps its settings in memory and satisfies it.
\<close>

section \<open>The terminal attributes\<close>

record termios =
  c_iflag :: u32
  c_oflag :: u32
  c_cflag :: u32
  c_lflag :: u32
  c_ispeed :: u32
  c_ospeed :: u32

text \<open>The bits and speed codes of the Linux \<open>termbits.h\<close> that the code uses.\<close>

definition CSIZE :: u32 where "CSIZE = 0x30"
definition CS5 :: u32 where "CS5 = 0"
definition CS6 :: u32 where "CS6 = 0x10"
definition CS7 :: u32 where "CS7 = 0x20"
definition CS8 :: u32 where "CS8 = 0x30"
definition CSTOPB :: u32 where "CSTOPB = 0x40"
definition PARENB :: u32 where "PARENB = 0x100"
definition PARODD :: u32 where "PARODD = 0x200"
definition HUPCL :: u32 where "HUPCL = 0x400"
definition CLOCAL :: u32 where "CLOCAL = 0x800"
definition CRTSCTS :: u32 where "CRTSCTS = 0x80000000"
definition IGNBRK :: u32 where "IGNBRK = 1"
definition BRKINT :: u32 where "BRKINT = 2"
definition IXON :: u32 where "IXON = 0x400"
definition IXOFF :: u32 where "IXOFF = 0x1000"
definition TIOCM_DTR :: u32 where "TIOCM_DTR = 2"
definition TIOCM_RTS :: u32 where "TIOCM_RTS = 4"
definition TIOCM_CTS :: u32 where "TIOCM_CTS = 0x20"
definition TIOCM_CAR :: u32 where "TIOCM_CAR = 0x40"
definition TIOCM_RNG :: u32 where "TIOCM_RNG = 0x80"
definition TIOCM_DSR :: u32 where "TIOCM_DSR = 0x100"

lemmas termios_bits =
  CSIZE_def CS5_def CS6_def CS7_def CS8_def CSTOPB_def PARENB_def PARODD_def HUPCL_def CLOCAL_def
  CRTSCTS_def IGNBRK_def BRKINT_def IXON_def IXOFF_def TIOCM_DTR_def TIOCM_RTS_def TIOCM_CTS_def
  TIOCM_CAR_def TIOCM_RNG_def TIOCM_DSR_def

abbreviation B0 :: u32 where "B0 \<equiv> 0"
abbreviation B50 :: u32 where "B50 \<equiv> 1"
abbreviation B75 :: u32 where "B75 \<equiv> 2"
abbreviation B110 :: u32 where "B110 \<equiv> 3"
abbreviation B134 :: u32 where "B134 \<equiv> 4"
abbreviation B150 :: u32 where "B150 \<equiv> 5"
abbreviation B200 :: u32 where "B200 \<equiv> 6"
abbreviation B300 :: u32 where "B300 \<equiv> 7"
abbreviation B600 :: u32 where "B600 \<equiv> 8"
abbreviation B1200 :: u32 where "B1200 \<equiv> 9"
abbreviation B1800 :: u32 where "B1800 \<equiv> 10"
abbreviation B2400 :: u32 where "B2400 \<equiv> 11"
abbreviation B4800 :: u32 where "B4800 \<equiv> 12"
abbreviation B9600 :: u32 where "B9600 \<equiv> 13"
abbreviation B19200 :: u32 where "B19200 \<equiv> 14"
abbreviation B38400 :: u32 where "B38400 \<equiv> 15"
abbreviation B57600 :: u32 where "B57600 \<equiv> 0x1001"
abbreviation B115200 :: u32 where "B115200 \<equiv> 0x1002"
abbreviation B230400 :: u32 where "B230400 \<equiv> 0x1003"
abbreviation B460800 :: u32 where "B460800 \<equiv> 0x1004"

text \<open>The C library's accessors of the speeds, and its raw mode, as their manual page gives them.\<close>

definition cfgetispeed :: "termios \<Rightarrow> u32" where
  "cfgetispeed t = c_ispeed t"

definition cfgetospeed :: "termios \<Rightarrow> u32" where
  "cfgetospeed t = c_ospeed t"

definition cfsetispeed :: "u32 \<Rightarrow> termios \<Rightarrow> termios" where
  "cfsetispeed v t = t\<lparr>c_ispeed := v\<rparr>"

definition cfsetospeed :: "u32 \<Rightarrow> termios \<Rightarrow> termios" where
  "cfsetospeed v t = t\<lparr>c_ospeed := v\<rparr>"

definition cfmakeraw :: "termios \<Rightarrow> termios" where
  "cfmakeraw t = t\<lparr>
     c_iflag := c_iflag t AND NOT 0x5EB,
     c_oflag := c_oflag t AND NOT 1,
     c_lflag := c_lflag t AND NOT 0x804B,
     c_cflag := (c_cflag t AND NOT (CSIZE OR PARENB)) OR CS8\<rparr>"

section \<open>The driver\<close>

datatype set_action = TCSANOW | TCSADRAIN
datatype queue_selector = TCIFLUSH | TCOFLUSH | TCIOFLUSH

record 'p tty =
  tcgetattr :: "'p \<Rightarrow> termios"
  tcsetattr :: "set_action \<Rightarrow> termios \<Rightarrow> 'p \<Rightarrow> 'p"
  tiocmget :: "'p \<Rightarrow> u32"
  tiocmset :: "u32 \<Rightarrow> 'p \<Rightarrow> 'p"
  tcsendbreak :: "'p \<Rightarrow> 'p"
  tcflush :: "queue_selector \<Rightarrow> 'p \<Rightarrow> 'p"

definition modem_outputs :: u32 where
  "modem_outputs = TIOCM_DTR OR TIOCM_RTS"

text \<open>
  Documented behaviour of a driver that supports every setting: attributes read back as written,
  \<open>TIOCMSET\<close> writes the output lines only, and the two kinds of setting are independent.
\<close>

definition tty_faithful :: "'p tty \<Rightarrow> bool" where
  "tty_faithful T \<longleftrightarrow>
     (\<forall>a t p. tcgetattr T (tcsetattr T a t p) = t) \<and>
     (\<forall>a t p. tiocmget T (tcsetattr T a t p) = tiocmget T p) \<and>
     (\<forall>m p. tcgetattr T (tiocmset T m p) = tcgetattr T p) \<and>
     (\<forall>m p. tiocmget T (tiocmset T m p) =
        (m AND modem_outputs) OR (tiocmget T p AND NOT modem_outputs))"

record mem_port =
  mp_termios :: termios
  mp_lines :: u32
  mp_breaks :: nat
  mp_flushes :: "queue_selector list"

definition mem_tty :: "mem_port tty" where
  "mem_tty = \<lparr>
     tcgetattr = mp_termios,
     tcsetattr = (\<lambda>a t p. p\<lparr>mp_termios := t\<rparr>),
     tiocmget = mp_lines,
     tiocmset = (\<lambda>m p. p\<lparr>mp_lines :=
        (m AND modem_outputs) OR (mp_lines p AND NOT modem_outputs)\<rparr>),
     tcsendbreak = (\<lambda>p. p\<lparr>mp_breaks := mp_breaks p + 1\<rparr>),
     tcflush = (\<lambda>q p. p\<lparr>mp_flushes := mp_flushes p @ [q]\<rparr>)\<rparr>"

lemma mem_tty_faithful: "tty_faithful mem_tty"
  by (simp add: tty_faithful_def mem_tty_def)

section \<open>From terminal attributes to RFC 2217 codes\<close>

definition Termios2TncomSpeed :: "termios \<Rightarrow> ulong" where
  "Termios2TncomSpeed ti =
     (let ospeed = cfgetospeed ti in
      case map_of [(B50, 50), (B75, 75), (B110, 110), (B134, 134), (B150, 150), (B200, 200),
        (B300, 300), (B600, 600), (B1200, 1200), (B1800, 1800), (B2400, 2400), (B4800, 4800),
        (B9600, 9600), (B19200, 19200), (B38400, 38400), (B57600, 57600), (B115200, 115200),
        (B230400, 230400), (B460800, 460800)] ospeed of
        Some v \<Rightarrow> v
      | None \<Rightarrow> 0)"

definition Termios2TncomDataSize :: "termios \<Rightarrow> byte" where
  "Termios2TncomDataSize ti =
     (let DataSize = c_cflag ti AND CSIZE in
      if DataSize = CS5 then 5
      else if DataSize = CS6 then 6
      else if DataSize = CS7 then 7
      else if DataSize = CS8 then 8
      else 0)"

definition Termios2TncomParity :: "termios \<Rightarrow> byte" where
  "Termios2TncomParity ti =
     (if c_cflag ti AND PARENB = 0 then TNCOM_NOPARITY
      else if c_cflag ti AND PARENB \<noteq> 0 \<and> c_cflag ti AND PARODD \<noteq> 0 then TNCOM_ODDPARITY
      else TNCOM_EVENPARITY)"

definition Termios2TncomStopSize :: "termios \<Rightarrow> byte" where
  "Termios2TncomStopSize ti =
     (if c_cflag ti AND CSTOPB = 0 then TNCOM_ONESTOPBIT else TNCOM_TWOSTOPBITS)"

definition Termios2TncomOutFlow :: "termios \<Rightarrow> byte" where
  "Termios2TncomOutFlow ti =
     (if c_iflag ti AND IXON \<noteq> 0 then TNCOM_CMD_FLOW_XONXOFF
      else if c_cflag ti AND CRTSCTS \<noteq> 0 then TNCOM_CMD_FLOW_HARDWARE
      else TNCOM_CMD_FLOW_NONE)"

definition Termios2TncomInFlow :: "termios \<Rightarrow> byte" where
  "Termios2TncomInFlow ti =
     (if c_iflag ti AND IXOFF \<noteq> 0 then TNCOM_CMD_INFLOW_XONXOFF
      else if c_cflag ti AND CRTSCTS \<noteq> 0 then TNCOM_CMD_INFLOW_HARDWARE
      else TNCOM_CMD_INFLOW_NONE)"

section \<open>Reading the port\<close>

definition GetPortSpeed :: "'p tty \<Rightarrow> 'p \<Rightarrow> ulong" where
  "GetPortSpeed T p = Termios2TncomSpeed (tcgetattr T p)"

definition GetPortDataSize :: "'p tty \<Rightarrow> 'p \<Rightarrow> byte" where
  "GetPortDataSize T p = Termios2TncomDataSize (tcgetattr T p)"

definition GetPortParity :: "'p tty \<Rightarrow> 'p \<Rightarrow> byte" where
  "GetPortParity T p = Termios2TncomParity (tcgetattr T p)"

definition GetPortStopSize :: "'p tty \<Rightarrow> 'p \<Rightarrow> byte" where
  "GetPortStopSize T p = Termios2TncomStopSize (tcgetattr T p)"

definition GetPortFlowControl :: "'p tty \<Rightarrow> 'p \<Rightarrow> byte \<Rightarrow> byte" where
  "GetPortFlowControl T p Which =
     (let PortSettings = tcgetattr T p; MLines = tiocmget T p in
      if Which = TNCOM_CMD_DTR_REQ then
        (if MLines AND TIOCM_DSR \<noteq> 0 then TNCOM_CMD_DTR_ON else TNCOM_CMD_DTR_OFF)
      else if Which = TNCOM_CMD_RTS_REQ then
        (if MLines AND TIOCM_CTS \<noteq> 0 then TNCOM_CMD_RTS_ON else TNCOM_CMD_RTS_OFF)
      else if Which = TNCOM_CMD_INFLOW_REQ then Termios2TncomInFlow PortSettings
      else Termios2TncomOutFlow PortSettings)"

definition GetModemState :: "'p tty \<Rightarrow> 'p \<Rightarrow> byte \<Rightarrow> byte" where
  "GetModemState T p PMState =
     (let MLines = tiocmget T p;
          M0 = (0 :: byte);
          M1 = (if MLines AND TIOCM_CAR \<noteq> 0 then M0 + TNCOM_MODMASK_RLSD else M0);
          M2 = (if MLines AND TIOCM_RNG \<noteq> 0 then M1 + TNCOM_MODMASK_RING else M1);
          M3 = (if MLines AND TIOCM_DSR \<noteq> 0 then M2 + TNCOM_MODMASK_DSR else M2);
          M4 = (if MLines AND TIOCM_CTS \<noteq> 0 then M3 + TNCOM_MODMASK_CTS else M3);
          M5 = (if M4 AND TNCOM_MODMASK_RLSD \<noteq> PMState AND TNCOM_MODMASK_RLSD
                then M4 + TNCOM_MODMASK_RLSD_DELTA else M4);
          M6 = (if M5 AND TNCOM_MODMASK_RING \<noteq> PMState AND TNCOM_MODMASK_RING
                then M5 + TNCOM_MODMASK_RING_TRAIL else M5);
          M7 = (if M6 AND TNCOM_MODMASK_DSR \<noteq> PMState AND TNCOM_MODMASK_DSR
                then M6 + TNCOM_MODMASK_DSR_DELTA else M6);
          M8 = (if M7 AND TNCOM_MODMASK_CTS \<noteq> PMState AND TNCOM_MODMASK_CTS
                then M7 + TNCOM_MODMASK_CTS_DELTA else M7)
      in M8)"

section \<open>Changing the port\<close>

text \<open>
  Each setter reads the attributes, edits them and writes them back; the edit is a function of
  its own. What the setters log is in \<open>Command_Log\<close>.
\<close>

definition edit_data_size :: "byte \<Rightarrow> termios \<Rightarrow> termios" where
  "edit_data_size DataSize t =
     (let PDataSize = (if DataSize = 5 then CS5
                       else if DataSize = 6 then CS6
                       else if DataSize = 7 then CS7
                       else if DataSize = 8 then CS8
                       else CS8);
          t1 = t\<lparr>c_cflag := c_cflag t AND NOT CSIZE\<rparr>
      in t1\<lparr>c_cflag := c_cflag t1 OR (PDataSize AND CSIZE)\<rparr>)"

definition SetPortDataSize :: "'p tty \<Rightarrow> byte \<Rightarrow> 'p \<Rightarrow> 'p" where
  "SetPortDataSize T DataSize p =
     tcsetattr T TCSADRAIN (edit_data_size DataSize (tcgetattr T p)) p"

definition edit_parity :: "byte \<Rightarrow> termios \<Rightarrow> termios" where
  "edit_parity Parity t =
     (if Parity = TNCOM_NOPARITY then t\<lparr>c_cflag := c_cflag t AND NOT PARENB\<rparr>
      else if Parity = TNCOM_ODDPARITY then t\<lparr>c_cflag := c_cflag t OR PARENB OR PARODD\<rparr>
      else if Parity = TNCOM_EVENPARITY then
        t\<lparr>c_cflag := (c_cflag t OR PARENB) AND NOT PARODD\<rparr>
      else t\<lparr>c_cflag := c_cflag t AND NOT PARENB\<rparr>)"

definition SetPortParity :: "'p tty \<Rightarrow> byte \<Rightarrow> 'p \<Rightarrow> 'p" where
  "SetPortParity T Parity p = tcsetattr T TCSADRAIN (edit_parity Parity (tcgetattr T p)) p"

definition edit_stop_size :: "byte \<Rightarrow> termios \<Rightarrow> termios" where
  "edit_stop_size StopSize t =
     (if StopSize = TNCOM_ONESTOPBIT then t\<lparr>c_cflag := c_cflag t AND NOT CSTOPB\<rparr>
      else if StopSize = TNCOM_TWOSTOPBITS then t\<lparr>c_cflag := c_cflag t OR CSTOPB\<rparr>
      else if StopSize = TNCOM_ONE5STOPBITS then t\<lparr>c_cflag := c_cflag t AND NOT CSTOPB\<rparr>
      else t\<lparr>c_cflag := c_cflag t AND NOT CSTOPB\<rparr>)"

definition SetPortStopSize :: "'p tty \<Rightarrow> byte \<Rightarrow> 'p \<Rightarrow> 'p" where
  "SetPortStopSize T StopSize p =
     tcsetattr T TCSADRAIN (edit_stop_size StopSize (tcgetattr T p)) p"

definition edit_flow :: "byte \<Rightarrow> termios \<Rightarrow> termios" where
  "edit_flow How t =
     (if How = TNCOM_CMD_FLOW_NONE then
        t\<lparr>c_iflag := (c_iflag t AND NOT IXON) AND NOT IXOFF,
          c_cflag := c_cflag t AND NOT CRTSCTS\<rparr>
      else if How = TNCOM_CMD_FLOW_XONXOFF then
        t\<lparr>c_iflag := (c_iflag t OR IXON) OR IXOFF, c_cflag := c_cflag t AND NOT CRTSCTS\<rparr>
      else if How = TNCOM_CMD_FLOW_HARDWARE then
        t\<lparr>c_iflag := (c_iflag t AND NOT IXON) AND NOT IXOFF, c_cflag := c_cflag t OR CRTSCTS\<rparr>
      else t)"

definition edit_lines :: "byte \<Rightarrow> u32 \<Rightarrow> u32" where
  "edit_lines How MLines =
     (if How = TNCOM_CMD_DTR_ON then MLines OR TIOCM_DTR
      else if How = TNCOM_CMD_DTR_OFF then MLines AND NOT TIOCM_DTR
      else if How = TNCOM_CMD_RTS_ON then MLines OR TIOCM_RTS
      else if How = TNCOM_CMD_RTS_OFF then MLines AND NOT TIOCM_RTS
      else MLines)"

definition SetPortFlowControl :: "'p tty \<Rightarrow> byte \<Rightarrow> 'p \<Rightarrow> 'p" where
  "SetPortFlowControl T How p =
     (let PortSettings = edit_flow How (tcgetattr T p);
          MLines = edit_lines How (tiocmget T p);
          p1 = tcsetattr T TCSADRAIN PortSettings p
      in tiocmset T MLines p1)"

definition edit_speed :: "ulong \<Rightarrow> termios \<Rightarrow> termios" where
  "edit_speed BaudRate t =
     (let Speed = (case map_of [(50, B50), (75, B75), (110, B110), (134, B134), (150, B150),
            (200, B200), (300, B300), (600, B600), (1200, B1200), (1800, B1800), (2400, B2400),
            (4800, B4800), (9600, B9600), (19200, B19200), (38400, B38400), (57600, B57600),
            (115200, B115200), (230400, B230400), (460800, B460800)] BaudRate of
            Some v \<Rightarrow> v
          | None \<Rightarrow> B9600)
      in cfsetispeed Speed (cfsetospeed Speed t))"

definition SetPortSpeed :: "'p tty \<Rightarrow> ulong \<Rightarrow> 'p \<Rightarrow> 'p" where
  "SetPortSpeed T BaudRate p = tcsetattr T TCSADRAIN (edit_speed BaudRate (tcgetattr T p)) p"

definition SetBreak :: "'p tty \<Rightarrow> bool \<Rightarrow> 'p \<Rightarrow> 'p" where
  "SetBreak T on p = (if on then tcsendbreak T p else p)"

definition SetFlush :: "'p tty \<Rightarrow> byte \<Rightarrow> 'p \<Rightarrow> 'p" where
  "SetFlush T selector p =
     (if selector = TNCOM_PURGE_RX then tcflush T TCIFLUSH p
      else if selector = TNCOM_PURGE_TX then tcflush T TCOFLUSH p
      else if selector = TNCOM_PURGE_BOTH then tcflush T TCIOFLUSH p
      else p)"

end
