(* ===== verification/Port_Settings.thy ===== *)
theory Port_Settings
  imports Serial_Port
begin

text \<open>
  What a Com Port Control client may rely on about the port: a setting reads back as the value it
  was set to (or as its documented substitute), the settings do not disturb each other, and the
  modem state tells the lines and their changes apart. The read-back laws of the settings share
  the locale \<open>port_setting\<close>.
\<close>

section \<open>Masks\<close>

lemma mask_replace: "((x AND NOT m) OR (y AND m)) AND m = y AND (m :: u32)"
  by (rule bit_word_eqI) (auto simp: bit_simps)

lemma mask_clear: "(x AND NOT m) AND m = (0 :: u32)"
  by (rule bit_word_eqI) (auto simp: bit_simps)

lemma mask_set:
  assumes "m AND n = (n :: u32)"
  shows "(x OR m) AND n = n"
proof (rule bit_word_eqI)
  fix i
  show "bit ((x OR m) AND n) i = bit n i"
    using arg_cong [OF assms, of "\<lambda>w. bit w i"] by (auto simp: bit_simps)
qed

lemma mask_other_clear:
  assumes "m AND n = (0 :: u32)"
  shows "(x AND NOT m) AND n = x AND n"
proof (rule bit_word_eqI)
  fix i
  assume "i < LENGTH(32)"
  then show "bit ((x AND NOT m) AND n) i = bit (x AND n) i"
    using arg_cong [OF assms, of "\<lambda>w. bit w i"] by (auto simp: bit_simps)
qed

lemma mask_other_set:
  assumes "m AND n = (0 :: u32)"
  shows "(x OR m) AND n = x AND n"
proof (rule bit_word_eqI)
  fix i
  show "bit ((x OR m) AND n) i = bit (x AND n) i"
    using arg_cong [OF assms, of "\<lambda>w. bit w i"] by (auto simp: bit_simps)
qed

lemmas mask_rules = mask_replace mask_clear mask_set mask_other_clear mask_other_set

section \<open>Settings that read back\<close>

text \<open>
  A setting edits the attributes and can be viewed in them; a value that is not supported is
  stored as the one \<open>norm\<close> gives.
\<close>

locale port_setting =
  fixes edit :: "'v \<Rightarrow> termios \<Rightarrow> termios"
    and view :: "termios \<Rightarrow> 'v"
    and norm :: "'v \<Rightarrow> 'v"
  assumes view_edit: "view (edit v t) = norm v"
    and norm_norm: "norm (norm v) = norm v"
begin

lemma read_back:
  "tty_faithful T \<Longrightarrow> view (tcgetattr T (tcsetattr T a (edit v (tcgetattr T p)) p)) = norm v"
  by (simp add: tty_faithful_def view_edit)

lemma last_write_wins: "view (edit w (edit v t)) = norm w"
  by (simp add: view_edit)

lemma write_back: "norm v = v \<Longrightarrow> view (edit (view (edit v t)) u) = v"
  by (simp add: view_edit)

end

definition norm_data_size :: "byte \<Rightarrow> byte" where
  "norm_data_size d = (if d \<in> {5, 6, 7, 8} then d else 8)"

definition norm_parity :: "byte \<Rightarrow> byte" where
  "norm_parity v = (if v \<in> {TNCOM_ODDPARITY, TNCOM_EVENPARITY} then v else TNCOM_NOPARITY)"

definition norm_stop_size :: "byte \<Rightarrow> byte" where
  "norm_stop_size v = (if v = TNCOM_TWOSTOPBITS then v else TNCOM_ONESTOPBIT)"

definition supported_speeds :: "ulong list" where
  "supported_speeds = [50, 75, 110, 134, 150, 200, 300, 600, 1200, 1800, 2400, 4800, 9600,
     19200, 38400, 57600, 115200, 230400, 460800]"

definition norm_speed :: "ulong \<Rightarrow> ulong" where
  "norm_speed v = (if v \<in> set supported_speeds then v else 9600)"

lemma data_size_codes:
  "CS5 AND CSIZE = CS5" "CS6 AND CSIZE = CS6" "CS7 AND CSIZE = CS7" "CS8 AND CSIZE = CS8"
  "CS5 \<noteq> CS6" "CS5 \<noteq> CS7" "CS5 \<noteq> CS8" "CS6 \<noteq> CS7" "CS6 \<noteq> CS8" "CS7 \<noteq> CS8"
  by (simp_all add: termios_bits)

lemma view_edit_data_size: "Termios2TncomDataSize (edit_data_size v t) = norm_data_size v"
  by (simp add: Termios2TncomDataSize_def edit_data_size_def norm_data_size_def Let_def
      mask_replace data_size_codes data_size_codes(5-10) [symmetric])

lemma parity_codes:
  "PARENB \<noteq> 0" "PARODD \<noteq> 0" "PARODD AND PARENB = 0" "PARENB AND PARODD = 0"
  "(PARENB OR PARODD) AND PARENB = PARENB" "(PARENB OR PARODD) AND PARODD = PARODD"
  by (simp_all add: termios_bits)

lemma view_edit_parity: "Termios2TncomParity (edit_parity v t) = norm_parity v"
  by (simp add: Termios2TncomParity_def edit_parity_def norm_parity_def mask_rules parity_codes)

lemma CSTOPB_nonzero: "CSTOPB \<noteq> 0"
  by (simp add: termios_bits)

lemma view_edit_stop_size: "Termios2TncomStopSize (edit_stop_size v t) = norm_stop_size v"
  by (simp add: Termios2TncomStopSize_def edit_stop_size_def norm_stop_size_def mask_rules
      CSTOPB_nonzero)

lemma view_edit_speed: "Termios2TncomSpeed (edit_speed v t) = norm_speed v"
  by (auto simp: Termios2TncomSpeed_def edit_speed_def norm_speed_def supported_speeds_def Let_def
      cfsetispeed_def cfsetospeed_def cfgetospeed_def split: if_splits)

interpretation data_size: port_setting edit_data_size Termios2TncomDataSize norm_data_size
  by unfold_locales (simp_all add: view_edit_data_size norm_data_size_def)

interpretation parity: port_setting edit_parity Termios2TncomParity norm_parity
  by unfold_locales (simp_all add: view_edit_parity norm_parity_def)

interpretation stop_size: port_setting edit_stop_size Termios2TncomStopSize norm_stop_size
  by unfold_locales (simp_all add: view_edit_stop_size norm_stop_size_def)

interpretation speed: port_setting edit_speed Termios2TncomSpeed norm_speed
  by unfold_locales (simp_all add: view_edit_speed norm_speed_def supported_speeds_def)


definition sample_port :: mem_port where
  "sample_port = \<lparr>
     mp_termios = \<lparr>c_iflag = 0x500, c_oflag = 5, c_cflag = 0xCBD, c_lflag = 0x8A3B,
                   c_ispeed = B9600, c_ospeed = B9600\<rparr>,
     mp_lines = 0x126, mp_breaks = 0, mp_flushes = []\<rparr>"


section \<open>Settings are independent\<close>

lemmas view_defs =
  Termios2TncomDataSize_def Termios2TncomParity_def Termios2TncomStopSize_def
  Termios2TncomSpeed_def Termios2TncomOutFlow_def Termios2TncomInFlow_def
  cfgetospeed_def cfsetospeed_def cfsetispeed_def Let_def

lemma disjoint_masks:
  "CSIZE AND PARENB = 0" "CSIZE AND PARODD = 0" "CSIZE AND CSTOPB = 0" "CSIZE AND CRTSCTS = 0"
  "PARENB AND CSIZE = 0" "PARODD AND CSIZE = 0" "PARENB AND CSTOPB = 0" "PARODD AND CSTOPB = 0"
  "PARENB AND CRTSCTS = 0" "PARODD AND CRTSCTS = 0" "(PARENB OR PARODD) AND CSIZE = 0"
  "(PARENB OR PARODD) AND CSTOPB = 0" "(PARENB OR PARODD) AND CRTSCTS = 0"
  "CSTOPB AND CSIZE = 0" "CSTOPB AND PARENB = 0" "CSTOPB AND PARODD = 0" "CSTOPB AND CRTSCTS = 0"
  "CRTSCTS AND CSIZE = 0" "CRTSCTS AND PARENB = 0" "CRTSCTS AND PARODD = 0"
  "CRTSCTS AND CSTOPB = 0" "IXON AND IXOFF = 0" "IXOFF AND IXON = 0"
  by (simp_all add: termios_bits)

lemma data_bits_disjoint:
  assumes "CSIZE AND n = 0"
  shows "((x AND NOT CSIZE) OR (y AND CSIZE)) AND n = x AND n"
proof (rule bit_word_eqI)
  fix i
  assume "i < LENGTH(32)"
  then show "bit (((x AND NOT CSIZE) OR (y AND CSIZE)) AND n) i = bit (x AND n) i"
    using arg_cong [OF assms, of "\<lambda>w. bit w i"] by (auto simp: bit_simps)
qed

lemmas disjoint_rules = disjoint_masks data_bits_disjoint mask_other_clear mask_other_set
  data_size_codes data_size_codes(5-10) [symmetric]

lemma data_size_frame:
  "Termios2TncomParity (edit_data_size d t) = Termios2TncomParity t"
  "Termios2TncomStopSize (edit_data_size d t) = Termios2TncomStopSize t"
  "Termios2TncomSpeed (edit_data_size d t) = Termios2TncomSpeed t"
  "Termios2TncomOutFlow (edit_data_size d t) = Termios2TncomOutFlow t"
  "Termios2TncomInFlow (edit_data_size d t) = Termios2TncomInFlow t"
  unfolding edit_data_size_def view_defs by (simp_all add: disjoint_rules)

lemma parity_frame:
  "Termios2TncomDataSize (edit_parity v t) = Termios2TncomDataSize t"
  "Termios2TncomStopSize (edit_parity v t) = Termios2TncomStopSize t"
  "Termios2TncomSpeed (edit_parity v t) = Termios2TncomSpeed t"
  "Termios2TncomOutFlow (edit_parity v t) = Termios2TncomOutFlow t"
  "Termios2TncomInFlow (edit_parity v t) = Termios2TncomInFlow t"
  unfolding edit_parity_def view_defs by (simp_all add: disjoint_rules)

lemma stop_size_frame:
  "Termios2TncomDataSize (edit_stop_size w t) = Termios2TncomDataSize t"
  "Termios2TncomParity (edit_stop_size w t) = Termios2TncomParity t"
  "Termios2TncomSpeed (edit_stop_size w t) = Termios2TncomSpeed t"
  "Termios2TncomOutFlow (edit_stop_size w t) = Termios2TncomOutFlow t"
  "Termios2TncomInFlow (edit_stop_size w t) = Termios2TncomInFlow t"
  unfolding edit_stop_size_def view_defs by (simp_all add: disjoint_rules)

lemma speed_frame:
  "Termios2TncomDataSize (edit_speed b t) = Termios2TncomDataSize t"
  "Termios2TncomParity (edit_speed b t) = Termios2TncomParity t"
  "Termios2TncomStopSize (edit_speed b t) = Termios2TncomStopSize t"
  "Termios2TncomOutFlow (edit_speed b t) = Termios2TncomOutFlow t"
  "Termios2TncomInFlow (edit_speed b t) = Termios2TncomInFlow t"
  unfolding edit_speed_def view_defs by simp_all

lemma flow_frame:
  "Termios2TncomDataSize (edit_flow h t) = Termios2TncomDataSize t"
  "Termios2TncomParity (edit_flow h t) = Termios2TncomParity t"
  "Termios2TncomStopSize (edit_flow h t) = Termios2TncomStopSize t"
  "Termios2TncomSpeed (edit_flow h t) = Termios2TncomSpeed t"
  unfolding edit_flow_def view_defs by (simp_all add: disjoint_rules)

text \<open>What a client can read of the line settings: speed, data size, parity and stop size.\<close>

definition line_settings :: "'p tty \<Rightarrow> 'p \<Rightarrow> ulong \<times> byte \<times> byte \<times> byte" where
  "line_settings T p = (GetPortSpeed T p, GetPortDataSize T p, GetPortParity T p, GetPortStopSize T p)"

lemma line_settings_after:
  assumes "tty_faithful T" and "line_settings T p = (b, d, v, w)"
  shows "line_settings T (SetPortSpeed T b' p) = (norm_speed b', d, v, w)"
    and "line_settings T (SetPortDataSize T d' p) = (b, norm_data_size d', v, w)"
    and "line_settings T (SetPortParity T v' p) = (b, d, norm_parity v', w)"
    and "line_settings T (SetPortStopSize T w' p) = (b, d, v, norm_stop_size w')"
    and "line_settings T (SetPortFlowControl T h p) = (b, d, v, w)"
  using assms
  by (simp_all add: line_settings_def tty_faithful_def Let_def
      GetPortDataSize_def SetPortDataSize_def GetPortParity_def SetPortParity_def
      GetPortStopSize_def SetPortStopSize_def GetPortSpeed_def SetPortSpeed_def
      SetPortFlowControl_def data_size_frame parity_frame stop_size_frame speed_frame flow_frame
      view_edit_data_size view_edit_parity view_edit_stop_size view_edit_speed)

lemma flow_control_after:
  assumes "tty_faithful T"
    and "q \<in> {SetPortSpeed T b' p, SetPortDataSize T d' p, SetPortParity T v' p,
          SetPortStopSize T w' p}"
  shows "GetPortFlowControl T q c = GetPortFlowControl T p c"
  using assms
  by (auto simp: tty_faithful_def Let_def SetPortDataSize_def SetPortParity_def
      SetPortStopSize_def SetPortSpeed_def GetPortFlowControl_def data_size_frame parity_frame
      stop_size_frame speed_frame)

text \<open>
  C26. The settings are independent: each setter changes its own component of the line settings
  and none of the others, flow control changes none of them, and none of the four changes the
  flow control in either direction.
\<close>

theorem settings_independent:
  assumes "tty_faithful T" and "line_settings T p = (b, d, v, w)"
  shows "line_settings T (SetPortSpeed T b' p) = (norm_speed b', d, v, w) \<and>
    line_settings T (SetPortDataSize T d' p) = (b, norm_data_size d', v, w) \<and>
    line_settings T (SetPortParity T v' p) = (b, d, norm_parity v', w) \<and>
    line_settings T (SetPortStopSize T w' p) = (b, d, v, norm_stop_size w') \<and>
    line_settings T (SetPortFlowControl T h p) = (b, d, v, w) \<and>
    (\<forall>q \<in> {SetPortSpeed T b' p, SetPortDataSize T d' p, SetPortParity T v' p,
       SetPortStopSize T w' p}. GetPortFlowControl T q c = GetPortFlowControl T p c)"
  using line_settings_after [OF assms] flow_control_after [OF assms(1)] by blast

lemma sample_line_settings: "line_settings mem_tty sample_port = (9600, 8, 1, 1)"
  by (simp add: line_settings_def mem_tty_def sample_port_def GetPortDataSize_def
      GetPortParity_def GetPortStopSize_def GetPortSpeed_def view_defs termios_bits)

theorem settings_independent_witness:
  "line_settings mem_tty (SetPortParity mem_tty 2 sample_port) = (9600, 8, 2, 1) \<and>
   line_settings mem_tty (SetPortFlowControl mem_tty 3 sample_port) = (9600, 8, 1, 1)"
  using settings_independent [OF mem_tty_faithful sample_line_settings, where v' = 2 and h = 3]
  by (simp add: norm_parity_def)

section \<open>Flow control and the modem lines\<close>

lemma flow_codes: "IXON \<noteq> 0" "IXOFF \<noteq> 0" "CRTSCTS \<noteq> 0" "IXOFF AND IXON = 0" "IXON AND IXOFF = 0"
  by (simp_all add: termios_bits)

lemma view_edit_flow:
  "h \<in> {TNCOM_CMD_FLOW_NONE, TNCOM_CMD_FLOW_XONXOFF, TNCOM_CMD_FLOW_HARDWARE} \<Longrightarrow>
    Termios2TncomOutFlow (edit_flow h t) = h \<and> Termios2TncomInFlow (edit_flow h t) = h + 13"
  by (auto simp: Termios2TncomOutFlow_def Termios2TncomInFlow_def edit_flow_def mask_rules
      flow_codes)

lemma edit_flow_other:
  "h \<notin> {TNCOM_CMD_FLOW_NONE, TNCOM_CMD_FLOW_XONXOFF, TNCOM_CMD_FLOW_HARDWARE} \<Longrightarrow> edit_flow h t = t"
  by (simp add: edit_flow_def)

lemma inputs_kept:
  assumes "n AND modem_outputs = 0"
  shows "((m AND modem_outputs) OR (x AND NOT modem_outputs)) AND n = x AND n"
proof (rule bit_word_eqI)
  fix i
  assume "i < LENGTH(32)"
  then show "bit (((m AND modem_outputs) OR (x AND NOT modem_outputs)) AND n) i = bit (x AND n) i"
    using arg_cong [OF assms, of "\<lambda>w. bit w i"] by (auto simp: bit_simps)
qed

lemma input_masks: "TIOCM_DSR AND modem_outputs = 0" "TIOCM_CTS AND modem_outputs = 0"
  by (simp_all add: modem_outputs_def termios_bits)

text \<open>
  Flow control read-back: each of the three outbound modes reads back as requested, and the
  inbound query then reports the corresponding inbound mode (codes 14, 15, 16); any other request
  leaves both as they were. The DTR and RTS queries answer with the input lines DSR and CTS, so no
  request, not even \<open>DTR_ON\<close> or \<open>RTS_OFF\<close>, changes what they report.
\<close>

theorem flow_control_read_back:
  assumes "tty_faithful T" and "q = SetPortFlowControl T h p"
  shows "(if h \<in> {TNCOM_CMD_FLOW_NONE, TNCOM_CMD_FLOW_XONXOFF, TNCOM_CMD_FLOW_HARDWARE}
     then GetPortFlowControl T q TNCOM_CMD_FLOW_REQ = h \<and>
          GetPortFlowControl T q TNCOM_CMD_INFLOW_REQ = h + 13
     else GetPortFlowControl T q TNCOM_CMD_FLOW_REQ = GetPortFlowControl T p TNCOM_CMD_FLOW_REQ \<and>
          GetPortFlowControl T q TNCOM_CMD_INFLOW_REQ =
            GetPortFlowControl T p TNCOM_CMD_INFLOW_REQ) \<and>
    GetPortFlowControl T q TNCOM_CMD_DTR_REQ = GetPortFlowControl T p TNCOM_CMD_DTR_REQ \<and>
    GetPortFlowControl T q TNCOM_CMD_RTS_REQ = GetPortFlowControl T p TNCOM_CMD_RTS_REQ"
proof -
  let ?t = "edit_flow h (tcgetattr T p)"
  have read: "tcgetattr T q = ?t"
      "tiocmget T q = (edit_lines h (tiocmget T p) AND modem_outputs) OR
        (tiocmget T p AND NOT modem_outputs)"
    using assms by (simp_all add: SetPortFlowControl_def tty_faithful_def Let_def)
  show ?thesis
    unfolding GetPortFlowControl_def read Let_def
    using view_edit_flow [of h "tcgetattr T p"] edit_flow_other [of h "tcgetattr T p"]
    by (simp add: inputs_kept input_masks)
qed

theorem flow_control_read_back_witness:
  "GetPortFlowControl mem_tty (SetPortFlowControl mem_tty 3 sample_port) 0 = 3 \<and>
   GetPortFlowControl mem_tty (SetPortFlowControl mem_tty 3 sample_port) 13 = 16 \<and>
   GetPortFlowControl mem_tty (SetPortFlowControl mem_tty 9 sample_port) 7 = 8"
proof -
  have "GetPortFlowControl mem_tty sample_port 7 = 8"
    by (simp add: GetPortFlowControl_def mem_tty_def sample_port_def TIOCM_DSR_def)
  then show ?thesis
    using flow_control_read_back [OF mem_tty_faithful refl, of 3 sample_port]
      flow_control_read_back [OF mem_tty_faithful refl, of 9 sample_port]
    by simp
qed

lemma and_single_bit: "(x :: byte) AND 2 ^ n = (if bit x n then 2 ^ n else 0)"
proof (rule bit_word_eqI)
  fix i
  show "bit (x AND 2 ^ n) i = bit (if bit x n then 2 ^ n else 0 :: byte) i"
    by (auto simp: bit_simps)
qed

lemma modem_masks:
  fixes x :: byte
  shows "x AND 128 = (if bit x 7 then 128 else 0)" "x AND 64 = (if bit x 6 then 64 else 0)"
    "x AND 32 = (if bit x 5 then 32 else 0)" "x AND 16 = (if bit x 4 then 16 else 0)"
  using and_single_bit [of x 7] and_single_bit [of x 6] and_single_bit [of x 5]
    and_single_bit [of x 4]
  by simp_all

text \<open>The byte as a sum of four line bits and four change bits, over all 256 combinations.\<close>

definition modem_byte :: "bool \<Rightarrow> bool \<Rightarrow> bool \<Rightarrow> bool \<Rightarrow> bool \<Rightarrow> bool \<Rightarrow> bool \<Rightarrow> bool \<Rightarrow> byte" where
  "modem_byte c r d t dc dr dd dt =
     of_bool c * 128 + of_bool r * 64 + of_bool d * 32 + of_bool t * 16 +
     of_bool dc * 8 + of_bool dr * 4 + of_bool dd * 2 + of_bool dt"

lemma modem_byte_bits:
  "bit (modem_byte c r d t dc dr dd dt) 7 = c" "bit (modem_byte c r d t dc dr dd dt) 6 = r"
  "bit (modem_byte c r d t dc dr dd dt) 5 = d" "bit (modem_byte c r d t dc dr dd dt) 4 = t"
  "bit (modem_byte c r d t dc dr dd dt) 3 = dc" "bit (modem_byte c r d t dc dr dd dt) 2 = dr"
  "bit (modem_byte c r d t dc dr dd dt) 1 = dd" "bit (modem_byte c r d t dc dr dd dt) 0 = dt"
  unfolding modem_byte_def
  by (cases c; cases r; cases d; cases t; cases dc; cases dr; cases dd; cases dt; simp)+

lemma modem_byte_add:
  "modem_byte c r d t False dr dd dt + 8 = modem_byte c r d t True dr dd dt"
  "modem_byte c r d t dc False dd dt + 4 = modem_byte c r d t dc True dd dt"
  "modem_byte c r d t dc dr False dt + 2 = modem_byte c r d t dc dr True dt"
  "modem_byte c r d t dc dr dd False + 1 = modem_byte c r d t dc dr dd True"
  by (simp_all add: modem_byte_def)

lemma GetModemState_sum:
  fixes T :: "'p tty" and p :: 'p and prev :: byte
  defines "c \<equiv> tiocmget T p AND TIOCM_CAR \<noteq> 0" and "r \<equiv> tiocmget T p AND TIOCM_RNG \<noteq> 0"
    and "d \<equiv> tiocmget T p AND TIOCM_DSR \<noteq> 0" and "t \<equiv> tiocmget T p AND TIOCM_CTS \<noteq> 0"
  shows "GetModemState T p prev =
    modem_byte c r d t (c \<noteq> bit prev 7) (r \<noteq> bit prev 6) (d \<noteq> bit prev 5) (t \<noteq> bit prev 4)"
proof -
  define M1 where "M1 = (if c then 0 + TNCOM_MODMASK_RLSD else 0)"
  define M2 where "M2 = (if r then M1 + TNCOM_MODMASK_RING else M1)"
  define M3 where "M3 = (if d then M2 + TNCOM_MODMASK_DSR else M2)"
  define M4 where "M4 = (if t then M3 + TNCOM_MODMASK_CTS else M3)"
  define M5 where "M5 = (if M4 AND 128 \<noteq> prev AND 128 then M4 + TNCOM_MODMASK_RLSD_DELTA else M4)"
  define M6 where "M6 = (if M5 AND 64 \<noteq> prev AND 64 then M5 + TNCOM_MODMASK_RING_TRAIL else M5)"
  define M7 where "M7 = (if M6 AND 32 \<noteq> prev AND 32 then M6 + TNCOM_MODMASK_DSR_DELTA else M6)"
  define M8 where "M8 = (if M7 AND 16 \<noteq> prev AND 16 then M7 + TNCOM_MODMASK_CTS_DELTA else M7)"
  have M4: "M4 = modem_byte c r d t False False False False"
    by (simp add: M4_def M3_def M2_def M1_def modem_byte_def)
  have M5: "M5 = modem_byte c r d t (c \<noteq> bit prev 7) False False False"
    by (simp add: M5_def M4 modem_masks modem_byte_bits modem_byte_add)
  have M6: "M6 = modem_byte c r d t (c \<noteq> bit prev 7) (r \<noteq> bit prev 6) False False"
    by (simp add: M6_def M5 modem_masks modem_byte_bits modem_byte_add)
  have M7: "M7 = modem_byte c r d t (c \<noteq> bit prev 7) (r \<noteq> bit prev 6) (d \<noteq> bit prev 5) False"
    by (simp add: M7_def M6 modem_masks modem_byte_bits modem_byte_add)
  have "GetModemState T p prev = M8"
    unfolding GetModemState_def Let_def M8_def M7_def M6_def M5_def M4_def M3_def M2_def M1_def
      c_def r_def d_def t_def ..
  then show ?thesis
    by (simp add: M8_def M7 modem_masks modem_byte_bits modem_byte_add)
qed

text \<open>
  The modem state byte: its high bits are the carrier, ring, DSR and CTS lines as the driver
  reports them, and each low bit says whether its high bit differs from the one in the previous
  state. The sums that build the byte never carry.
\<close>

theorem GetModemState_bits:
  "(let M = GetModemState T p prev in
      (bit M 7 \<longleftrightarrow> tiocmget T p AND TIOCM_CAR \<noteq> 0) \<and>
      (bit M 6 \<longleftrightarrow> tiocmget T p AND TIOCM_RNG \<noteq> 0) \<and>
      (bit M 5 \<longleftrightarrow> tiocmget T p AND TIOCM_DSR \<noteq> 0) \<and>
      (bit M 4 \<longleftrightarrow> tiocmget T p AND TIOCM_CTS \<noteq> 0) \<and>
      (bit M 3 \<longleftrightarrow> bit M 7 \<noteq> bit prev 7) \<and> (bit M 2 \<longleftrightarrow> bit M 6 \<noteq> bit prev 6) \<and>
      (bit M 1 \<longleftrightarrow> bit M 5 \<noteq> bit prev 5) \<and> (bit M 0 \<longleftrightarrow> bit M 4 \<noteq> bit prev 4))"
  unfolding GetModemState_sum Let_def modem_byte_bits by simp

end
