(* ===== verification/Sercd_State.thy ===== *)
theory Sercd_State
  imports Ring_Buffer Serial_Port
begin

text \<open>
  The state of the redirector: the global and function-static variables of \<open>sercd.c\<close>, the main
  function's two buffers and stack variables that outlive an iteration, the static settings of
  \<open>unix.c\<close>, the port behind \<open>DeviceFd\<close>, and a record of the calls made to the outside. A pointer
  that is null or points at a descriptor is an \<open>option\<close>.
\<close>

datatype IACState = IACNormal | IACReceived | IACComReceiving

text \<open>The bits of \<open>struct _tnstate\<close> are only ever tested for being set.\<close>

record tnopt =
  sent_will :: bool
  sent_do :: bool
  sent_wont :: bool
  sent_dont :: bool
  is_will :: bool
  is_do :: bool

datatype ProxyState =
  STATE_READY | STATE_CONNECTED | STATE_PORT_OPENED | STATE_STOPPED | STATE_CRASHED

text \<open>The options set on sockets, each with the value the program gives it.\<close>

datatype sockopt = SO_REUSEADDR | SO_KEEPALIVE | SO_OOBINLINE | IP_TOS_LOWDELAY | FIONBIO

text \<open>
  What leaves the program: state notifications, options of sockets, bytes written and read,
  descriptors opened and closed.
\<close>

datatype event =
    ChangeState ProxyState
  | SocketOption int sockopt
  | DevRead "byte list"
  | DevWritten "byte list"
  | NetRead "byte list"
  | NetWritten "byte list"
  | Accepted int
  | Opened int
  | Closed int

record 'p sercd =
  sizeof_long :: abi
  CiscoIOSCompatible :: bool
  DeviceName :: "byte list"
  DeviceFd :: "int option"
  InSocketFd :: "int option"
  OutSocketFd :: "int option"
  LSocketFd :: "int option"
  PortControlEnable :: bool
  IACEscape :: IACState
  IACSigEscape :: IACState
  IACCommand :: "nat \<Rightarrow> byte"
  IACPos :: nat
  ModemStateMask :: byte
  LineStateMask :: byte
  ModemState :: byte
  BreakSignaled :: bool
  InputFlow :: bool
  tnstate :: "byte \<Rightarrow> tnopt"
  EscWriteLast :: byte
  EscRedirectLast :: byte
  ToDevBuf :: BufferType
  ToNetBuf :: BufferType
  readbuf :: "nat \<Rightarrow> byte"
  InitialPortSettings :: "termios option"
  LastPoll :: "int \<times> int"
  port :: 'p
  trace :: "event list"

definition tn_clear :: tnopt where
  "tn_clear = \<lparr>sent_will = False, sent_do = False, sent_wont = False, sent_dont = False,
               is_will = False, is_do = False\<rparr>"

definition InitTelnetStateMachine :: "'p sercd \<Rightarrow> 'p sercd" where
  "InitTelnetStateMachine s = s\<lparr>tnstate := (\<lambda>i. tn_clear)\<rparr>"

definition upd_tn :: "byte \<Rightarrow> (tnopt \<Rightarrow> tnopt) \<Rightarrow> 'p sercd \<Rightarrow> 'p sercd" where
  "upd_tn i f s = s\<lparr>tnstate := (tnstate s)(i := f (tnstate s i))\<rparr>"

definition emit :: "event \<Rightarrow> 'p sercd \<Rightarrow> 'p sercd" where
  "emit e s = s\<lparr>trace := trace s @ [e]\<rparr>"

text \<open>The static variables as the program starts with them; the buffers hold anything.\<close>

definition sercd_globals ::
  "abi \<Rightarrow> BufferType \<Rightarrow> BufferType \<Rightarrow> (nat \<Rightarrow> byte) \<Rightarrow> 'p \<Rightarrow> 'p sercd" where
  "sercd_globals a devb netb rb p = \<lparr>
     sizeof_long = a, CiscoIOSCompatible = False, DeviceName = [],
     DeviceFd = None, InSocketFd = None, OutSocketFd = None, LSocketFd = None,
     PortControlEnable = True, IACEscape = IACNormal, IACSigEscape = IACNormal,
     IACCommand = (\<lambda>i. 0), IACPos = 0, ModemStateMask = 255, LineStateMask = 0,
     ModemState = 0, BreakSignaled = False, InputFlow = True, tnstate = (\<lambda>i. tn_clear),
     EscWriteLast = 0, EscRedirectLast = 0, ToDevBuf = devb, ToNetBuf = netb, readbuf = rb,
     InitialPortSettings = None, LastPoll = (0, 0), port = p, trace = []\<rparr>"

section \<open>Adding to the two buffers\<close>

text \<open>
  Every \<open>BufferType *\<close> the senders are called with is \<open>&ToNetBuf\<close>, and the receiver's second
  one is \<open>&ToDevBuf\<close>.
\<close>

definition AddToNet :: "byte \<Rightarrow> 'p sercd \<Rightarrow> fault + 'p sercd" where
  "AddToNet c s = bind_r (AddToBuffer (ToNetBuf s) c) (\<lambda>B. Inr (s\<lparr>ToNetBuf := B\<rparr>))"

definition AddToDev :: "byte \<Rightarrow> 'p sercd \<Rightarrow> fault + 'p sercd" where
  "AddToDev c s = bind_r (AddToBuffer (ToDevBuf s) c) (\<lambda>B. Inr (s\<lparr>ToDevBuf := B\<rparr>))"

definition net_bytes :: "'p sercd \<Rightarrow> byte list" where
  "net_bytes s = contents (ToNetBuf s)"

definition dev_bytes :: "'p sercd \<Rightarrow> byte list" where
  "dev_bytes s = contents (ToDevBuf s)"

definition net_ok :: "'p sercd \<Rightarrow> bool" where
  "net_ok s \<longleftrightarrow> buf_ok (ToNetBuf s)"

definition dev_ok :: "'p sercd \<Rightarrow> bool" where
  "dev_ok s \<longleftrightarrow> buf_ok (ToDevBuf s)"

definition net_put :: "byte list \<Rightarrow> 'p sercd \<Rightarrow> 'p sercd" where
  "net_put bs s = s\<lparr>ToNetBuf := buf_append (ToNetBuf s) bs\<rparr>"

definition dev_put :: "byte list \<Rightarrow> 'p sercd \<Rightarrow> 'p sercd" where
  "dev_put bs s = s\<lparr>ToDevBuf := buf_append (ToDevBuf s) bs\<rparr>"

lemma net_len_le [simp]: "length (net_bytes s) \<le> 2047"
  by (simp add: net_bytes_def)

lemma dev_len_le [simp]: "length (dev_bytes s) \<le> 2047"
  by (simp add: dev_bytes_def)

interpretation netq: byte_queue "\<lambda>s c. AddToNet c s" "\<lambda>s c. net_put [c] s" net_bytes net_ok 2047
    AssertionFailure
  by unfold_locales
    (simp_all add: AddToNet_def net_put_def net_bytes_def net_ok_def AddToBuffer_fits
      AddToBuffer_full contents_push flip: buf_push_eq)

interpretation devq: byte_queue "\<lambda>s c. AddToDev c s" "\<lambda>s c. dev_put [c] s" dev_bytes dev_ok 2047
    AssertionFailure
  by unfold_locales
    (simp_all add: AddToDev_def dev_put_def dev_bytes_def dev_ok_def AddToBuffer_fits
      AddToBuffer_full contents_push flip: buf_push_eq)

lemma net_put_Nil [simp]: "net_put [] s = s"
  by (simp add: net_put_def)

lemma dev_put_Nil [simp]: "dev_put [] s = s"
  by (simp add: dev_put_def)

lemma net_put_put [simp]: "net_put ys (net_put xs s) = net_put (xs @ ys) s"
  by (simp add: net_put_def buf_append_append)

lemma dev_put_put [simp]: "dev_put ys (dev_put xs s) = dev_put (xs @ ys) s"
  by (simp add: dev_put_def buf_append_append)

lemma foldl_net_put: "foldl (\<lambda>s c. net_put [c] s) s cs = net_put cs s"
  by (induction cs arbitrary: s) simp_all

lemma foldl_dev_put: "foldl (\<lambda>s c. dev_put [c] s) s cs = dev_put cs s"
  by (induction cs arbitrary: s) simp_all

lemma net_ok_put [simp]: "net_ok s \<Longrightarrow> net_ok (net_put bs s)"
  by (simp add: net_ok_def net_put_def)

lemma dev_ok_put [simp]: "dev_ok s \<Longrightarrow> dev_ok (dev_put bs s)"
  by (simp add: dev_ok_def dev_put_def)

lemma net_bytes_put [buf_simps]:
  "net_ok s \<Longrightarrow> length (net_bytes s) + length bs \<le> 2047 \<Longrightarrow>
    net_bytes (net_put bs s) = net_bytes s @ bs"
  by (simp add: net_ok_def net_bytes_def net_put_def contents_append)

lemma dev_bytes_put [buf_simps]:
  "dev_ok s \<Longrightarrow> length (dev_bytes s) + length bs \<le> 2047 \<Longrightarrow>
    dev_bytes (dev_put bs s) = dev_bytes s @ bs"
  by (simp add: dev_ok_def dev_bytes_def dev_put_def contents_append)

text \<open>A run of additions either all fits or stops at the failing assertion.\<close>

lemma AddToNet_all:
  "net_ok s \<Longrightarrow> each_r AddToNet bs s =
    (if length (net_bytes s) + length bs \<le> 2047 then Inr (net_put bs s) else Inl AssertionFailure)"
  using netq.enq_all_fits [of s bs] netq.enq_all_full [of s bs] by (simp add: foldl_net_put)

lemma AddToDev_all:
  "dev_ok s \<Longrightarrow> each_r AddToDev bs s =
    (if length (dev_bytes s) + length bs \<le> 2047 then Inr (dev_put bs s) else Inl AssertionFailure)"
  using devq.enq_all_fits [of s bs] devq.enq_all_full [of s bs] by (simp add: foldl_dev_put)

lemma AddToDev_eq:
  "dev_ok s \<Longrightarrow> AddToDev c s =
    (if length (dev_bytes s) < 2047 then Inr (dev_put [c] s) else Inl AssertionFailure)"
  using AddToDev_all [of s "[c]"] by (cases "AddToDev c s") (auto split: if_splits)

text \<open>Both buffers are in order.\<close>

definition bufs_ok :: "'p sercd \<Rightarrow> bool" where
  "bufs_ok s \<longleftrightarrow> net_ok s \<and> dev_ok s"

text \<open>A buffer just initialised, and the state of a program that has just started.\<close>

definition fresh_buffer :: BufferType where
  "fresh_buffer = \<lparr>Buffer = (\<lambda>i. 0), RdPos = 0, WrPos = 0\<rparr>"

definition fresh_sercd :: "abi \<Rightarrow> 'p \<Rightarrow> 'p sercd" where
  "fresh_sercd a p = sercd_globals a fresh_buffer fresh_buffer (\<lambda>i. 0) p"

lemma fresh_buffer_simps [simp]: "buf_ok fresh_buffer" "contents fresh_buffer = []"
  by (simp_all add: fresh_buffer_def buf_ok_def BufferSize_def contents_def BufferLength_def)

lemma fresh_sercd_simps [simp]:
  "net_ok (fresh_sercd a p)" "dev_ok (fresh_sercd a p)" "net_bytes (fresh_sercd a p) = []"
  "dev_bytes (fresh_sercd a p) = []" "port (fresh_sercd a p) = p"
  "sizeof_long (fresh_sercd a p) = a" "EscWriteLast (fresh_sercd a p) = 0"
  "tnstate (fresh_sercd a p) = (\<lambda>i. tn_clear)"
  by (simp_all add: fresh_sercd_def sercd_globals_def net_ok_def dev_ok_def net_bytes_def
      dev_bytes_def)

text \<open>A command written as the list of its bytes.\<close>

definition command_of :: "byte list \<Rightarrow> nat \<Rightarrow> byte" where
  "command_of bs i = (if i < length bs then bs ! i else 0)"

section \<open>Frames\<close>

text \<open>
  What a command handler leaves alone: the connection, the receiver's own state, the buffer to the
  device, and everything of the main loop.
\<close>

definition kept :: "'p sercd \<Rightarrow> 'p sercd \<Rightarrow> bool" where
  "kept s s' \<longleftrightarrow>
     sizeof_long s' = sizeof_long s \<and> CiscoIOSCompatible s' = CiscoIOSCompatible s \<and>
     DeviceName s' = DeviceName s \<and> DeviceFd s' = DeviceFd s \<and> InSocketFd s' = InSocketFd s \<and>
     OutSocketFd s' = OutSocketFd s \<and> LSocketFd s' = LSocketFd s \<and>
     IACEscape s' = IACEscape s \<and> IACSigEscape s' = IACSigEscape s \<and>
     IACCommand s' = IACCommand s \<and> IACPos s' = IACPos s \<and>
     EscRedirectLast s' = EscRedirectLast s \<and> ToDevBuf s' = ToDevBuf s \<and>
     readbuf s' = readbuf s \<and> ModemState s' = ModemState s \<and>
     InitialPortSettings s' = InitialPortSettings s \<and> LastPoll s' = LastPoll s \<and>
     trace s' = trace s"

lemma kept_refl [simp]: "kept s s"
  by (simp add: kept_def)

lemma kept_trans: "kept s s' \<Longrightarrow> kept s' s'' \<Longrightarrow> kept s s''"
  by (simp add: kept_def)

lemma kept_net_put [simp]: "kept s (net_put bs s)"
  by (simp add: kept_def net_put_def)

text \<open>
  An operation started in \<open>s\<close> that ends in \<open>r\<close> has added at most \<open>n\<close> bytes to the network buffer and
  kept the rest, or has read outside an array while \<open>Q\<close> holds.
\<close>

definition handles :: "nat \<Rightarrow> bool \<Rightarrow> 'p sercd \<Rightarrow> fault + 'p sercd \<Rightarrow> bool" where
  "handles n Q s r \<longleftrightarrow>
     (case r of
        Inl e \<Rightarrow> e = OutOfBoundsRead \<and> Q
      | Inr s' \<Rightarrow> net_ok s' \<and> kept s s' \<and>
          (\<exists>bs. length bs \<le> n \<and> net_bytes s' = net_bytes s @ bs))"

lemma handles_Inr: "net_ok s \<Longrightarrow> handles n Q s (Inr s)"
  by (auto simp: handles_def)

lemma handles_mono: "handles n Q s r \<Longrightarrow> n \<le> m \<Longrightarrow> (Q \<Longrightarrow> Q') \<Longrightarrow> handles m Q' s r"
  by (force simp: handles_def split: sum.splits)

text \<open>Updates before and after an operation that touch neither the network buffer nor the frame.\<close>

definition quiet :: "('p sercd \<Rightarrow> 'p sercd) \<Rightarrow> bool" where
  "quiet f \<longleftrightarrow> (\<forall>s. ToNetBuf (f s) = ToNetBuf s \<and> kept s (f s))"

lemma quiet_net: "quiet f \<Longrightarrow> net_ok (f s) = net_ok s" "quiet f \<Longrightarrow> net_bytes (f s) = net_bytes s"
  by (simp_all add: quiet_def net_ok_def net_bytes_def)

lemma handles_post: "handles n Q s r \<Longrightarrow> quiet f \<Longrightarrow> handles n Q s (bind_r r (\<lambda>s. Inr (f s)))"
  by (cases r) (auto simp: handles_def quiet_net intro: kept_trans simp: quiet_def)

lemma handles_pre: "handles n Q (f s) r \<Longrightarrow> quiet f \<Longrightarrow> handles n Q s r"
  unfolding handles_def by (cases r) (auto simp: quiet_net intro: kept_trans simp: quiet_def)

lemma quiet_simps [simp]:
  "quiet (\<lambda>s. s)" "quiet (upd_tn i g)" "quiet (PortControlEnable_update b)"
  "quiet (LineStateMask_update m)" "quiet (ModemStateMask_update m)" "quiet (InputFlow_update b)"
  "quiet (BreakSignaled_update b)" "quiet (port_update h)" "quiet (EscWriteLast_update k)"
  by (simp_all add: quiet_def kept_def upd_tn_def)

lemma quiet_comp: "quiet f \<Longrightarrow> quiet g \<Longrightarrow> quiet (\<lambda>s. f (g s))"
  unfolding quiet_def by (metis kept_trans)

end
