(* ===== verification/Telnet_Send.thy ===== *)
theory Telnet_Send
  imports Sercd_State
begin

text \<open>
  Everything that puts bytes into the network buffer (\<open>sercd.c\<close> lines 435 to 467 and 613 to 692):
  IAC and CR escaping, option negotiation, and the Com Port Control answers. Each sender is shown
  to append one list of bytes of bounded length; the contract they share is the locale
  \<open>net_sender\<close>, interpreted on every one of them.
\<close>

section \<open>The senders\<close>

definition EscWriteChar :: "byte \<Rightarrow> 'p sercd \<Rightarrow> fault + 'p sercd" where
  "EscWriteChar C s =
     bind_r (if C = TNIAC then AddToNet C s
             else if C \<noteq> 0x0A \<and> \<not> is_will (tnstate s TN_TRANSMIT_BINARY) \<and> EscWriteLast s = 0x0D
             then AddToNet 0x00 s
             else Inr s)
       (\<lambda>s. bind_r (AddToNet C s)
       (\<lambda>s. Inr (s\<lparr>EscWriteLast := C\<rparr>)))"

definition SendStr :: "byte list \<Rightarrow> 'p sercd \<Rightarrow> fault + 'p sercd" where
  "SendStr Str s = each_r EscWriteChar (c_str Str) s"

definition SendSignature :: "byte list \<Rightarrow> 'p sercd \<Rightarrow> fault + 'p sercd" where
  "SendSignature Sig s =
     (if \<not> length (c_str Sig) \<le> 255 then Inl AssertionFailure
      else bind_r (AddToNet TNIAC s)
       (\<lambda>s. bind_r (AddToNet TNSB s)
       (\<lambda>s. bind_r (AddToNet TNCOM_PORT_OPTION s)
       (\<lambda>s. bind_r (AddToNet TNASC_SIGNATURE s)
       (\<lambda>s. bind_r (SendStr Sig s)
       (\<lambda>s. bind_r (AddToNet TNIAC s)
       (\<lambda>s. AddToNet TNSE s)))))))"

definition SendTelnetOption :: "byte \<Rightarrow> byte \<Rightarrow> 'p sercd \<Rightarrow> fault + 'p sercd" where
  "SendTelnetOption Command Option s =
     bind_r (AddToNet TNIAC s) (\<lambda>s. bind_r (AddToNet Command s) (\<lambda>s. AddToNet Option s))"

definition SendTelnetInitialOptions :: "'p sercd \<Rightarrow> fault + 'p sercd" where
  "SendTelnetInitialOptions s =
     bind_r (SendTelnetOption TNWILL TN_TRANSMIT_BINARY s) (\<lambda>s.
     bind_r (SendTelnetOption TNDO TN_TRANSMIT_BINARY
       (upd_tn TN_TRANSMIT_BINARY (sent_will_update (\<lambda>_. True)) s)) (\<lambda>s.
     bind_r (SendTelnetOption TNWILL TN_ECHO
       (upd_tn TN_TRANSMIT_BINARY (sent_do_update (\<lambda>_. True)) s)) (\<lambda>s.
     bind_r (SendTelnetOption TNWILL TN_SUPPRESS_GO_AHEAD
       (upd_tn TN_ECHO (sent_will_update (\<lambda>_. True)) s)) (\<lambda>s.
     bind_r (SendTelnetOption TNDO TN_SUPPRESS_GO_AHEAD
       (upd_tn TN_SUPPRESS_GO_AHEAD (sent_will_update (\<lambda>_. True)) s)) (\<lambda>s.
     bind_r (SendTelnetOption TNDO TNCOM_PORT_OPTION
       (upd_tn TN_SUPPRESS_GO_AHEAD (sent_do_update (\<lambda>_. True)) s)) (\<lambda>s.
     Inr (upd_tn TNCOM_PORT_OPTION (sent_do_update (\<lambda>_. True)) s)))))))"

text \<open>
  \<open>htonl\<close> on a little-endian machine reverses the four bytes of its argument. The result is kept
  in an \<open>unsigned long\<close>, whose bytes in memory \<open>store_ulong\<close> lists: four or eight of them.
\<close>

definition htonl :: "u32 \<Rightarrow> u32" where
  "htonl x = push_bit 24 (take_bit 8 x) OR push_bit 16 (take_bit 8 (drop_bit 8 x)) OR
     push_bit 8 (take_bit 8 (drop_bit 16 x)) OR take_bit 8 (drop_bit 24 x)"

definition store_ulong :: "abi \<Rightarrow> ulong \<Rightarrow> byte list" where
  "store_ulong a w = map (\<lambda>k. ucast (drop_bit (8 * k) w)) [0..<ulong_size a]"

definition SendBaudRate :: "ulong \<Rightarrow> 'p sercd \<Rightarrow> fault + 'p sercd" where
  "SendBaudRate BR s =
     (let NBR = ucast (htonl (ucast BR)) :: ulong in
      bind_r (AddToNet TNIAC s)
       (\<lambda>s. bind_r (AddToNet TNSB s)
       (\<lambda>s. bind_r (AddToNet TNCOM_PORT_OPTION s)
       (\<lambda>s. bind_r (AddToNet TNASC_SET_BAUDRATE s)
       (\<lambda>s. bind_r (each_r EscWriteChar (store_ulong (sizeof_long s) NBR) s)
       (\<lambda>s. bind_r (AddToNet TNIAC s)
       (\<lambda>s. AddToNet TNSE s)))))))"

definition SendCPCByteCommand :: "byte \<Rightarrow> byte \<Rightarrow> 'p sercd \<Rightarrow> fault + 'p sercd" where
  "SendCPCByteCommand Command Parm s =
     bind_r (AddToNet TNIAC s)
       (\<lambda>s. bind_r (AddToNet TNSB s)
       (\<lambda>s. bind_r (AddToNet TNCOM_PORT_OPTION s)
       (\<lambda>s. bind_r (AddToNet Command s)
       (\<lambda>s. bind_r (EscWriteChar Parm s)
       (\<lambda>s. bind_r (AddToNet TNIAC s)
       (\<lambda>s. AddToNet TNSE s))))))"

text \<open>The space each sender may need, as the macros beside the C functions declare it.\<close>

definition EscWriteChar_bytes :: nat where
  "EscWriteChar_bytes = 2"

definition SendSignature_bytes :: nat where
  "SendSignature_bytes = 6 + 2 * 255"

definition SendTelnetOption_bytes :: nat where
  "SendTelnetOption_bytes = 3"

definition SendTelnetInitialOptions_bytes :: nat where
  "SendTelnetInitialOptions_bytes = SendTelnetOption_bytes * 3"

definition SendBaudRate_bytes :: "abi \<Rightarrow> nat" where
  "SendBaudRate_bytes a = 6 + 2 * ulong_size a"

definition SendCPCByteCommand_bytes :: nat where
  "SendCPCByteCommand_bytes = 8"

section \<open>What is appended\<close>

text \<open>The escaping as a function of the mode, the byte written before, and the bytes.\<close>

definition sends_binary :: "'p sercd \<Rightarrow> bool" where
  "sends_binary s \<longleftrightarrow> is_will (tnstate s TN_TRANSMIT_BINARY)"

definition esc_char :: "bool \<Rightarrow> byte \<Rightarrow> byte \<Rightarrow> byte list" where
  "esc_char bin l c =
     (if c = TNIAC then [TNIAC, TNIAC]
      else if c \<noteq> 0x0A \<and> \<not> bin \<and> l = 0x0D then [0, c]
      else [c])"

fun esc_bytes :: "bool \<Rightarrow> byte \<Rightarrow> byte list \<Rightarrow> byte list" where
  "esc_bytes bin l [] = []"
| "esc_bytes bin l (c # cs) = esc_char bin l c @ esc_bytes bin c cs"

definition esc_last :: "byte \<Rightarrow> byte list \<Rightarrow> byte" where
  "esc_last l cs = (if cs = [] then l else last cs)"

lemma length_esc_char: "length (esc_char bin l c) \<le> 2"
  by (simp add: esc_char_def)

lemma length_esc_bytes: "length (esc_bytes bin l cs) \<le> 2 * length cs"
proof (induction cs arbitrary: l)
  case Nil
  then show ?case by simp
next
  case (Cons c cs)
  show ?case
    using Cons.IH [of c] length_esc_char [of bin l c] by simp
qed

lemma esc_last_simps [simp]: "esc_last l [] = l" "esc_last l (c # cs) = esc_last c cs"
  by (simp_all add: esc_last_def)

definition set_last :: "byte \<Rightarrow> 'p sercd \<Rightarrow> fault + 'p sercd" where
  "set_last l s = Inr (s\<lparr>EscWriteLast := l\<rparr>)"

lemma AddToNet_frame:
  "AddToNet c s = Inr s' \<Longrightarrow> tnstate s' = tnstate s \<and> EscWriteLast s' = EscWriteLast s \<and>
    sizeof_long s' = sizeof_long s"
  by (auto simp: AddToNet_def bind_r_eq_Inr)

lemma AddToNet_all_frame:
  "each_r AddToNet bs s = Inr s' \<Longrightarrow> tnstate s' = tnstate s \<and> EscWriteLast s' = EscWriteLast s \<and>
    sizeof_long s' = sizeof_long s"
  by (induction bs arbitrary: s) (auto simp: bind_r_eq_Inr dest: AddToNet_frame)

text \<open>Nothing but the buffer changes.\<close>

lemma AddToNet_all_only_net:
  "each_r AddToNet bs s = Inr s' \<Longrightarrow> s' = s\<lparr>ToNetBuf := ToNetBuf s'\<rparr>"
proof (induction bs arbitrary: s)
  case Nil
  then show ?case by simp
next
  case (Cons b bs)
  then obtain s1 where "AddToNet b s = Inr s1" and "each_r AddToNet bs s1 = Inr s'"
    by (auto simp: bind_r_eq_Inr)
  then have "s1 = s\<lparr>ToNetBuf := ToNetBuf s1\<rparr>" and "s' = s1\<lparr>ToNetBuf := ToNetBuf s'\<rparr>"
    by (auto simp: AddToNet_def bind_r_eq_Inr intro: Cons.IH)
  then show ?case
    by (cases s; cases s1; cases s') simp
qed

lemma AddToNet_set_last:
  "AddToNet c (s\<lparr>EscWriteLast := l\<rparr>) = bind_r (AddToNet c s) (set_last l)"
  by (cases "AddToBuffer (ToNetBuf s) c") (simp_all add: AddToNet_def set_last_def)

lemma AddToNet_all_set_last:
  "each_r AddToNet bs (s\<lparr>EscWriteLast := l\<rparr>) = bind_r (each_r AddToNet bs s) (set_last l)"
proof (induction bs arbitrary: s)
  case Nil
  then show ?case by (simp add: set_last_def)
next
  case (Cons b bs)
  then show ?case
    by (cases "AddToNet b s") (simp_all add: AddToNet_set_last set_last_def)
qed

lemma EscWriteChar_eq:
  "EscWriteChar c s =
    bind_r (each_r AddToNet (esc_char (sends_binary s) (EscWriteLast s) c) s) (set_last c)"
  by (simp add: EscWriteChar_def esc_char_def sends_binary_def set_last_def [abs_def] bind_r_assoc)

lemma EscWriteChar_all_eq:
  "each_r EscWriteChar cs s =
    bind_r (each_r AddToNet (esc_bytes (sends_binary s) (EscWriteLast s) cs) s)
      (set_last (esc_last (EscWriteLast s) cs))"
proof (induction cs arbitrary: s)
  case Nil
  then show ?case by (simp add: set_last_def)
next
  case (Cons c cs)
  show ?case
  proof (cases "each_r AddToNet (esc_char (sends_binary s) (EscWriteLast s) c) s")
    case (Inl e)
    then show ?thesis
      by (simp add: EscWriteChar_eq each_r_append)
  next
    case (Inr s')
    then have same: "sends_binary (s'\<lparr>EscWriteLast := c\<rparr>) = sends_binary s"
      by (auto simp: sends_binary_def dest: AddToNet_all_frame)
    have "each_r EscWriteChar (c # cs) s = each_r EscWriteChar cs (s'\<lparr>EscWriteLast := c\<rparr>)"
      by (simp add: EscWriteChar_eq Inr set_last_def)
    also have "\<dots> = bind_r (each_r AddToNet (esc_bytes (sends_binary s) c cs)
        (s'\<lparr>EscWriteLast := c\<rparr>)) (set_last (esc_last c cs))"
      by (simp add: Cons.IH same)
    finally show ?thesis
      by (simp add: each_r_append Inr AddToNet_all_set_last bind_r_assoc set_last_def [abs_def])
  qed
qed

text \<open>The frame of a Com Port Control answer: four bytes, an escaped body, and \<open>IAC SE\<close>.\<close>

lemma framed_eq:
  assumes body: "\<And>s'. tnstate s' = tnstate s \<Longrightarrow> EscWriteLast s' = EscWriteLast s \<Longrightarrow>
      sizeof_long s' = sizeof_long s \<Longrightarrow> g s' = bind_r (each_r AddToNet bs s') (set_last l)"
  shows "bind_r (AddToNet a s) (\<lambda>s. bind_r (AddToNet b s) (\<lambda>s. bind_r (AddToNet c s)
      (\<lambda>s. bind_r (AddToNet d s) (\<lambda>s. bind_r (g s) (\<lambda>s. bind_r (AddToNet e s) (AddToNet f))))))
    = bind_r (each_r AddToNet ([a, b, c, d] @ bs @ [e, f]) s) (set_last l)"
proof (cases "each_r AddToNet [a, b, c, d] s")
  case (Inl x)
  then show ?thesis
    by (auto simp: bind_r_eq_Inl each_r_append)
next
  case (Inr s')
  then have "g s' = bind_r (each_r AddToNet bs s') (set_last l)"
    using AddToNet_all_frame [OF Inr] by (intro body) simp_all
  with Inr show ?thesis
    by (auto simp: bind_r_eq_Inr each_r_append bind_r_assoc set_last_def [abs_def] AddToNet_set_last)
qed

section \<open>The senders' contract\<close>

text \<open>
  A sender appends a list of bytes of at most \<open>bound\<close> to the network buffer and remembers the last
  data byte; without room for the list the assertion of \<open>AddToBuffer\<close> stops it. A caller that has
  checked for \<open>bound\<close> bytes of room is safe.
\<close>

locale net_sender =
  fixes send :: "'p sercd \<Rightarrow> fault + 'p sercd"
    and out :: "'p sercd \<Rightarrow> byte list"
    and lst :: "'p sercd \<Rightarrow> byte"
    and bound :: "'p sercd \<Rightarrow> nat"
  assumes send_eq: "send s = bind_r (each_r AddToNet (out s) s) (set_last (lst s))"
    and out_bound: "length (out s) \<le> bound s"
begin

lemma send_fits:
  "net_ok s \<Longrightarrow> length (net_bytes s) + length (out s) \<le> 2047 \<Longrightarrow>
    send s = Inr ((net_put (out s) s)\<lparr>EscWriteLast := lst s\<rparr>)"
  by (simp add: send_eq AddToNet_all set_last_def)

lemma send_full:
  "net_ok s \<Longrightarrow> 2047 < length (net_bytes s) + length (out s) \<Longrightarrow> send s = Inl AssertionFailure"
  by (simp add: send_eq AddToNet_all)

lemma send_room:
  assumes "net_ok s" and "length (net_bytes s) + bound s \<le> 2047"
  shows "send s = Inr ((net_put (out s) s)\<lparr>EscWriteLast := lst s\<rparr>)"
    and "net_bytes (net_put (out s) s) = net_bytes s @ out s"
  using assms out_bound [of s] by (simp_all add: send_fits net_bytes_put)

lemma send_appends:
  assumes "net_ok s" and "length (net_bytes s) + bound s \<le> 2047"
  shows "\<exists>s'. send s = Inr s' \<and> net_bytes s' = net_bytes s @ out s \<and> EscWriteLast s' = lst s"
  using send_room [OF assms] by (simp add: net_bytes_def)

lemma send_handles:
  assumes "net_ok s" and "length (net_bytes s) + bound s \<le> 2047"
  shows "handles (bound s) False s (send s)"
proof -
  have "handles (bound s) False s (Inr (net_put (out s) s))"
    using assms out_bound [of s] send_room(2) [OF assms] by (auto simp: handles_def)
  then have "handles (bound s) False s
      (bind_r (Inr (net_put (out s) s)) (\<lambda>s'. Inr (EscWriteLast_update (\<lambda>_. lst s) s')))"
    by (rule handles_post) simp
  then show ?thesis
    by (simp add: send_room(1) [OF assms])
qed

text \<open>Without a check for room, a sender either goes through or stops at the assertion.\<close>

lemma send_cases:
  assumes "net_ok s"
  shows "send s = Inl AssertionFailure \<or> (\<exists>s'. send s = Inr s' \<and> net_ok s' \<and> kept s s')"
proof (cases "length (net_bytes s) + length (out s) \<le> 2047")
  case True
  then show ?thesis
    using assms by (simp add: send_fits kept_def net_ok_def net_put_def)
qed (use assms in \<open>simp add: send_full\<close>)

text \<open>A sender changes the network buffer and the last byte, and nothing else.\<close>

lemma send_only_net:
  "send s = Inr s' \<Longrightarrow> s' = s\<lparr>ToNetBuf := ToNetBuf s', EscWriteLast := lst s\<rparr>"
  by (cases "each_r AddToNet (out s) s")
    (auto simp: send_eq set_last_def dest: AddToNet_all_only_net)

lemma send_tnstate: "send s = Inr s' \<Longrightarrow> tnstate s' = tnstate s"
  by (auto simp: send_eq bind_r_eq_Inr set_last_def dest: AddToNet_all_frame)

lemma send_outcome:
  "net_ok s \<Longrightarrow> send s = Inl e \<Longrightarrow> e = AssertionFailure \<and> 2047 < length (net_bytes s) + bound s"
  using out_bound [of s]
  by (cases "length (net_bytes s) + length (out s) \<le> 2047") (auto simp: send_fits send_full)

end

lemma set_last_same:
  "bind_r (each_r AddToNet bs s) (set_last (EscWriteLast s)) = each_r AddToNet bs s"
  by (cases "each_r AddToNet bs s") (auto simp: set_last_def dest: AddToNet_all_frame)

lemma SendTelnetOption_eq: "SendTelnetOption c opt s = each_r AddToNet [TNIAC, c, opt] s"
  by (simp add: SendTelnetOption_def each_r_fun [abs_def])

lemma SendCPCByteCommand_eq:
  "SendCPCByteCommand c v s = bind_r (each_r AddToNet
      ([TNIAC, TNSB, TNCOM_PORT_OPTION, c] @ esc_char (sends_binary s) (EscWriteLast s) v @
       [TNIAC, TNSE]) s) (set_last v)"
  unfolding SendCPCByteCommand_def
  by (rule framed_eq) (simp add: EscWriteChar_eq sends_binary_def)

definition be_bytes :: "u32 \<Rightarrow> byte list" where
  "be_bytes x = [ucast (drop_bit 24 x), ucast (drop_bit 16 x), ucast (drop_bit 8 x), ucast x]"

text \<open>The bytes of the baud rate as they lie in memory: network order, padded on LP64.\<close>

definition baud_bytes :: "abi \<Rightarrow> ulong \<Rightarrow> byte list" where
  "baud_bytes a BR = be_bytes (ucast BR) @ (case a of ILP32 \<Rightarrow> [] | LP64 \<Rightarrow> [0, 0, 0, 0])"

lemma htonl_bytes:
  fixes x :: u32
  shows "ucast (ucast (htonl x) :: ulong) = (ucast (drop_bit 24 x) :: byte)"
    "ucast (drop_bit 8 (ucast (htonl x) :: ulong)) = (ucast (drop_bit 16 x) :: byte)"
    "ucast (drop_bit 16 (ucast (htonl x) :: ulong)) = (ucast (drop_bit 8 x) :: byte)"
    "ucast (drop_bit 24 (ucast (htonl x) :: ulong)) = (ucast x :: byte)"
    "drop_bit 32 (ucast (htonl x) :: ulong) = 0"
    "drop_bit 40 (ucast (htonl x) :: ulong) = 0"
    "drop_bit 48 (ucast (htonl x) :: ulong) = 0"
    "drop_bit 56 (ucast (htonl x) :: ulong) = 0"
  by (rule bit_word_eqI; auto simp: htonl_def bit_simps)+

lemma upt_4: "[0..<4] = [0, 1, 2, 3 :: nat]"
  by (simp add: upt_rec)

lemma upt_8: "[0..<8] = [0, 1, 2, 3, 4, 5, 6, 7 :: nat]"
  by (simp add: upt_rec)

lemma store_baud: "store_ulong a (ucast (htonl (ucast BR))) = baud_bytes a BR"
  by (cases a) (simp_all add: store_ulong_def baud_bytes_def be_bytes_def upt_4 upt_8 htonl_bytes)

lemma length_baud_bytes: "length (baud_bytes a BR) = ulong_size a"
  by (cases a) (simp_all add: baud_bytes_def be_bytes_def)

lemma SendBaudRate_eq:
  "SendBaudRate BR s = bind_r (each_r AddToNet
      ([TNIAC, TNSB, TNCOM_PORT_OPTION, TNASC_SET_BAUDRATE] @
       esc_bytes (sends_binary s) (EscWriteLast s) (baud_bytes (sizeof_long s) BR) @
       [TNIAC, TNSE]) s) (set_last (esc_last (EscWriteLast s) (baud_bytes (sizeof_long s) BR)))"
  unfolding SendBaudRate_def Let_def store_baud
  by (rule framed_eq) (simp add: EscWriteChar_all_eq sends_binary_def)

lemma SendSignature_eq:
  assumes "length (c_str Sig) \<le> 255"
  shows "SendSignature Sig s = bind_r (each_r AddToNet
      ([TNIAC, TNSB, TNCOM_PORT_OPTION, TNASC_SIGNATURE] @
       esc_bytes (sends_binary s) (EscWriteLast s) (c_str Sig) @ [TNIAC, TNSE]) s)
      (set_last (esc_last (EscWriteLast s) (c_str Sig)))"
proof -
  have "SendSignature Sig s = bind_r (AddToNet TNIAC s) (\<lambda>s. bind_r (AddToNet TNSB s)
      (\<lambda>s. bind_r (AddToNet TNCOM_PORT_OPTION s) (\<lambda>s. bind_r (AddToNet TNASC_SIGNATURE s)
      (\<lambda>s. bind_r (SendStr Sig s) (\<lambda>s. bind_r (AddToNet TNIAC s) (AddToNet TNSE))))))"
    using assms by (simp add: SendSignature_def)
  also have "\<dots> = bind_r (each_r AddToNet
      ([TNIAC, TNSB, TNCOM_PORT_OPTION, TNASC_SIGNATURE] @
       esc_bytes (sends_binary s) (EscWriteLast s) (c_str Sig) @ [TNIAC, TNSE]) s)
      (set_last (esc_last (EscWriteLast s) (c_str Sig)))"
    by (rule framed_eq) (simp add: SendStr_def EscWriteChar_all_eq sends_binary_def)
  finally show ?thesis .
qed

interpretation esc_writer: net_sender "EscWriteChar c"
  "\<lambda>s. esc_char (sends_binary s) (EscWriteLast s) c" "\<lambda>s. c" "\<lambda>s. EscWriteChar_bytes"
  by unfold_locales (simp_all add: EscWriteChar_eq EscWriteChar_bytes_def length_esc_char)

interpretation str_writer: net_sender "SendStr cs"
  "\<lambda>s. esc_bytes (sends_binary s) (EscWriteLast s) (c_str cs)"
  "\<lambda>s. esc_last (EscWriteLast s) (c_str cs)" "\<lambda>s. 2 * length (c_str cs)"
  by unfold_locales (simp_all add: SendStr_def EscWriteChar_all_eq length_esc_bytes)

interpretation option_sender: net_sender "SendTelnetOption c opt"
  "\<lambda>s. [TNIAC, c, opt]" EscWriteLast "\<lambda>s. SendTelnetOption_bytes"
  by unfold_locales
    (simp_all add: SendTelnetOption_eq set_last_same SendTelnetOption_bytes_def del: each_r.simps)

interpretation cpc_sender: net_sender "SendCPCByteCommand c v"
  "\<lambda>s. [TNIAC, TNSB, TNCOM_PORT_OPTION, c] @ esc_char (sends_binary s) (EscWriteLast s) v @
       [TNIAC, TNSE]" "\<lambda>s. v" "\<lambda>s. SendCPCByteCommand_bytes"
  by unfold_locales
    (simp_all add: SendCPCByteCommand_eq SendCPCByteCommand_bytes_def length_esc_char
      del: each_r.simps)

lemma baud_out_bound:
  "length (esc_bytes bin l (baud_bytes a BR)) \<le> 2 * ulong_size a"
  using length_esc_bytes [of bin l "baud_bytes a BR"] by (simp add: length_baud_bytes)

interpretation baud_sender: net_sender "SendBaudRate BR"
  "\<lambda>s. [TNIAC, TNSB, TNCOM_PORT_OPTION, TNASC_SET_BAUDRATE] @
       esc_bytes (sends_binary s) (EscWriteLast s) (baud_bytes (sizeof_long s) BR) @ [TNIAC, TNSE]"
  "\<lambda>s. esc_last (EscWriteLast s) (baud_bytes (sizeof_long s) BR)"
  "\<lambda>s. SendBaudRate_bytes (sizeof_long s)"
  by unfold_locales
    (simp_all add: SendBaudRate_eq SendBaudRate_bytes_def baud_out_bound del: each_r.simps)

end
