(* ===== verification/Telnet_Command.thy ===== *)
theory Telnet_Command
  imports Telnet_Send Port_Settings
begin

text \<open>
  The handlers of complete commands (\<open>sercd.c\<close> lines 694 to 1099): \<open>HandleCPCCommand\<close> for the Com
  Port Control suboption and \<open>HandleIACCommand\<close> for suboptions and the four negotiation commands.
  Everything they read, change and send is here; what they log is in \<open>Command_Log\<close>.
\<close>

section \<open>Com Port Control\<close>

text \<open>\<open>VERSION\<close> is defined by \<open>Android.mk\<close>; \<open>snprintf\<close> into \<open>SigStr[255]\<close> keeps 254 characters.\<close>

definition VERSION :: "byte list" where
  "VERSION = ascii ''3.0.0''"

definition server_signature :: "'p sercd \<Rightarrow> byte list" where
  "server_signature s = take 254 (ascii ''sercd '' @ VERSION @ ascii '' '' @ c_str (DeviceName s))"

definition IACCommand_size :: nat where
  "IACCommand_size = 255"

text \<open>Subtraction in \<open>size_t\<close>.\<close>

definition size_minus :: "abi \<Rightarrow> nat \<Rightarrow> nat \<Rightarrow> nat" where
  "size_minus a x y = (if y \<le> x then x - y else x + 2 ^ (8 * ulong_size a) - y)"

text \<open>
  \<open>strncpy\<close> of at most \<open>n\<close> bytes from position \<open>i\<close> of an array of \<open>sz\<close> bytes: it reads up to the
  first NUL and pads with NULs.
\<close>

fun c_strncpy :: "(nat \<Rightarrow> byte) \<Rightarrow> nat \<Rightarrow> nat \<Rightarrow> nat \<Rightarrow> fault + byte list" where
  "c_strncpy m sz i 0 = Inr []"
| "c_strncpy m sz i (Suc n) =
     (if \<not> i < sz then Inl OutOfBoundsRead
      else if m i = 0 then Inr (replicate (Suc n) 0)
      else bind_r (c_strncpy m sz (Suc i) n) (\<lambda>bs. Inr (m i # bs)))"

text \<open>
  The received signature is copied into \<open>SigStr\<close> for the log: \<open>MAX(CSize - 6, 254)\<close> bytes from
  \<open>Command[4]\<close> on, into 255 bytes.
\<close>

definition client_signature :: "abi \<Rightarrow> (nat \<Rightarrow> byte) \<Rightarrow> nat \<Rightarrow> fault + byte list" where
  "client_signature a Command CSize =
     (let n = max (size_minus a CSize 6) 254 in
      if n > 255 then Inl OutOfBoundsWrite
      else c_strncpy Command IACCommand_size 4 n)"

text \<open>An \<open>unsigned long\<close> read from little-endian memory, and \<open>ntohl\<close> on such a machine.\<close>

definition load_ulong :: "abi \<Rightarrow> (nat \<Rightarrow> byte) \<Rightarrow> nat \<Rightarrow> ulong" where
  "load_ulong a m i = foldr (\<lambda>k w. push_bit (8 * k) (ucast (m (i + k))) OR w) [0..<ulong_size a] 0"

definition ntohl :: "u32 \<Rightarrow> u32" where
  "ntohl x = htonl x"

definition set_port :: "('p \<Rightarrow> 'p) \<Rightarrow> 'p sercd \<Rightarrow> 'p sercd" where
  "set_port f s = s\<lparr>port := f (port s)\<rparr>"

text \<open>The \<open>TNCAS_SET_CONTROL\<close> branch.\<close>

definition HandleSetControl :: "'p tty \<Rightarrow> byte \<Rightarrow> 'p sercd \<Rightarrow> fault + 'p sercd" where
  "HandleSetControl T c s =
     (if c = TNCOM_CMD_FLOW_REQ \<or> c = TNCOM_CMD_DTR_REQ \<or> c = TNCOM_CMD_RTS_REQ \<or>
         c = TNCOM_CMD_INFLOW_REQ then
        SendCPCByteCommand TNASC_SET_CONTROL (GetPortFlowControl T (port s) c) s
      else if c = TNCOM_CMD_BREAK_REQ then
        (if BreakSignaled s then SendCPCByteCommand TNASC_SET_CONTROL TNCOM_CMD_BREAK_ON s
         else SendCPCByteCommand TNASC_SET_CONTROL TNCOM_CMD_BREAK_OFF s)
      else if c = TNCOM_CMD_BREAK_ON then
        SendCPCByteCommand TNASC_SET_CONTROL TNCOM_CMD_BREAK_ON
          ((set_port (SetBreak T True) s)\<lparr>BreakSignaled := True\<rparr>)
      else if c = TNCOM_CMD_BREAK_OFF then
        SendCPCByteCommand TNASC_SET_CONTROL TNCOM_CMD_BREAK_OFF
          ((set_port (SetBreak T False) s)\<lparr>BreakSignaled := False\<rparr>)
      else
        (let s1 = set_port (SetPortFlowControl T c) s;
             FlowControl =
               (if CiscoIOSCompatible s1 \<and> TNCOM_CMD_INFLOW_REQ \<le> c \<and>
                   c \<le> TNCOM_CMD_INFLOW_HARDWARE then 0
                else GetPortFlowControl T (port s1) TNCOM_CMD_FLOW_REQ)
         in SendCPCByteCommand TNASC_SET_CONTROL FlowControl s1))"

text \<open>The cases of \<open>HandleCPCCommand\<close> after \<open>TNCAS_SET_CONTROL\<close>: the masks, purging and the flow.\<close>

definition HandleMasksAndFlow ::
  "'p tty \<Rightarrow> (nat \<Rightarrow> byte) \<Rightarrow> 'p sercd \<Rightarrow> fault + 'p sercd" where
  "HandleMasksAndFlow T Command s =
     (if Command 3 = TNCAS_SET_LINESTATE_MASK then
        (let s1 = s\<lparr>LineStateMask := Command 4 AND 16\<rparr>
         in SendCPCByteCommand TNASC_SET_LINESTATE_MASK (LineStateMask s1) s1)
      else if Command 3 = TNCAS_SET_MODEMSTATE_MASK then
        (let s1 = s\<lparr>ModemStateMask := Command 4\<rparr>
         in SendCPCByteCommand TNASC_SET_MODEMSTATE_MASK (ModemStateMask s1) s1)
      else if Command 3 = TNCAS_PURGE_DATA then
        SendCPCByteCommand TNASC_PURGE_DATA (Command 4) (set_port (SetFlush T (Command 4)) s)
      else if Command 3 = TNCAS_FLOWCONTROL_SUSPEND then Inr (s\<lparr>InputFlow := False\<rparr>)
      else if Command 3 = TNCAS_FLOWCONTROL_RESUME then Inr (s\<lparr>InputFlow := True\<rparr>)
      else Inr s)"

definition HandleCPCCommand ::
  "'p tty \<Rightarrow> (nat \<Rightarrow> byte) \<Rightarrow> nat \<Rightarrow> 'p sercd \<Rightarrow> fault + 'p sercd" where
  "HandleCPCCommand T Command CSize s =
     (if Command 3 = TNCAS_SIGNATURE then
        (if CSize = 6 then SendSignature (server_signature s) s
         else bind_r (client_signature (sizeof_long s) Command CSize) (\<lambda>SigStr. Inr s))
      else if Command 3 = TNCAS_SET_BAUDRATE then
        (let BaudRate = ucast (ntohl (ucast (load_ulong (sizeof_long s) Command 4))) :: ulong;
             s1 = (if BaudRate = 0 then s else set_port (SetPortSpeed T BaudRate) s)
         in SendBaudRate (GetPortSpeed T (port s1)) s1)
      else if Command 3 = TNCAS_SET_DATASIZE then
        (let s1 = (if Command 4 = 0 then s else set_port (SetPortDataSize T (Command 4)) s)
         in SendCPCByteCommand TNASC_SET_DATASIZE (GetPortDataSize T (port s1)) s1)
      else if Command 3 = TNCAS_SET_PARITY then
        (let s1 = (if Command 4 = 0 then s else set_port (SetPortParity T (Command 4)) s)
         in SendCPCByteCommand TNASC_SET_PARITY (GetPortParity T (port s1)) s1)
      else if Command 3 = TNCAS_SET_STOPSIZE then
        (let s1 = (if Command 4 = 0 then s else set_port (SetPortStopSize T (Command 4)) s)
         in SendCPCByteCommand TNASC_SET_STOPSIZE (GetPortStopSize T (port s1)) s1)
      else if Command 3 = TNCAS_SET_CONTROL then HandleSetControl T (Command 4) s
      else HandleMasksAndFlow T Command s)"

section \<open>Telnet commands\<close>

text \<open>The four accepted cases of \<open>WILL\<close> run the same statements, and so do the four of \<open>DO\<close>.\<close>

definition accept_will :: "byte \<Rightarrow> 'p sercd \<Rightarrow> fault + 'p sercd" where
  "accept_will opt s =
     bind_r (if \<not> sent_do (tnstate s opt) then SendTelnetOption TNDO opt s else Inr s)
       (\<lambda>s. Inr (upd_tn opt (is_do_update (\<lambda>_. True)) s))"

definition accept_do :: "byte \<Rightarrow> 'p sercd \<Rightarrow> fault + 'p sercd" where
  "accept_do opt s =
     bind_r (if \<not> sent_will (tnstate s opt) then SendTelnetOption TNWILL opt s else Inr s)
       (\<lambda>s. Inr (upd_tn opt (is_will_update (\<lambda>_. True)) s))"

definition HandleWill :: "byte \<Rightarrow> 'p sercd \<Rightarrow> fault + 'p sercd" where
  "HandleWill opt s =
     bind_r
       (if opt = TNCOM_PORT_OPTION then accept_will opt (s\<lparr>PortControlEnable := True\<rparr>)
        else if opt = TN_TRANSMIT_BINARY then accept_will opt s
        else if opt = TN_ECHO then accept_will opt s
        else if opt = TN_SUPPRESS_GO_AHEAD then accept_will opt s
        else bind_r (SendTelnetOption TNDONT opt s)
          (\<lambda>s. Inr (upd_tn opt (is_do_update (\<lambda>_. False)) s)))
       (\<lambda>s. Inr (upd_tn opt (sent_do_update (\<lambda>_. False) \<circ> sent_dont_update (\<lambda>_. False)) s))"

definition HandleDo :: "byte \<Rightarrow> 'p sercd \<Rightarrow> fault + 'p sercd" where
  "HandleDo opt s =
     bind_r
       (if opt = TNCOM_PORT_OPTION then accept_do opt (s\<lparr>PortControlEnable := True\<rparr>)
        else if opt = TN_TRANSMIT_BINARY then accept_do opt s
        else if opt = TN_ECHO then accept_do opt s
        else if opt = TN_SUPPRESS_GO_AHEAD then accept_do opt s
        else bind_r (SendTelnetOption TNWONT opt s)
          (\<lambda>s. Inr (upd_tn opt (is_will_update (\<lambda>_. False)) s)))
       (\<lambda>s. Inr (upd_tn opt (sent_will_update (\<lambda>_. False) \<circ> sent_wont_update (\<lambda>_. False)) s))"

definition HandleDont :: "byte \<Rightarrow> 'p sercd \<Rightarrow> fault + 'p sercd" where
  "HandleDont opt s =
     bind_r
       (if is_will (tnstate s opt)
        then bind_r (SendTelnetOption TNWONT opt s)
          (\<lambda>s. Inr (upd_tn opt (is_will_update (\<lambda>_. False)) s))
        else Inr s)
       (\<lambda>s. Inr (upd_tn opt (sent_will_update (\<lambda>_. False) \<circ> sent_wont_update (\<lambda>_. False)) s))"

definition HandleWont :: "byte \<Rightarrow> 'p sercd \<Rightarrow> fault + 'p sercd" where
  "HandleWont opt s =
     bind_r
       (if is_do (tnstate s opt)
        then bind_r (SendTelnetOption TNDONT opt s)
          (\<lambda>s. Inr (upd_tn opt (is_do_update (\<lambda>_. False)) s))
        else Inr s)
       (\<lambda>s. Inr (upd_tn opt (sent_do_update (\<lambda>_. False) \<circ> sent_dont_update (\<lambda>_. False)) s))"

definition HandleIACCommand ::
  "'p tty \<Rightarrow> (nat \<Rightarrow> byte) \<Rightarrow> nat \<Rightarrow> 'p sercd \<Rightarrow> fault + 'p sercd" where
  "HandleIACCommand T Command CSize s =
     (if Command 1 = TNSB then
        (if \<not> (is_will (tnstate s (Command 2)) \<or> is_do (tnstate s (Command 2))) then Inr s
         else if Command 2 = TNCOM_PORT_OPTION then HandleCPCCommand T Command CSize s
         else Inr s)
      else if Command 1 = TNWILL then HandleWill (Command 2) s
      else if Command 1 = TNDO then HandleDo (Command 2) s
      else if Command 1 = TNDONT then HandleDont (Command 2) s
      else if Command 1 = TNWONT then HandleWont (Command 2) s
      else Inr s)"

definition HandleCPCCommand_bytes :: "abi \<Rightarrow> nat" where
  "HandleCPCCommand_bytes a =
     max SendSignature_bytes (max (SendBaudRate_bytes a) SendCPCByteCommand_bytes)"

definition HandleIACCommand_bytes :: "abi \<Rightarrow> nat" where
  "HandleIACCommand_bytes a = max (HandleCPCCommand_bytes a) SendTelnetOption_bytes"

lemma HandleIACCommand_bytes_eq [simp]: "HandleIACCommand_bytes a = 516"
  by (cases a) (simp_all add: HandleIACCommand_bytes_def HandleCPCCommand_bytes_def
      SendSignature_bytes_def SendBaudRate_bytes_def SendCPCByteCommand_bytes_def
      SendTelnetOption_bytes_def)

end
