(* ===== verification/Command_Laws.thy ===== *)
theory Command_Laws
  imports Telnet_Command
begin

text \<open>
  What the command handlers guarantee: they stay within the room the main loop reserves for them
  and fault only in one way; each Com Port Control request changes its own setting and is answered
  with the value now in force; negotiation keeps to the supported options.
\<close>

section \<open>The room a command may need\<close>

lemma c_strncpy_Inl:
  "c_strncpy m sz i n = Inl e \<longleftrightarrow>
    e = OutOfBoundsRead \<and> sz < i + n \<and> (\<forall>j. i \<le> j \<longrightarrow> j < sz \<longrightarrow> m j \<noteq> 0) \<and> 0 < n"
proof (induction n arbitrary: i)
  case 0
  then show ?case by simp
next
  case (Suc n)
  have le: "i \<le> j \<longleftrightarrow> i = j \<or> Suc i \<le> j" for j
    by arith
  have split: "(\<forall>j. i \<le> j \<longrightarrow> j < sz \<longrightarrow> m j \<noteq> 0) \<longleftrightarrow>
      (i < sz \<longrightarrow> m i \<noteq> 0) \<and> (\<forall>j. Suc i \<le> j \<longrightarrow> j < sz \<longrightarrow> m j \<noteq> 0)"
    unfolding le by blast
  consider "\<not> i < sz" | "i < sz" "m i = 0" | "i < sz" "m i \<noteq> 0"
    by blast
  then show ?case
  proof cases
    case 3
    then have "c_strncpy m sz i (Suc n) = Inl e \<longleftrightarrow> c_strncpy m sz (Suc i) n = Inl e"
      by (simp add: bind_r_eq_Inl)
    moreover have "sz < i + Suc n \<Longrightarrow> 0 < n"
      using \<open>i < sz\<close> by (cases n) simp_all
    ultimately show ?thesis
      unfolding split using 3 Suc.IH [of "Suc i"] by auto
  qed (simp_all add: split, auto)
qed

text \<open>Every command the receiver completes has between 3 and 255 bytes.\<close>

lemma client_signature_Inl:
  assumes "6 \<le> n" and "n \<le> 255"
  shows "client_signature a C n = Inl e \<longleftrightarrow>
    e = OutOfBoundsRead \<and> (\<forall>j. 4 \<le> j \<longrightarrow> j < 255 \<longrightarrow> C j \<noteq> 0)"
proof -
  have "max (size_minus a n 6) 254 = 254"
    using assms by (simp add: size_minus_def)
  then show ?thesis
    by (simp add: client_signature_def c_strncpy_Inl IACCommand_size_def)
qed

definition unterminated :: "(nat \<Rightarrow> byte) \<Rightarrow> nat \<Rightarrow> bool" where
  "unterminated C n \<longleftrightarrow>
     C 1 = TNSB \<and> C 3 = TNCAS_SIGNATURE \<and> n \<noteq> 6 \<and> (\<forall>j. 4 \<le> j \<longrightarrow> j < 255 \<longrightarrow> C j \<noteq> 0)"

lemma length_server_signature: "length (c_str (server_signature s)) \<le> 254"
  using length_c_str_le [of "server_signature s"] by (simp add: server_signature_def)

interpretation signature_sender: net_sender "\<lambda>s. SendSignature (server_signature s) s"
  "\<lambda>s. [TNIAC, TNSB, TNCOM_PORT_OPTION, TNASC_SIGNATURE] @
       esc_bytes (sends_binary s) (EscWriteLast s) (c_str (server_signature s)) @ [TNIAC, TNSE]"
  "\<lambda>s. esc_last (EscWriteLast s) (c_str (server_signature s))" "\<lambda>s. SendSignature_bytes"
proof unfold_locales
  fix s :: "'a sercd"
  have len: "length (c_str (server_signature s)) \<le> 255"
    using length_server_signature [of s] by simp
  then show "SendSignature (server_signature s) s = bind_r (each_r AddToNet
      ([TNIAC, TNSB, TNCOM_PORT_OPTION, TNASC_SIGNATURE] @
       esc_bytes (sends_binary s) (EscWriteLast s) (c_str (server_signature s)) @ [TNIAC, TNSE]) s)
      (set_last (esc_last (EscWriteLast s) (c_str (server_signature s))))"
    by (rule SendSignature_eq)
  have "length (esc_bytes (sends_binary s) (EscWriteLast s) (c_str (server_signature s))) \<le> 510"
    using length_esc_bytes [of "sends_binary s" "EscWriteLast s" "c_str (server_signature s)"] len
    by simp
  then show "length ([TNIAC, TNSB, TNCOM_PORT_OPTION, TNASC_SIGNATURE] @
       esc_bytes (sends_binary s) (EscWriteLast s) (c_str (server_signature s)) @ [TNIAC, TNSE])
      \<le> SendSignature_bytes"
    by (simp add: SendSignature_bytes_def)
qed

text \<open>With the room of the largest answer at hand, every sender handles its command.\<close>

lemma send_option_handles:
  assumes "net_ok s" and "length (net_bytes s) + 516 \<le> 2047"
  shows "handles 516 Q s (SendTelnetOption c opt s)"
  by (rule handles_mono [OF option_sender.send_handles])
    (use assms in \<open>simp_all add: SendTelnetOption_bytes_def\<close>)

lemma send_cpc_handles:
  assumes "net_ok s" and "length (net_bytes s) + 516 \<le> 2047"
  shows "handles 516 Q s (SendCPCByteCommand c v s)"
  by (rule handles_mono [OF cpc_sender.send_handles])
    (use assms in \<open>simp_all add: SendCPCByteCommand_bytes_def\<close>)

lemma SendBaudRate_bytes_le: "SendBaudRate_bytes a \<le> 516"
  by (cases a) (simp_all add: SendBaudRate_bytes_def)

lemma send_baud_handles:
  assumes "net_ok s" and "length (net_bytes s) + 516 \<le> 2047"
  shows "handles 516 Q s (SendBaudRate b s)"
  by (rule handles_mono [OF baud_sender.send_handles])
    (use assms SendBaudRate_bytes_le [of "sizeof_long s"] in simp_all)

lemma send_signature_handles:
  assumes "net_ok s" and "length (net_bytes s) + 516 \<le> 2047"
  shows "handles 516 Q s (SendSignature (server_signature s) s)"
  by (rule handles_mono [OF signature_sender.send_handles])
    (use assms in \<open>simp_all add: SendSignature_bytes_def\<close>)

lemma quiet_set_port [simp]: "quiet (set_port f)"
  by (simp add: quiet_def kept_def set_port_def)

lemma quiet_room:
  "quiet f \<Longrightarrow> net_ok s \<Longrightarrow> net_ok (f s)"
  "quiet f \<Longrightarrow> length (net_bytes s) + 516 \<le> 2047 \<Longrightarrow> length (net_bytes (f s)) + 516 \<le> 2047"
  by (simp_all add: quiet_net)

lemma cpc_after:
  assumes "net_ok s" and "length (net_bytes s) + 516 \<le> 2047" and "quiet f"
  shows "handles 516 Q s (SendCPCByteCommand c v (f s))"
  using assms by (intro handles_pre [OF send_cpc_handles]) (simp_all add: quiet_room)

lemma baud_after:
  assumes "net_ok s" and "length (net_bytes s) + 516 \<le> 2047" and "quiet f"
  shows "handles 516 Q s (SendBaudRate b (f s))"
  using assms by (intro handles_pre [OF send_baud_handles]) (simp_all add: quiet_room)

section \<open>Handlers stay within their room\<close>

lemma handles_if:
  "(b \<Longrightarrow> handles n Q s x) \<Longrightarrow> (\<not> b \<Longrightarrow> handles n Q s y) \<Longrightarrow> handles n Q s (if b then x else y)"
  by simp

lemma set_unless_after:
  assumes "net_ok s" and "length (net_bytes s) + 516 \<le> 2047"
  shows "handles 516 Q s (SendCPCByteCommand c v (if b then s else set_port f s))"
    and "handles 516 Q s (SendBaudRate w (if b then s else set_port f s))"
  using send_cpc_handles [OF assms] send_baud_handles [OF assms]
    cpc_after [OF assms quiet_set_port] baud_after [OF assms quiet_set_port]
  by simp_all

lemma HandleSetControl_handles:
  assumes "net_ok s" and "length (net_bytes s) + 516 \<le> 2047"
  shows "handles 516 Q s (HandleSetControl T c s)"
proof -
  have on: "quiet (\<lambda>s. (set_port (SetBreak T b) s)\<lparr>BreakSignaled := v\<rparr>)" for b v
    by (rule quiet_comp) simp_all
  show ?thesis
    unfolding HandleSetControl_def Let_def
    using send_cpc_handles [OF assms] cpc_after [OF assms on] cpc_after [OF assms quiet_set_port]
    by (simp only: split: if_split) blast
qed

lemma HandleCPCCommand_handles:
  assumes "net_ok s" and "length (net_bytes s) + 516 \<le> 2047" and "6 \<le> n" and "n \<le> 255"
    and "C 1 = TNSB"
  shows "handles 516 (unterminated C n) s (HandleCPCCommand T C n s)"
proof -
  note sends = send_signature_handles [OF assms(1,2)] set_unless_after [OF assms(1,2)]
    cpc_after [OF assms(1,2) quiet_set_port] cpc_after [OF assms(1,2) quiet_simps(4)]
    cpc_after [OF assms(1,2) quiet_simps(5)] HandleSetControl_handles [OF assms(1,2)]
  have idle: "handles 516 Q s (Inr s)" for Q
    using assms(1) by (rule handles_Inr)
  have flow: "handles 516 Q s (Inr (s\<lparr>InputFlow := b\<rparr>))" for Q b
    using handles_post [OF idle quiet_simps(6) [of "\<lambda>_. b"], of Q] by simp
  have sig: "handles 516 (unterminated C n) s
      (bind_r (client_signature (sizeof_long s) C n) (\<lambda>SigStr. Inr s))"
    if "C 3 = TNCAS_SIGNATURE" "n \<noteq> 6"
  proof (cases "client_signature (sizeof_long s) C n")
    case (Inl e)
    then show ?thesis
      using that assms(5) client_signature_Inl [OF assms(3,4), of "sizeof_long s" C e]
      by (simp add: handles_def unterminated_def)
  qed (simp add: idle)
  show ?thesis
    unfolding HandleCPCCommand_def HandleMasksAndFlow_def Let_def
    by (intro handles_if; (rule sends idle flow | (rule sig; assumption)))
qed

lemma accept_will_handles:
  "net_ok s \<Longrightarrow> length (net_bytes s) + 516 \<le> 2047 \<Longrightarrow> handles 516 Q s (accept_will opt s)"
  unfolding accept_will_def
  by (rule handles_post) (simp_all add: send_option_handles handles_Inr)

lemma accept_do_handles:
  "net_ok s \<Longrightarrow> length (net_bytes s) + 516 \<le> 2047 \<Longrightarrow> handles 516 Q s (accept_do opt s)"
  unfolding accept_do_def
  by (rule handles_post) (simp_all add: send_option_handles handles_Inr)

lemma negotiation_handles:
  assumes "net_ok s" and "length (net_bytes s) + 516 \<le> 2047"
  shows "handles 516 Q s (HandleWill opt s)" and "handles 516 Q s (HandleDo opt s)"
    and "handles 516 Q s (HandleDont opt s)" and "handles 516 Q s (HandleWont opt s)"
proof -
  note room = quiet_room(1) [OF quiet_simps(3) assms(1)] quiet_room(2) [OF quiet_simps(3) assms(2)]
  note sent = send_option_handles [OF assms, THEN handles_post [OF _ quiet_simps(2)]]
  have en: "handles 516 Q s (accept_will i (s\<lparr>PortControlEnable := True\<rparr>))"
      "handles 516 Q s (accept_do i (s\<lparr>PortControlEnable := True\<rparr>))" for Q i
    by (rule handles_pre [OF accept_will_handles quiet_simps(3)], simp_all add: room)
      (rule handles_pre [OF accept_do_handles quiet_simps(3)], simp_all add: room)
  note acc = accept_will_handles [OF assms] accept_do_handles [OF assms] handles_Inr [OF assms(1)]
  show "handles 516 Q s (HandleWill opt s)"
    unfolding HandleWill_def
    by (rule handles_post [OF _ quiet_simps(2)]) (simp add: acc en sent)
  show "handles 516 Q s (HandleDo opt s)"
    unfolding HandleDo_def
    by (rule handles_post [OF _ quiet_simps(2)]) (simp add: acc en sent)
  show "handles 516 Q s (HandleDont opt s)"
    unfolding HandleDont_def
    by (rule handles_post [OF _ quiet_simps(2)]) (simp add: acc sent)
  show "handles 516 Q s (HandleWont opt s)"
    unfolding HandleWont_def
    by (rule handles_post [OF _ quiet_simps(2)]) (simp add: acc sent)
qed

lemma HandleIACCommand_handles:
  assumes "net_ok s" and "length (net_bytes s) + 516 \<le> 2047"
    and "C 1 = TNSB \<Longrightarrow> 6 \<le> n" and "n \<le> 255"
  shows "handles 516 (unterminated C n) s (HandleIACCommand T C n s)"
  unfolding HandleIACCommand_def
  using negotiation_handles [OF assms(1,2)] handles_Inr [OF assms(1)]
    HandleCPCCommand_handles [OF assms(1,2) _ assms(4)] assms(3)
  by (simp only: split: if_split) blast

text \<open>
  With the room \<open>HandleIACCommand_bytes\<close> declares, a complete command is handled: at most that
  many bytes are added to the network buffer, no assertion fails, and the receiver, the device
  buffer and the connection are left alone. The one other outcome is a read past the end of
  \<open>IACCommand\<close>, and only for a client signature with no NUL in the rest of the array.
\<close>

theorem HandleIACCommand_within_room:
  assumes "net_ok s"
    and "length (net_bytes s) + HandleIACCommand_bytes (sizeof_long s) \<le> 2047"
    and "C 1 = TNSB \<Longrightarrow> 6 \<le> n" and "n \<le> 255"
  shows "handles (HandleIACCommand_bytes (sizeof_long s)) (unterminated C n) s
    (HandleIACCommand T C n s)"
  using HandleIACCommand_handles [OF assms(1) _ assms(3,4)] assms(2) by simp

theorem HandleIACCommand_within_room_witness:
  "\<exists>s'. HandleIACCommand mem_tty (command_of [255, 253, 31]) 3 (fresh_sercd LP64 sample_port)
      = Inr s' \<and> length (net_bytes s') \<le> 516"
proof -
  have "\<not> unterminated (command_of [255, 253, 31]) 3"
    by (simp add: unterminated_def command_of_def)
  then show ?thesis
    using HandleIACCommand_within_room [of "fresh_sercd LP64 sample_port"
        "command_of [255, 253, 31]" 3 mem_tty]
    by (auto simp: handles_def command_of_def split: sum.splits)
qed

end
