(* ===== verification/Command_Replies.thy ===== *)
theory Command_Replies
  imports Command_Laws
begin

text \<open>
  The Com Port Control dialogue: what each request changes and what it is answered with, and the
  negotiation of Telnet options.
\<close>

section \<open>Setting and asking for a parameter\<close>

definition cpc_reply :: "'p sercd \<Rightarrow> byte \<Rightarrow> byte \<Rightarrow> byte list" where
  "cpc_reply s k v =
     [TNIAC, TNSB, TNCOM_PORT_OPTION, k] @ esc_char (sends_binary s) (EscWriteLast s) v @ [TNIAC, TNSE]"

lemma cpc_sent:
  assumes "net_ok s" and "length (net_bytes s) + 8 \<le> 2047"
  shows "SendCPCByteCommand k v s = Inr ((net_put (cpc_reply s k v) s)\<lparr>EscWriteLast := v\<rparr>)"
    and "net_bytes (net_put (cpc_reply s k v) s) = net_bytes s @ cpc_reply s k v"
  using cpc_sender.send_room [of s k v] assms
  by (simp_all add: SendCPCByteCommand_bytes_def cpc_reply_def)

lemma state_simps [simp]:
  "net_ok (set_port f s) = net_ok s" "net_bytes (set_port f s) = net_bytes s"
  "cpc_reply (set_port f s) k v = cpc_reply s k v" "port (set_port f s) = f (port s)"
  "port (net_put bs s) = port s" "net_bytes (s\<lparr>EscWriteLast := l\<rparr>) = net_bytes s"
  "sizeof_long (set_port f s) = sizeof_long s" "EscWriteLast (set_port f s) = EscWriteLast s"
  "sends_binary (set_port f s) = sends_binary s"
  by (simp_all add: set_port_def net_ok_def net_bytes_def cpc_reply_def net_put_def sends_binary_def)

text \<open>The value in force after a request: zero asks for the current one.\<close>

definition after_request :: "'v::zero \<Rightarrow> 'v \<Rightarrow> ('v \<Rightarrow> 'v) \<Rightarrow> 'v" where
  "after_request req cur norm = (if req = 0 then cur else norm req)"

text \<open>
  C19. A request for data size, parity or stop size (commands 2, 3, 4) sets that parameter, or only
  asks for it when the value is zero, changes no other line setting, and is answered with command
  102, 103 or 104 and the value now in force, read back from the port.
\<close>

theorem parameter_request_answered:
  assumes "tty_faithful T" and "net_ok s" and "length (net_bytes s) + 8 \<le> 2047"
    and "line_settings T (port s) = (b, d, v, w)"
    and "C 3 \<in> {TNCAS_SET_DATASIZE, TNCAS_SET_PARITY, TNCAS_SET_STOPSIZE}"
  defines "d' \<equiv> if C 3 = TNCAS_SET_DATASIZE then after_request (C 4) d norm_data_size else d"
    and "v' \<equiv> if C 3 = TNCAS_SET_PARITY then after_request (C 4) v norm_parity else v"
    and "w' \<equiv> if C 3 = TNCAS_SET_STOPSIZE then after_request (C 4) w norm_stop_size else w"
  shows "\<exists>s'. HandleCPCCommand T C n s = Inr s' \<and> line_settings T (port s') = (b, d', v', w') \<and>
    net_bytes s' = net_bytes s @ cpc_reply s (C 3 + 100)
      (if C 3 = TNCAS_SET_DATASIZE then d' else if C 3 = TNCAS_SET_PARITY then v' else w')"
proof -
  note set = line_settings_after [OF assms(1,4)]
  note get = line_settings_def [of T, symmetric] assms(4)
  have now: "GetPortDataSize T (port s) = d" "GetPortParity T (port s) = v"
      "GetPortStopSize T (port s) = w"
    using assms(4) by (simp_all add: line_settings_def)
  have new: "GetPortDataSize T (SetPortDataSize T x (port s)) = norm_data_size x"
      "GetPortParity T (SetPortParity T x (port s)) = norm_parity x"
      "GetPortStopSize T (SetPortStopSize T x (port s)) = norm_stop_size x" for x
    using set(2-4) [of x] by (simp_all add: line_settings_def)
  show ?thesis
    using assms(5) cpc_sent [OF assms(2,3)] cpc_sent [of "set_port f s" for f] assms(2,3,4)
    by (auto simp: HandleCPCCommand_def HandleMasksAndFlow_def Let_def d'_def v'_def w'_def after_request_def now new set)
qed

theorem parameter_request_answered_witness:
  "\<exists>s'. HandleCPCCommand mem_tty (command_of [255, 250, 44, 2, 7, 255, 240]) 7
      (fresh_sercd LP64 sample_port) = Inr s' \<and>
    line_settings mem_tty (port s') = (9600, 7, 1, 1) \<and>
    net_bytes s' = [255, 250, 44, 102, 7, 255, 240]"
  using parameter_request_answered [OF mem_tty_faithful, of "fresh_sercd LP64 sample_port"
      9600 8 1 1 "command_of [255, 250, 44, 2, 7, 255, 240]" 7]
  by (simp add: sample_line_settings command_of_def after_request_def norm_data_size_def
      cpc_reply_def esc_char_def)

section \<open>The baud rate\<close>

definition be_word :: "byte \<Rightarrow> byte \<Rightarrow> byte \<Rightarrow> byte \<Rightarrow> u32" where
  "be_word a b c d =
     push_bit 24 (ucast a) OR push_bit 16 (ucast b) OR push_bit 8 (ucast c) OR ucast d"

lemma htonl_be_word:
  "htonl x = be_word (ucast x) (ucast (drop_bit 8 x)) (ucast (drop_bit 16 x)) (ucast (drop_bit 24 x))"
proof -
  have "take_bit 8 y = (ucast (ucast y :: byte) :: u32)" for y :: u32
    by (rule bit_word_eqI) (auto simp: bit_simps)
  then show ?thesis
    by (simp add: htonl_def be_word_def)
qed

lemma not_bit_byte: "8 \<le> n \<Longrightarrow> \<not> bit (b :: byte) n"
  by (auto dest: bit_imp_le_length)

lemma loaded_byte:
  fixes b0 b1 b2 b3 :: byte and hi :: ulong
  assumes "w = ucast b0 OR (push_bit 8 (ucast b1) OR (push_bit 16 (ucast b2) OR
      (push_bit 24 (ucast b3) OR push_bit 32 hi)))"
  shows "ucast (ucast w :: u32) = b0" "ucast (drop_bit 8 (ucast w :: u32)) = b1"
    "ucast (drop_bit 16 (ucast w :: u32)) = b2" "ucast (drop_bit 24 (ucast w :: u32)) = b3"
  unfolding assms by (rule bit_word_eqI; auto simp: bit_simps not_bit_byte)+

lemma load_ulong_be:
  "ntohl (ucast (load_ulong a m i)) = be_word (m i) (m (i + 1)) (m (i + 2)) (m (i + 3))"
proof -
  obtain hi where "load_ulong a m i = ucast (m i) OR (push_bit 8 (ucast (m (i + 1))) OR
      (push_bit 16 (ucast (m (i + 2))) OR (push_bit 24 (ucast (m (i + 3))) OR push_bit 32 hi)))"
  proof (cases a)
    case ILP32
    then show ?thesis
      using that [of 0] by (simp add: load_ulong_def upt_4)
  next
    case LP64
    have "push_bit 40 x = push_bit 32 (push_bit 8 x)" "push_bit 48 x = push_bit 32 (push_bit 16 x)"
        "push_bit 56 x = push_bit 32 (push_bit 24 x)" for x :: ulong
      by simp_all
    with LP64 show ?thesis
      using that [of "ucast (m (i + 4)) OR (push_bit 8 (ucast (m (i + 5))) OR
        (push_bit 16 (ucast (m (i + 6))) OR push_bit 24 (ucast (m (i + 7)))))"]
      by (simp add: load_ulong_def upt_8 push_bit_or del: push_bit_push_bit)
  qed
  then show ?thesis
    unfolding ntohl_def htonl_be_word by (simp only: loaded_byte)
qed

lemma be_word_bytes:
  "be_word (ucast (drop_bit 24 x)) (ucast (drop_bit 16 x)) (ucast (drop_bit 8 x)) (ucast x) = x"
proof (rule bit_word_eqI)
  fix n
  assume "n < LENGTH(32)"
  then show "bit (be_word (ucast (drop_bit 24 x)) (ucast (drop_bit 16 x)) (ucast (drop_bit 8 x))
      (ucast x)) n = bit x n"
    unfolding be_word_def by (cases "n < 8"; cases "n < 16"; cases "n < 24")
      (auto simp: bit_simps less_diff_conv2)
qed

text \<open>
  C20. A baud rate request carries the rate in network order, on both ABIs. A nonzero rate is set
  (9600 in place of one that is not supported), no other line setting changes, and the answer
  carries the speed read back from the port.
\<close>

theorem baud_request_answered:
  assumes "tty_faithful T" and "net_ok s"
    and "length (net_bytes s) + SendBaudRate_bytes (sizeof_long s) \<le> 2047"
    and "line_settings T (port s) = (b, d, v, w)" and "C 3 = TNCAS_SET_BAUDRATE"
  defines "b' \<equiv> after_request (ucast (be_word (C 4) (C 5) (C 6) (C 7))) b norm_speed"
  shows "\<exists>s'. HandleCPCCommand T C n s = Inr s' \<and> line_settings T (port s') = (b', d, v, w) \<and>
    net_bytes s' = net_bytes s @ [TNIAC, TNSB, TNCOM_PORT_OPTION, TNASC_SET_BAUDRATE] @
      esc_bytes (sends_binary s) (EscWriteLast s) (baud_bytes (sizeof_long s) b') @ [TNIAC, TNSE]"
proof -
  let ?req = "ucast (be_word (C 4) (C 5) (C 6) (C 7)) :: ulong"
  have req: "ntohl (ucast (load_ulong (sizeof_long s) C 4)) = be_word (C 4) (C 5) (C 6) (C 7)"
    using load_ulong_be [of "sizeof_long s" C 4] by simp
  have speeds: "GetPortSpeed T (port s) = b"
      "GetPortSpeed T (SetPortSpeed T ?req (port s)) = norm_speed ?req"
    using assms(4) line_settings_after(1) [OF assms(1,4), of ?req]
    by (simp_all add: line_settings_def)
  show ?thesis
    using baud_sender.send_room [of s b] baud_sender.send_room [of "set_port f s" for f] assms(2-4)
      line_settings_after(1) [OF assms(1,4), of ?req]
    by (auto simp: HandleCPCCommand_def HandleMasksAndFlow_def Let_def assms(5) req b'_def after_request_def speeds)
qed

lemma truncated: "(9600 :: byte) = 0x80" "(450 :: byte) = 0xC2" "(115200 :: byte) = 0"
  by simp_all

theorem baud_request_answered_witness:
  "\<exists>s'. HandleCPCCommand mem_tty (command_of [255, 250, 44, 1, 0, 1, 0xC2, 0, 255, 240]) 10
      (fresh_sercd ILP32 sample_port) = Inr s' \<and>
    line_settings mem_tty (port s') = (115200, 8, 1, 1) \<and>
    net_bytes s' = [255, 250, 44, 101, 0, 1, 0xC2, 0, 255, 240]"
  using baud_request_answered [OF mem_tty_faithful, of "fresh_sercd ILP32 sample_port"
      9600 8 1 1 "command_of [255, 250, 44, 1, 0, 1, 0xC2, 0, 255, 240]" 10]
  by (simp add: sample_line_settings command_of_def after_request_def norm_speed_def
      supported_speeds_def SendBaudRate_bytes_def be_word_def baud_bytes_def be_bytes_def
      esc_char_def truncated)

lemma esc_bytes_append:
  "esc_bytes bin l (xs @ ys) = esc_bytes bin l xs @ esc_bytes bin (esc_last l xs) ys"
  by (induction xs arbitrary: l) simp_all

text \<open>
  The answer to a baud rate request has the four-byte form of RFC 2217 exactly on the 32-bit
  ABIs: where \<open>unsigned long\<close> has eight bytes, four zero bytes follow the rate.
\<close>

theorem baud_answer_conforms_iff:
  assumes "net_ok s" and "length (net_bytes s) + SendBaudRate_bytes (sizeof_long s) \<le> 2047"
  shows "(\<exists>s'. SendBaudRate BR s = Inr s' \<and> net_bytes s' = net_bytes s @
      [TNIAC, TNSB, TNCOM_PORT_OPTION, TNASC_SET_BAUDRATE] @
      esc_bytes (sends_binary s) (EscWriteLast s) (be_bytes (ucast BR)) @ [TNIAC, TNSE])
    \<longleftrightarrow> sizeof_long s = ILP32"
proof -
  have "esc_bytes bin l (be_bytes x @ [0, 0, 0, 0]) \<noteq> esc_bytes bin l (be_bytes x)" for bin l x
    by (simp add: esc_bytes_append esc_char_def)
  then show ?thesis
    using baud_sender.send_room [OF assms, of BR]
    by (cases "sizeof_long s") (simp_all add: baud_bytes_def)
qed

theorem baud_answer_conforms_iff_witness:
  "\<not> (\<exists>s'. SendBaudRate 9600 (fresh_sercd LP64 sample_port) = Inr s' \<and>
      net_bytes s' = [255, 250, 44, 101, 0, 0, 0x25, 0x80, 255, 240])"
  using baud_answer_conforms_iff [of "fresh_sercd LP64 sample_port" 9600]
  by (simp add: SendBaudRate_bytes_def be_bytes_def esc_char_def truncated)

section \<open>Break, masks, purge and flow control\<close>

text \<open>
  Break: \<open>BREAK_ON\<close> and \<open>BREAK_OFF\<close> are answered with themselves and remembered, so that a later
  break query gets the last one commanded. On the port, switching on sends one timed break and
  switching off does nothing.
\<close>

theorem break_state_reported:
  assumes "net_ok s" and "length (net_bytes s) + 16 \<le> 2047"
    and "c \<in> {TNCOM_CMD_BREAK_ON, TNCOM_CMD_BREAK_OFF}"
  shows "\<exists>s1 s2. HandleSetControl T c s = Inr s1 \<and>
    HandleSetControl T TNCOM_CMD_BREAK_REQ s1 = Inr s2 \<and>
    net_bytes s2 = net_bytes s @ cpc_reply s TNASC_SET_CONTROL c @
      [TNIAC, TNSB, TNCOM_PORT_OPTION, TNASC_SET_CONTROL, c, TNIAC, TNSE] \<and>
    port s2 = (if c = TNCOM_CMD_BREAK_ON then tcsendbreak T (port s) else port s)"
proof -
  define t where
    "t = (set_port (SetBreak T (c = TNCOM_CMD_BREAK_ON)) s)\<lparr>BreakSignaled := (c = TNCOM_CMD_BREAK_ON)\<rparr>"
  define s1 where "s1 = (net_put (cpc_reply t TNASC_SET_CONTROL c) t)\<lparr>EscWriteLast := c\<rparr>"
  have t: "net_ok t" "net_bytes t = net_bytes s" "cpc_reply t k u = cpc_reply s k u" for k u
    using assms(1) by (simp_all add: t_def net_ok_def net_bytes_def set_port_def cpc_reply_def
        sends_binary_def)
  have len: "length (cpc_reply s k u) \<le> 8" for k u
    using length_esc_char [of "sends_binary s" "EscWriteLast s" u] by (simp add: cpc_reply_def)
  have "length (net_bytes t) + 8 \<le> 2047"
    using assms(2) t by simp
  note first = cpc_sent [OF t(1) this]
  have s1: "net_ok s1" "net_bytes s1 = net_bytes s @ cpc_reply s TNASC_SET_CONTROL c"
      "BreakSignaled s1 = (c = TNCOM_CMD_BREAK_ON)" "port s1 = SetBreak T (c = TNCOM_CMD_BREAK_ON) (port s)"
    using t first(2) [of TNASC_SET_CONTROL c]
    by (simp_all add: s1_def net_ok_def net_bytes_def) (simp_all add: t_def net_put_def set_port_def)
  have "length (net_bytes s1) + 8 \<le> 2047"
    using assms(2) s1(2) len [of TNASC_SET_CONTROL c] by simp
  note second = cpc_sent [OF s1(1) this]
  have reply: "cpc_reply s1 k c = [TNIAC, TNSB, TNCOM_PORT_OPTION, k, c, TNIAC, TNSE]" for k
    using assms(3) by (auto simp: cpc_reply_def esc_char_def s1_def)
  have "HandleSetControl T c s = Inr s1"
    using assms(3) first(1) by (auto simp: HandleSetControl_def s1_def t_def)
  moreover have "HandleSetControl T TNCOM_CMD_BREAK_REQ s1 =
      Inr ((net_put (cpc_reply s1 TNASC_SET_CONTROL c) s1)\<lparr>EscWriteLast := c\<rparr>)"
    using assms(3) second(1) s1(3) by (auto simp: HandleSetControl_def)
  ultimately show ?thesis
    using second(2) [of TNASC_SET_CONTROL c] s1 reply by (auto simp: SetBreak_def)
qed

theorem break_state_reported_witness:
  "\<exists>s1 s2. HandleSetControl mem_tty 5 (fresh_sercd LP64 sample_port) = Inr s1 \<and>
    HandleSetControl mem_tty 4 s1 = Inr s2 \<and> mp_breaks (port s2) = 1 \<and>
    net_bytes s2 = [255, 250, 44, 105, 5, 255, 240, 255, 250, 44, 105, 5, 255, 240]"
  using break_state_reported [of "fresh_sercd LP64 sample_port" 5 mem_tty]
  by (auto simp: cpc_reply_def esc_char_def mem_tty_def sample_port_def)

lemma state_update_simps [simp]:
  "net_ok (s\<lparr>LineStateMask := m\<rparr>) = net_ok s" "net_ok (s\<lparr>ModemStateMask := m\<rparr>) = net_ok s"
  "net_bytes (s\<lparr>LineStateMask := m\<rparr>) = net_bytes s"
  "net_bytes (s\<lparr>ModemStateMask := m\<rparr>) = net_bytes s"
  "cpc_reply (s\<lparr>LineStateMask := m\<rparr>) k v = cpc_reply s k v"
  "cpc_reply (s\<lparr>ModemStateMask := m\<rparr>) k v = cpc_reply s k v"
  by (simp_all add: net_ok_def net_bytes_def cpc_reply_def sends_binary_def)

text \<open>The masks and the flow of data as a client can set them.\<close>

definition client_flags :: "'p sercd \<Rightarrow> byte \<times> byte \<times> bool" where
  "client_flags s = (LineStateMask s, ModemStateMask s, InputFlow s)"

lemma client_flags_simps [simp]:
  "client_flags (net_put bs s) = client_flags s"
  "client_flags (s\<lparr>EscWriteLast := l\<rparr>) = client_flags s"
  "client_flags (set_port f s) = client_flags s"
  by (simp_all add: client_flags_def net_put_def set_port_def)

text \<open>
  The line state mask keeps only the break bit and the modem state mask is kept as sent; both
  are answered with the mask now in force. A purge is answered with its selector. Suspend and
  resume switch the flow from the device and are not answered. Any command the server does not
  know changes nothing and is not answered.
\<close>

theorem masks_purge_and_flow:
  assumes "net_ok s" and "length (net_bytes s) + 8 \<le> 2047" and "client_flags s = (lm, mm, fl)"
    and "C 3 = 10 \<or> C 3 = 11 \<or> C 3 = 12 \<or> C 3 = 8 \<or> C 3 = 9 \<or> 12 < C 3 \<or> C 3 = 6 \<or> C 3 = 7"
  shows "\<exists>s'. HandleCPCCommand T C n s = Inr s' \<and>
    client_flags s' =
      (if C 3 = TNCAS_SET_LINESTATE_MASK then C 4 AND 16 else lm,
       if C 3 = TNCAS_SET_MODEMSTATE_MASK then C 4 else mm,
       if C 3 = TNCAS_FLOWCONTROL_SUSPEND then False
       else if C 3 = TNCAS_FLOWCONTROL_RESUME then True else fl) \<and>
    port s' = (if C 3 = TNCAS_PURGE_DATA then SetFlush T (C 4) (port s) else port s) \<and>
    net_bytes s' = net_bytes s @
      (if C 3 = TNCAS_SET_LINESTATE_MASK then cpc_reply s TNASC_SET_LINESTATE_MASK (C 4 AND 16)
       else if C 3 = TNCAS_SET_MODEMSTATE_MASK then cpc_reply s TNASC_SET_MODEMSTATE_MASK (C 4)
       else if C 3 = TNCAS_PURGE_DATA then cpc_reply s TNASC_PURGE_DATA (C 4)
       else [])"
proof -
  have other: "12 < C 3 \<Longrightarrow> C 3 \<noteq> k" if "k \<le> 12" for k
    using that by auto
  have sent: "SendCPCByteCommand k v t = Inr ((net_put (cpc_reply t k v) t)\<lparr>EscWriteLast := v\<rparr>)"
      "net_bytes (net_put (cpc_reply t k v) t) = net_bytes t @ cpc_reply t k v"
    if "net_ok t" "net_bytes t = net_bytes s" for k v and t :: "'a sercd"
    using cpc_sent [of t k v] that assms(2) by simp_all
  have flags: "LineStateMask s = lm" "ModemStateMask s = mm" "InputFlow s = fl"
    using assms(3) by (simp_all add: client_flags_def)
  have "C 3 = 10 \<Longrightarrow> ?thesis"
    using sent [of "s\<lparr>LineStateMask := C 4 AND 16\<rparr>"] assms(1)
    by (simp add: HandleCPCCommand_def HandleMasksAndFlow_def Let_def) (simp add: client_flags_def flags)
  moreover have "C 3 = 11 \<Longrightarrow> ?thesis"
    using sent [of "s\<lparr>ModemStateMask := C 4\<rparr>"] assms(1)
    by (simp add: HandleCPCCommand_def HandleMasksAndFlow_def Let_def) (simp add: client_flags_def flags)
  moreover have "C 3 = 12 \<Longrightarrow> ?thesis"
    using sent [of "set_port (SetFlush T (C 4)) s"] assms(1,3)
    by (simp add: HandleCPCCommand_def HandleMasksAndFlow_def Let_def)
  moreover have "C 3 = 8 \<or> C 3 = 9 \<Longrightarrow> ?thesis"
    using flags by (auto simp: HandleCPCCommand_def HandleMasksAndFlow_def client_flags_def net_bytes_def)
  moreover have "C 3 = 6 \<or> C 3 = 7 \<Longrightarrow> ?thesis"
    using assms(3) by (auto simp: HandleCPCCommand_def HandleMasksAndFlow_def)
  moreover have "12 < C 3 \<Longrightarrow> ?thesis"
    using assms(3) by (simp add: HandleCPCCommand_def HandleMasksAndFlow_def other)
  ultimately show ?thesis
    using assms(4) by blast
qed

theorem masks_purge_and_flow_witness:
  "\<exists>s'. HandleCPCCommand mem_tty (command_of [255, 250, 44, 10, 0xFF, 255, 240]) 7
      (fresh_sercd LP64 sample_port) = Inr s' \<and>
    client_flags s' = (16, 255, True) \<and> net_bytes s' = [255, 250, 44, 110, 16, 255, 240]"
  using masks_purge_and_flow [of "fresh_sercd LP64 sample_port" 0 255 True
      "command_of [255, 250, 44, 10, 0xFF, 255, 240]" mem_tty 7]
  by (auto simp: command_of_def client_flags_def fresh_sercd_def sercd_globals_def net_ok_def
      net_bytes_def cpc_reply_def esc_char_def)

section \<open>An answer after a carriage return\<close>

text \<open>
  Outside binary mode, an answer sent right after a carriage return from the device gets the
  NUL that Telnet puts between the two, inside the suboption: the client reads the parameter 0 in
  place of the one sent.
\<close>

theorem answer_after_carriage_return:
  assumes "net_ok s" and "length (net_bytes s) + 8 \<le> 2047"
    and "\<not> sends_binary s" and "EscWriteLast s = 0x0D" and "v \<noteq> 0x0A" and "v \<noteq> TNIAC"
  shows "\<exists>s'. SendCPCByteCommand k v s = Inr s' \<and>
    net_bytes s' = net_bytes s @ [TNIAC, TNSB, TNCOM_PORT_OPTION, k, 0, v, TNIAC, TNSE]"
  using cpc_sent [OF assms(1,2), of k v] assms(3-6) by (simp add: cpc_reply_def esc_char_def)

theorem answer_after_carriage_return_witness:
  "\<exists>s'. SendCPCByteCommand TNASC_NOTIFY_MODEMSTATE 49
      ((fresh_sercd LP64 sample_port)\<lparr>EscWriteLast := 0x0D\<rparr>) = Inr s' \<and>
    net_bytes s' = [255, 250, 44, 107, 0, 49, 255, 240]"
proof -
  let ?s = "(fresh_sercd LP64 sample_port)\<lparr>EscWriteLast := 0x0D\<rparr>"
  have "net_ok ?s" "net_bytes ?s = []" "\<not> sends_binary ?s" "EscWriteLast ?s = 0x0D"
    by (simp_all add: sends_binary_def tn_clear_def net_ok_def net_bytes_def fresh_sercd_def
        sercd_globals_def)
  then show ?thesis
    using answer_after_carriage_return [where s = ?s and v = 49 and k = 107] by simp
qed

text \<open>
  Answers and data share the byte that was written last. Outside binary mode, an answer with the
  value 13 makes the next byte of data follow a NUL, which is then data for the client, since the byte
  before it is not a carriage return; and after a carriage return in the data the answer itself has
  the parameter 0, with its value behind it.
\<close>

theorem answer_spoils_data:
  assumes "net_ok s" and "length (net_bytes s) + 10 \<le> 2047"
    and "\<not> sends_binary s" and "c \<noteq> 0x0A" and "c \<noteq> TNIAC"
  shows "\<exists>s' s''. SendCPCByteCommand k 0x0D s = Inr s' \<and> EscWriteChar c s' = Inr s'' \<and>
    net_bytes s'' = net_bytes s @ [TNIAC, TNSB, TNCOM_PORT_OPTION, k] @
      (if EscWriteLast s = 0x0D then [0] else []) @ [0x0D, TNIAC, TNSE] @ [0, c]"
proof -
  let ?r = "[TNIAC, TNSB, TNCOM_PORT_OPTION, k] @ esc_char (sends_binary s) (EscWriteLast s) 0x0D @
    [TNIAC, TNSE]"
  let ?s = "(net_put ?r s)\<lparr>EscWriteLast := 0x0D\<rparr>"
  have fits: "length (net_bytes s) + length ?r \<le> 2045"
    using assms(2) length_esc_char [of "sends_binary s" "EscWriteLast s" "0x0D"] by simp
  then have s': "SendCPCByteCommand k 0x0D s = Inr ?s"
    using cpc_sender.send_fits [OF assms(1), of k "0x0D"] by simp
  have "net_bytes (net_put ?r s) = net_bytes s @ ?r" "net_ok (net_put ?r s)"
    using net_bytes_put [OF assms(1), of ?r] fits assms(1) by simp_all
  then have ok: "net_ok ?s" "net_bytes ?s = net_bytes s @ ?r"
      "esc_char (sends_binary ?s) (EscWriteLast ?s) c = [0, c]"
    using assms(3-5)
    by (simp_all add: net_ok_def net_bytes_def sends_binary_def esc_char_def net_put_def)
  have room: "length (net_bytes ?s) + length [0, c] \<le> 2047"
    unfolding ok(2) using fits by simp
  then have "EscWriteChar c ?s = Inr ((net_put [0, c] ?s)\<lparr>EscWriteLast := c\<rparr>)"
    using esc_writer.send_fits [OF ok(1), of c] unfolding ok(3) by blast
  moreover have "net_bytes ((net_put [0, c] ?s)\<lparr>EscWriteLast := c\<rparr>) = net_bytes s @ ?r @ [0, c]"
    using net_bytes_put [OF ok(1) room] ok(2) by (simp add: net_bytes_def net_put_def)
  ultimately show ?thesis
    using s' assms(3) by (simp add: esc_char_def)
qed

theorem answer_spoils_data_witness:
  "\<exists>s' s''. SendCPCByteCommand TNASC_SET_MODEMSTATE_MASK 0x0D (fresh_sercd LP64 sample_port) = Inr s' \<and>
    EscWriteChar 65 s' = Inr s'' \<and> net_bytes s'' = [255, 250, 44, 111, 13, 255, 240, 0, 65]"
proof -
  let ?s = "fresh_sercd LP64 sample_port"
  have "\<not> sends_binary ?s"
    by (simp add: sends_binary_def tn_clear_def)
  then show ?thesis
    using answer_spoils_data [where s = ?s and c = 65 and k = 111] by simp
qed

end
