(* ===== verification/Negotiation.thy ===== *)
theory Negotiation
  imports Command_Laws
begin

text \<open>
  The negotiation of Telnet options: the options that can be enabled, the answers to the four
  commands, and which exchanges come to rest.
\<close>

section \<open>Which options are enabled\<close>

definition supported_options :: "byte list" where
  "supported_options =
     [TN_TRANSMIT_BINARY, TN_ECHO, TN_SUPPRESS_GO_AHEAD, TNCOM_PORT_OPTION]"

definition only_supported :: "(byte \<Rightarrow> tnopt) \<Rightarrow> bool" where
  "only_supported tn \<longleftrightarrow>
     (\<forall>i. is_will (tn i) \<or> is_do (tn i) \<longrightarrow> i \<in> set supported_options)"

lemma tnstate_upd [simp]: "tnstate (upd_tn i f s) = (tnstate s)(i := f (tnstate s i))"
  by (simp add: upd_tn_def)

lemma upd_tn_simps [simp]:
  "net_ok (upd_tn i f s) = net_ok s" "net_bytes (upd_tn i f s) = net_bytes s"
  "net_put bs (upd_tn i f s) = upd_tn i f (net_put bs s)" "tnstate (net_put bs s) = tnstate s"
  by (simp_all add: upd_tn_def net_ok_def net_bytes_def net_put_def)

lemma option_sent:
  assumes "net_ok s" and "length (net_bytes s) + 3 \<le> 2047"
  shows "SendTelnetOption c opt s = Inr (net_put [TNIAC, c, opt] s)"
    and "net_bytes (net_put [TNIAC, c, opt] s) = net_bytes s @ [TNIAC, c, opt]"
proof -
  have "(net_put bs s)\<lparr>EscWriteLast := EscWriteLast s\<rparr> = net_put bs s" for bs
    by (simp add: net_put_def)
  then show "SendTelnetOption c opt s = Inr (net_put [TNIAC, c, opt] s)"
    and "net_bytes (net_put [TNIAC, c, opt] s) = net_bytes s @ [TNIAC, c, opt]"
    using option_sender.send_room [of s c opt] assms by (simp_all add: SendTelnetOption_bytes_def)
qed

lemma supported_cases:
  "opt \<in> set supported_options \<longleftrightarrow> opt = TNCOM_PORT_OPTION \<or> opt = TN_TRANSMIT_BINARY \<or>
    opt = TN_ECHO \<or> opt = TN_SUPPRESS_GO_AHEAD"
  by (auto simp: supported_options_def)

text \<open>The state after each command, in terms of the option's own record only.\<close>

definition will_state :: "bool \<Rightarrow> tnopt \<Rightarrow> tnopt" where
  "will_state on t = t\<lparr>is_do := on, sent_do := False, sent_dont := False\<rparr>"

definition do_state :: "bool \<Rightarrow> tnopt \<Rightarrow> tnopt" where
  "do_state on t = t\<lparr>is_will := on, sent_will := False, sent_wont := False\<rparr>"

lemma HandleWill_result:
  assumes "net_ok s" and "length (net_bytes s) + 3 \<le> 2047"
  shows "\<exists>s'. HandleWill opt s = Inr s' \<and> net_ok s' \<and>
    tnstate s' = (tnstate s)(opt := will_state (opt \<in> set supported_options) (tnstate s opt)) \<and>
    net_bytes s' = net_bytes s @
      (if opt \<notin> set supported_options then [TNIAC, TNDONT, opt]
       else if sent_do (tnstate s opt) then [] else [TNIAC, TNDO, opt])"
proof -
  have en: "net_ok (s\<lparr>PortControlEnable := True\<rparr>)"
      "net_bytes (s\<lparr>PortControlEnable := True\<rparr>) = net_bytes s"
    using assms(1) by (simp_all add: net_ok_def net_bytes_def)
  note sent = option_sent [OF assms] option_sent [of "s\<lparr>PortControlEnable := True\<rparr>"] en
  show ?thesis
    using assms
    by (auto simp: HandleWill_def accept_will_def supported_cases sent will_state_def fun_eq_iff)
qed

lemma HandleDo_result:
  assumes "net_ok s" and "length (net_bytes s) + 3 \<le> 2047"
  shows "\<exists>s'. HandleDo opt s = Inr s' \<and> net_ok s' \<and>
    tnstate s' = (tnstate s)(opt := do_state (opt \<in> set supported_options) (tnstate s opt)) \<and>
    net_bytes s' = net_bytes s @
      (if opt \<notin> set supported_options then [TNIAC, TNWONT, opt]
       else if sent_will (tnstate s opt) then [] else [TNIAC, TNWILL, opt])"
proof -
  have en: "net_ok (s\<lparr>PortControlEnable := True\<rparr>)"
      "net_bytes (s\<lparr>PortControlEnable := True\<rparr>) = net_bytes s"
    using assms(1) by (simp_all add: net_ok_def net_bytes_def)
  note sent = option_sent [OF assms] option_sent [of "s\<lparr>PortControlEnable := True\<rparr>"] en
  show ?thesis
    using assms
    by (auto simp: HandleDo_def accept_do_def supported_cases sent do_state_def fun_eq_iff)
qed

lemma HandleDont_result:
  assumes "net_ok s" and "length (net_bytes s) + 3 \<le> 2047"
  shows "\<exists>s'. HandleDont opt s = Inr s' \<and> net_ok s' \<and>
    tnstate s' = (tnstate s)(opt := do_state False (tnstate s opt)) \<and>
    net_bytes s' = net_bytes s @
      (if is_will (tnstate s opt) then [TNIAC, TNWONT, opt] else [])"
  using assms option_sent [OF assms] by (auto simp: HandleDont_def do_state_def fun_eq_iff)

lemma HandleWont_result:
  assumes "net_ok s" and "length (net_bytes s) + 3 \<le> 2047"
  shows "\<exists>s'. HandleWont opt s = Inr s' \<and> net_ok s' \<and>
    tnstate s' = (tnstate s)(opt := will_state False (tnstate s opt)) \<and>
    net_bytes s' = net_bytes s @
      (if is_do (tnstate s opt) then [TNIAC, TNDONT, opt] else [])"
  using assms option_sent [OF assms] by (auto simp: HandleWont_def will_state_def fun_eq_iff)

section \<open>Only supported options are enabled\<close>

text \<open>Nothing but the four negotiation commands changes the options.\<close>

definition keeps :: "('p sercd \<Rightarrow> 'v) \<Rightarrow> 'p sercd \<Rightarrow> fault + 'p sercd \<Rightarrow> bool" where
  "keeps v s r \<longleftrightarrow> (case r of Inl e \<Rightarrow> True | Inr t \<Rightarrow> v t = v s)"

lemma keeps_if: "(b \<Longrightarrow> keeps v s x) \<Longrightarrow> (\<not> b \<Longrightarrow> keeps v s y) \<Longrightarrow> keeps v s (if b then x else y)"
  by simp

lemma keeps_bind:
  assumes "keeps v s r" and "\<And>t. keeps v t (f t)"
  shows "keeps v s (bind_r r f)"
proof (cases r)
  case (Inr t)
  then show ?thesis
    using assms(1) assms(2) [of t] by (cases "f t") (simp_all add: keeps_def)
qed (simp add: keeps_def)

text \<open>
  The interface of a view of the state that the commands of Com Port Control have no effect on; with
  the second one, no command has.
\<close>

locale untouched =
  fixes v :: "'p sercd \<Rightarrow> 'v"
  assumes v_net: "v (s\<lparr>ToNetBuf := B\<rparr>) = v s" "v (s\<lparr>EscWriteLast := l\<rparr>) = v s"
    and v_flags: "v (s\<lparr>BreakSignaled := b\<rparr>) = v s" "v (s\<lparr>LineStateMask := m\<rparr>) = v s"
      "v (s\<lparr>ModemStateMask := m\<rparr>) = v s" "v (s\<lparr>InputFlow := b\<rparr>) = v s"
      "v (s\<lparr>port := p\<rparr>) = v s"
begin

lemma keeps_sends:
  "v t = v s \<Longrightarrow> keeps v s (SendCPCByteCommand c w t)"
  "v t = v s \<Longrightarrow> keeps v s (SendBaudRate b t)"
  "keeps v s (SendSignature (server_signature s) s)"
  "v t = v s \<Longrightarrow> keeps v s (Inr t)"
  "keeps v s (bind_r r (\<lambda>x. Inr s))"
  "v t = v s \<Longrightarrow> keeps v s (SendTelnetOption c opt t)"
proof -
  have net: "t = s\<lparr>ToNetBuf := B, EscWriteLast := l\<rparr> \<Longrightarrow> v t = v s" for s t B l
    by (simp only: v_net)
  note sent = cpc_sender.send_only_net [THEN net] baud_sender.send_only_net [THEN net]
    signature_sender.send_only_net [THEN net] option_sender.send_only_net [THEN net]
  show "v t = v s \<Longrightarrow> keeps v s (SendCPCByteCommand c w t)"
    "v t = v s \<Longrightarrow> keeps v s (SendBaudRate b t)"
    "keeps v s (SendSignature (server_signature s) s)" "v t = v s \<Longrightarrow> keeps v s (Inr t)"
    "keeps v s (bind_r r (\<lambda>x. Inr s))" "v t = v s \<Longrightarrow> keeps v s (SendTelnetOption c opt t)"
    by (auto simp: keeps_def bind_r_eq_Inr split: sum.splits dest: sent)
qed

lemma keeps_SetControl: "keeps v s (HandleSetControl T c s)"
  unfolding HandleSetControl_def Let_def
  by (intro keeps_if; (rule keeps_sends; simp add: set_port_def v_flags))

lemma keeps_CPC: "keeps v s (HandleCPCCommand T C n s)"
  unfolding HandleCPCCommand_def HandleMasksAndFlow_def Let_def
  by (intro keeps_if; (rule keeps_sends keeps_SetControl; simp add: set_port_def v_flags)?)

end

locale untouched_by_all = untouched +
  assumes v_options: "v (s\<lparr>tnstate := tn\<rparr>) = v s" "v (s\<lparr>PortControlEnable := b\<rparr>) = v s"
begin

lemma keeps_accept: "v t = v s \<Longrightarrow> keeps v s (accept_will i t)" "v t = v s \<Longrightarrow> keeps v s (accept_do i t)"
  unfolding accept_will_def accept_do_def
  by (auto intro!: keeps_bind keeps_if keeps_sends simp: upd_tn_def v_options)

lemma keeps_IAC: "keeps v s (HandleIACCommand T C n s)"
  unfolding HandleIACCommand_def HandleWill_def HandleDo_def HandleDont_def HandleWont_def
  by (intro keeps_if keeps_bind keeps_CPC keeps_accept keeps_sends refl;
      simp add: upd_tn_def v_options)

end

interpretation options: untouched tnstate
  by unfold_locales simp_all

interpretation device_buffer: untouched_by_all ToDevBuf
  by unfold_locales simp_all

lemma sent_options: "SendTelnetOption c opt s = Inr s' \<Longrightarrow> tnstate s' = tnstate s"
  by (rule option_sender.send_tnstate)

lemma only_supported_after:
  assumes "only_supported tn"
  shows "only_supported (tn(opt := will_state (opt \<in> set supported_options) (tn opt)))"
    and "only_supported (tn(opt := do_state (opt \<in> set supported_options) (tn opt)))"
    and "only_supported (tn(opt := do_state False (tn opt)))"
    and "only_supported (tn(opt := will_state False (tn opt)))"
  using assms by (simp_all add: only_supported_def will_state_def do_state_def)

lemma negotiation_options:
  "HandleWill opt s = Inr s' \<Longrightarrow>
    tnstate s' = (tnstate s)(opt := will_state (opt \<in> set supported_options) (tnstate s opt))"
  "HandleDo opt s = Inr s' \<Longrightarrow>
    tnstate s' = (tnstate s)(opt := do_state (opt \<in> set supported_options) (tnstate s opt))"
  "HandleDont opt s = Inr s' \<Longrightarrow>
    tnstate s' = (tnstate s)(opt := do_state False (tnstate s opt))"
  "HandleWont opt s = Inr s' \<Longrightarrow>
    tnstate s' = (tnstate s)(opt := will_state False (tnstate s opt))"
  by (auto simp: HandleWill_def HandleDo_def HandleDont_def HandleWont_def accept_will_def
      accept_do_def supported_cases will_state_def do_state_def bind_r_eq_Inr
      split: if_splits dest!: sent_options)

text \<open>
  C23. Whatever command arrives, in whatever state of the buffers, an option the program does not
  know is never enabled in either direction: the only options that can be are transmit-binary, echo,
  suppress-go-ahead and Com Port Control.
\<close>

theorem only_supported_options_enabled:
  assumes "only_supported (tnstate s)" and "HandleIACCommand T C n s = Inr s'"
  shows "only_supported (tnstate s')"
proof -
  consider "tnstate s' = tnstate s" | "HandleWill (C 2) s = Inr s'" | "HandleDo (C 2) s = Inr s'"
    | "HandleDont (C 2) s = Inr s'" | "HandleWont (C 2) s = Inr s'"
    using assms(2) options.keeps_CPC [of s T C n]
    by (auto simp: HandleIACCommand_def keeps_def split: if_splits)
  then show ?thesis
    by cases (use assms(1) in \<open>simp_all add: negotiation_options only_supported_after\<close>)
qed

theorem only_supported_options_enabled_witness:
  "\<exists>s'. HandleIACCommand mem_tty (command_of [255, 251, 31]) 3 (fresh_sercd LP64 sample_port)
      = Inr s' \<and> only_supported (tnstate s')"
proof -
  let ?s = "fresh_sercd LP64 sample_port"
  have "only_supported (tnstate ?s)"
    by (simp add: only_supported_def tn_clear_def)
  moreover obtain s' where "HandleIACCommand mem_tty (command_of [255, 251, 31]) 3 ?s = Inr s'"
    using HandleWill_result [of ?s 31] by (auto simp: HandleIACCommand_def command_of_def)
  ultimately show ?thesis
    using only_supported_options_enabled [of ?s] by blast
qed

section \<open>The answers\<close>



section \<open>Exchanges that come to rest, and one that does not\<close>

lemma each_r_inv:
  assumes "\<And>x t. x \<in> set xs \<Longrightarrow> P t \<Longrightarrow> \<exists>t'. f x t = Inr t' \<and> P t'" and "P s"
  shows "\<exists>s'. each_r f xs s = Inr s' \<and> P s'"
  using assms
proof (induction xs arbitrary: s)
  case (Cons x xs)
  then obtain t where "f x s = Inr t" "P t"
    by (meson list.set_intros(1))
  then show ?case
    using Cons.IH [of t] Cons.prems(1) by simp
qed simp

definition refused_will :: "byte \<Rightarrow> byte list \<Rightarrow> 'p sercd \<Rightarrow> bool" where
  "refused_will opt B s \<longleftrightarrow> net_ok s \<and> net_bytes s = B \<and> \<not> is_will (tnstate s opt)"

definition refused_do :: "byte \<Rightarrow> byte list \<Rightarrow> 'p sercd \<Rightarrow> bool" where
  "refused_do opt B s \<longleftrightarrow> net_ok s \<and> net_bytes s = B \<and> \<not> is_do (tnstate s opt)"

lemma refused_again:
  "refused_will opt B s \<Longrightarrow> \<exists>s'. HandleDont opt s = Inr s' \<and> refused_will opt B s'"
  "refused_do opt B s \<Longrightarrow> \<exists>s'. HandleWont opt s = Inr s' \<and> refused_do opt B s'"
  by (auto simp: refused_will_def refused_do_def HandleDont_def HandleWont_def)

lemma refused_once:
  assumes "net_ok s" and "length (net_bytes s) + 3 \<le> 2047"
  shows "\<exists>s'. HandleDont opt s = Inr s' \<and> refused_will opt
      (net_bytes s @ (if is_will (tnstate s opt) then [TNIAC, TNWONT, opt] else [])) s'"
    and "\<exists>s'. HandleWont opt s = Inr s' \<and> refused_do opt
      (net_bytes s @ (if is_do (tnstate s opt) then [TNIAC, TNDONT, opt] else [])) s'"
  using HandleDont_result [OF assms, of opt] HandleWont_result [OF assms, of opt]
  by (auto simp: refused_will_def refused_do_def do_state_def will_state_def)

lemma each_r_Suc:
  assumes "\<exists>s'. f x s = Inr s' \<and> P s'" and "\<And>t. P t \<Longrightarrow> \<exists>t'. f x t = Inr t' \<and> P t'"
  shows "\<exists>s'. each_r f (replicate (Suc k) x) s = Inr s' \<and> P s'"
proof -
  obtain t where t: "f x s = Inr t" "P t"
    using assms(1) by blast
  have "\<exists>s'. each_r f (replicate k x) t = Inr s' \<and> P s'"
    by (rule each_r_inv) (use assms(2) t(2) in auto)
  then show ?thesis
    using t(1) by simp
qed

text \<open>
  A refusal is answered at most once: however often \<open>DONT\<close> or \<open>WONT\<close> is repeated for an option,
  the answers amount to one refusal if the option was enabled and to none if it was not.
\<close>

theorem refusals_come_to_rest:
  assumes "net_ok s" and "length (net_bytes s) + 3 \<le> 2047"
  shows "(\<exists>s'. each_r HandleDont (replicate (Suc k) opt) s = Inr s' \<and> net_bytes s' = net_bytes s @
        (if is_will (tnstate s opt) then [TNIAC, TNWONT, opt] else [])) \<and>
    (\<exists>s'. each_r HandleWont (replicate (Suc k) opt) s = Inr s' \<and> net_bytes s' = net_bytes s @
        (if is_do (tnstate s opt) then [TNIAC, TNDONT, opt] else []))"
  using each_r_Suc [of HandleDont opt s, OF refused_once(1) [OF assms] refused_again(1), of k]
    each_r_Suc [of HandleWont opt s, OF refused_once(2) [OF assms] refused_again(2), of k]
  unfolding refused_will_def refused_do_def by blast

theorem refusals_come_to_rest_witness:
  "\<exists>s'. each_r HandleDont (replicate 3 0)
      ((fresh_sercd LP64 sample_port)\<lparr>tnstate := (\<lambda>i. tn_clear\<lparr>is_will := True\<rparr>)\<rparr>) = Inr s' \<and>
    net_bytes s' = [255, 252, 0]"
  using refusals_come_to_rest [of
      "(fresh_sercd LP64 sample_port)\<lparr>tnstate := (\<lambda>i. tn_clear\<lparr>is_will := True\<rparr>)\<rparr>" 2 0]
  by (simp add: net_ok_def net_bytes_def fresh_sercd_def sercd_globals_def numeral_3_eq_3)

text \<open>
  An offer to enable what is enabled already is acknowledged again, every time it is made: \<open>k\<close>
  repetitions of \<open>WILL\<close> bring \<open>k\<close> times \<open>DO\<close>, with nothing that ends the exchange.
\<close>

theorem repeated_offer_acknowledged_again:
  assumes "net_ok s" and "length (net_bytes s) + 3 * k \<le> 2047"
    and "opt \<in> set supported_options" and "is_do (tnstate s opt)" and "\<not> sent_do (tnstate s opt)"
  shows "\<exists>s'. each_r HandleWill (replicate k opt) s = Inr s' \<and>
    net_bytes s' = net_bytes s @ concat (replicate k [TNIAC, TNDO, opt])"
  using assms
proof (induction k arbitrary: s)
  case (Suc k)
  obtain t where t: "HandleWill opt s = Inr t" "net_ok t"
      "tnstate t opt = will_state True (tnstate s opt)"
      "net_bytes t = net_bytes s @ [TNIAC, TNDO, opt]"
    using HandleWill_result [of s opt] Suc.prems by auto
  show ?case
    using Suc.IH [of t] Suc.prems t by (simp add: will_state_def)
qed simp

theorem repeated_offer_acknowledged_again_witness:
  "\<exists>s'. each_r HandleWill [0, 0]
      ((fresh_sercd LP64 sample_port)\<lparr>tnstate := (\<lambda>i. tn_clear\<lparr>is_do := True\<rparr>)\<rparr>) = Inr s' \<and>
    net_bytes s' = [255, 253, 0, 255, 253, 0]"
  using repeated_offer_acknowledged_again [of
      "(fresh_sercd LP64 sample_port)\<lparr>tnstate := (\<lambda>i. tn_clear\<lparr>is_do := True\<rparr>)\<rparr>" 2 0]
  by (simp add: net_ok_def net_bytes_def fresh_sercd_def sercd_globals_def numeral_2_eq_2
      supported_options_def tn_clear_def)

section \<open>The opening of a connection\<close>

text \<open>The client's answers, each a command and an option.\<close>

definition respond :: "'p tty \<Rightarrow> byte \<times> byte \<Rightarrow> 'p sercd \<Rightarrow> fault + 'p sercd" where
  "respond T r s = HandleIACCommand T (command_of [TNIAC, fst r, snd r]) 3 s"

definition awaited :: "(byte \<Rightarrow> tnopt) \<Rightarrow> byte \<times> byte \<Rightarrow> bool" where
  "awaited tn r \<longleftrightarrow> snd r \<in> set supported_options \<and>
     (fst r = TNDO \<and> sent_will (tn (snd r)) \<or> fst r = TNWILL \<and> sent_do (tn (snd r)))"

definition granted :: "(byte \<Rightarrow> tnopt) \<Rightarrow> byte \<times> byte \<Rightarrow> bool" where
  "granted tn r \<longleftrightarrow>
     (if fst r = TNDO then is_will (tn (snd r)) else is_do (tn (snd r)))"

definition initial_options :: "byte list" where
  "initial_options =
     [TNIAC, TNWILL, TN_TRANSMIT_BINARY, TNIAC, TNDO, TN_TRANSMIT_BINARY, TNIAC, TNWILL, TN_ECHO,
      TNIAC, TNWILL, TN_SUPPRESS_GO_AHEAD, TNIAC, TNDO, TN_SUPPRESS_GO_AHEAD,
      TNIAC, TNDO, TNCOM_PORT_OPTION]"

definition acceptances :: "(byte \<times> byte) set" where
  "acceptances = {(TNDO, TN_TRANSMIT_BINARY), (TNWILL, TN_TRANSMIT_BINARY), (TNDO, TN_ECHO),
     (TNDO, TN_SUPPRESS_GO_AHEAD), (TNWILL, TN_SUPPRESS_GO_AHEAD), (TNWILL, TNCOM_PORT_OPTION)}"

lemma do_state_eq:
  "t\<lparr>is_will := on, sent_wont := False, sent_will := False\<rparr> = do_state on t"
  by (cases t) (simp add: do_state_def)

lemma will_state_eq:
  "t\<lparr>is_do := on, sent_dont := False, sent_do := False\<rparr> = will_state on t"
  by (cases t) (simp add: will_state_def)

lemma accepted_silently:
  assumes "awaited (tnstate s) r" and "net_ok s"
  shows "\<exists>s'. respond T r s = Inr s' \<and> net_ok s' \<and> net_bytes s' = net_bytes s \<and>
    tnstate s' = (tnstate s)(snd r :=
      (if fst r = TNDO then do_state True (tnstate s (snd r))
       else will_state True (tnstate s (snd r))))"
proof (cases "fst r = TNDO")
  case True
  then have h: "respond T r s = HandleDo (snd r) s"
    by (simp add: respond_def command_of_def HandleIACCommand_def)
  have "snd r \<in> set supported_options" "sent_will (tnstate s (snd r))"
    using assms(1) True by (auto simp: awaited_def)
  then show ?thesis
    using assms(2) True unfolding h supported_cases
    by (elim disjE) (simp_all add: HandleDo_def accept_do_def do_state_eq net_ok_def net_bytes_def
        upd_tn_def)
next
  case False
  then have w: "fst r = TNWILL"
    using assms(1) by (auto simp: awaited_def)
  then have h: "respond T r s = HandleWill (snd r) s"
    by (simp add: respond_def command_of_def HandleIACCommand_def)
  have "snd r \<in> set supported_options" "sent_do (tnstate s (snd r))"
    using assms(1) False by (auto simp: awaited_def)
  then show ?thesis
    using assms(2) w unfolding h supported_cases
    by (elim disjE) (simp_all add: HandleWill_def accept_will_def will_state_eq net_ok_def
        net_bytes_def upd_tn_def)
qed

lemma accepted_all:
  assumes "distinct rs" and "\<And>r. r \<in> set rs \<Longrightarrow> awaited (tnstate s) r" and "net_ok s"
  shows "\<exists>s'. each_r (respond T) rs s = Inr s' \<and> net_bytes s' = net_bytes s \<and>
    (\<forall>r. r \<in> set rs \<or> granted (tnstate s) r \<longrightarrow> granted (tnstate s') r)"
  using assms
proof (induction rs arbitrary: s)
  case (Cons r rs)
  have aw: "awaited (tnstate s) r"
    using Cons.prems(2) by simp
  obtain t where t: "respond T r s = Inr t" "net_ok t" "net_bytes t = net_bytes s"
      "tnstate t = (tnstate s)(snd r :=
        (if fst r = TNDO then do_state True (tnstate s (snd r))
         else will_state True (tnstate s (snd r))))"
    using accepted_silently [OF aw Cons.prems(3)] by blast
  have rest: "awaited (tnstate t) q" if "q \<in> set rs" for q
    using Cons.prems(1) Cons.prems(2) [of q] that aw
    by (cases q, cases r) (auto simp: awaited_def t(4) do_state_def will_state_def)
  then obtain s' where s': "each_r (respond T) rs t = Inr s'" "net_bytes s' = net_bytes t"
      "\<And>q. q \<in> set rs \<or> granted (tnstate t) q \<Longrightarrow> granted (tnstate s') q"
    using Cons.IH [OF _ rest t(2)] Cons.prems(1) by (metis distinct.simps(2))
  have "granted (tnstate t) q" if "q = r \<or> granted (tnstate s) q" for q
    using that by (cases q, cases r) (auto simp: granted_def t(4) do_state_def will_state_def)
  then show ?case
    using s' t(1,3) by auto
qed simp

lemma initial_sent:
  assumes "net_ok s" and "length (net_bytes s) + 18 \<le> 2047"
  shows "\<exists>s'. SendTelnetInitialOptions s = Inr s' \<and> net_ok s' \<and>
    net_bytes s' = net_bytes s @ initial_options \<and> (\<forall>r\<in>acceptances. awaited (tnstate s') r)"
  using assms
  by (simp add: SendTelnetInitialOptions_def option_sent net_bytes_put initial_options_def
      acceptances_def awaited_def supported_options_def)

text \<open>
  C22. The opening negotiation comes to rest: the program makes its six offers and requests, and a
  client that accepts them all, in any order, gets no further command and leaves all six enabled.
  The opening takes twice the room the macro next to it declares.
\<close>

theorem opening_comes_to_rest:
  assumes "net_ok s" and "length (net_bytes s) + 18 \<le> 2047"
    and "distinct rs" and "set rs = acceptances"
  shows "length initial_options = 2 * SendTelnetInitialOptions_bytes \<and>
    (\<exists>s1 s2. SendTelnetInitialOptions s = Inr s1 \<and> net_bytes s1 = net_bytes s @ initial_options \<and>
      each_r (respond T) rs s1 = Inr s2 \<and> net_bytes s2 = net_bytes s1 \<and>
      is_will (tnstate s2 TN_TRANSMIT_BINARY) \<and> is_do (tnstate s2 TN_TRANSMIT_BINARY) \<and>
      is_will (tnstate s2 TN_ECHO) \<and> is_will (tnstate s2 TN_SUPPRESS_GO_AHEAD) \<and>
      is_do (tnstate s2 TN_SUPPRESS_GO_AHEAD) \<and> is_do (tnstate s2 TNCOM_PORT_OPTION))"
proof -
  obtain s1 where s1: "SendTelnetInitialOptions s = Inr s1" "net_ok s1"
      "net_bytes s1 = net_bytes s @ initial_options" "\<forall>r\<in>acceptances. awaited (tnstate s1) r"
    using initial_sent [OF assms(1,2)] by blast
  obtain s2 where s2: "each_r (respond T) rs s1 = Inr s2" "net_bytes s2 = net_bytes s1"
      "\<forall>r\<in>acceptances. granted (tnstate s2) r"
    using accepted_all [OF assms(3) _ s1(2), of T] s1(4) assms(4) by blast
  have "length initial_options = 2 * SendTelnetInitialOptions_bytes"
    by (simp add: initial_options_def SendTelnetInitialOptions_bytes_def SendTelnetOption_bytes_def)
  then show ?thesis
    using s1(1,3) s2 by (auto simp: acceptances_def granted_def)
qed

theorem opening_comes_to_rest_witness:
  "\<exists>s1 s2. SendTelnetInitialOptions (fresh_sercd ILP32 sample_port) = Inr s1 \<and>
    each_r (respond mem_tty) [(TNWILL, TNCOM_PORT_OPTION), (TNDO, 0), (TNWILL, 0), (TNDO, 1),
      (TNDO, 3), (TNWILL, 3)] s1 = Inr s2 \<and> net_bytes s2 = net_bytes s1 \<and> is_will (tnstate s2 0)"
  using opening_comes_to_rest [of "fresh_sercd ILP32 sample_port"
      "[(TNWILL, TNCOM_PORT_OPTION), (TNDO, 0), (TNWILL, 0), (TNDO, 1), (TNDO, 3), (TNWILL, 3)]"
      mem_tty]
  by (auto simp: acceptances_def)

end
