(* ===== verification/Telnet_Receive.thy ===== *)
theory Telnet_Receive
  imports Command_Laws
begin

text \<open>
  The receiver (\<open>sercd.c\<close> lines 469 to 611): \<open>EscRedirectChar\<close> takes one byte from the network, passes
  data on to the device buffer and collects commands in \<open>IACCommand\<close>. One definition per state of the
  machine; the indices into \<open>IACCommand\<close> are checked, so that a write past its end would be a fault.
\<close>

section \<open>The state machine\<close>

text \<open>\<open>IACCommand[IACPos] = C; IACPos++;\<close>, and the same under \<open>IACPos < sizeof(IACCommand)\<close>.\<close>

definition put_cmd :: "byte \<Rightarrow> 'p sercd \<Rightarrow> fault + 'p sercd" where
  "put_cmd C s =
     (if IACPos s < IACCommand_size
      then Inr (s\<lparr>IACCommand := (IACCommand s)(IACPos s := C), IACPos := IACPos s + 1\<rparr>)
      else Inl OutOfBoundsWrite)"

definition put_sig :: "byte \<Rightarrow> 'p sercd \<Rightarrow> fault + 'p sercd" where
  "put_sig C s = (if IACPos s < IACCommand_size then put_cmd C s else Inr s)"

text \<open>The command collected so far is complete.\<close>

definition finish_command :: "'p tty \<Rightarrow> 'p sercd \<Rightarrow> fault + 'p sercd" where
  "finish_command T s =
     bind_r (HandleIACCommand T (IACCommand s) (IACPos s) s)
       (\<lambda>s. Inr (s\<lparr>IACEscape := IACNormal\<rparr>))"

definition receive_normal :: "byte \<Rightarrow> 'p sercd \<Rightarrow> fault + 'p sercd" where
  "receive_normal C s =
     (if C = TNIAC then Inr (s\<lparr>IACEscape := IACReceived\<rparr>)
      else if \<not> is_do (tnstate s TN_TRANSMIT_BINARY) \<and> C = 0x00 \<and> EscRedirectLast s = 0x0D
      then Inr s
      else AddToDev C s)"

definition receive_iac :: "byte \<Rightarrow> 'p sercd \<Rightarrow> fault + 'p sercd" where
  "receive_iac C s =
     (if C = TNIAC then bind_r (AddToDev C s) (\<lambda>s. Inr (s\<lparr>IACEscape := IACNormal\<rparr>))
      else Inr (s\<lparr>IACCommand := (IACCommand s)(0 := TNIAC, 1 := C), IACPos := 2,
                  IACEscape := IACComReceiving, IACSigEscape := IACNormal\<rparr>))"

definition receive_signature :: "'p tty \<Rightarrow> byte \<Rightarrow> 'p sercd \<Rightarrow> fault + 'p sercd" where
  "receive_signature T C s =
     (case IACSigEscape s of
        IACNormal \<Rightarrow>
          if C = TNIAC then Inr (s\<lparr>IACSigEscape := IACReceived\<rparr>) else put_sig C s
      | IACComReceiving \<Rightarrow> Inr (s\<lparr>IACSigEscape := IACNormal\<rparr>)
      | IACReceived \<Rightarrow>
          if C = TNIAC then bind_r (put_sig C s) (\<lambda>s. Inr (s\<lparr>IACSigEscape := IACNormal\<rparr>))
          else bind_r (put_sig TNIAC s) (\<lambda>s. bind_r (put_sig C s) (finish_command T)))"

definition receive_until :: "nat \<Rightarrow> 'p tty \<Rightarrow> byte \<Rightarrow> 'p sercd \<Rightarrow> fault + 'p sercd" where
  "receive_until n T C s =
     bind_r (put_cmd C s) (\<lambda>s. if IACPos s = n then finish_command T s else Inr s)"

definition receive_command :: "'p tty \<Rightarrow> byte \<Rightarrow> 'p sercd \<Rightarrow> fault + 'p sercd" where
  "receive_command T C s =
     (if IACCommand s 1 = TNSB then
        (if IACPos s < 4 then put_cmd C s
         else if IACCommand s 3 = TNCAS_SIGNATURE then receive_signature T C s
         else if IACCommand s 3 = TNCAS_SET_BAUDRATE then receive_until 10 T C s
         else if IACCommand s 3 = TNCAS_FLOWCONTROL_SUSPEND \<or>
                 IACCommand s 3 = TNCAS_FLOWCONTROL_RESUME then receive_until 6 T C s
         else receive_until 7 T C s)
      else receive_until 3 T C s)"

definition EscRedirectChar :: "'p tty \<Rightarrow> byte \<Rightarrow> 'p sercd \<Rightarrow> fault + 'p sercd" where
  "EscRedirectChar T C s =
     bind_r (case IACEscape s of
               IACNormal \<Rightarrow> receive_normal C s
             | IACReceived \<Rightarrow> receive_iac C s
             | IACComReceiving \<Rightarrow> receive_command T C s)
       (\<lambda>s. Inr (s\<lparr>EscRedirectLast := C\<rparr>))"

definition EscRedirectChar_bytes_SockB :: "abi \<Rightarrow> nat" where
  "EscRedirectChar_bytes_SockB a = HandleIACCommand_bytes a"

definition EscRedirectChar_bytes_DevB :: nat where
  "EscRedirectChar_bytes_DevB = 1"

section \<open>The invariant of the receiver\<close>

text \<open>The length of a suboption whose third byte is \<open>k\<close>, for those of a fixed length.\<close>

definition frame_length :: "byte \<Rightarrow> nat" where
  "frame_length k =
     (if k = TNCAS_SET_BAUDRATE then 10
      else if k = TNCAS_FLOWCONTROL_SUSPEND \<or> k = TNCAS_FLOWCONTROL_RESUME then 6 else 7)"

lemma frame_length_bounds: "6 \<le> frame_length k" "frame_length k \<le> 10"
  by (simp_all add: frame_length_def)

lemma receive_command_eq:
  "receive_command T C s =
     (if IACCommand s 1 = TNSB then
        (if IACPos s < 4 then put_cmd C s
         else if IACCommand s 3 = TNCAS_SIGNATURE then receive_signature T C s
         else receive_until (frame_length (IACCommand s 3)) T C s)
      else receive_until 3 T C s)"
  by (simp add: receive_command_def frame_length_def)

definition rx_inv :: "'p sercd \<Rightarrow> bool" where
  "rx_inv s \<longleftrightarrow>
     (IACEscape s = IACComReceiving \<longrightarrow> IACSigEscape s \<noteq> IACComReceiving \<and> 2 \<le> IACPos s \<and>
       (if IACCommand s 1 \<noteq> TNSB then IACPos s = 2
        else if IACPos s < 4 then True
        else if IACCommand s 3 = TNCAS_SIGNATURE then IACPos s \<le> IACCommand_size
        else IACPos s < frame_length (IACCommand s 3)))"

text \<open>
  What one byte may do: add up to 516 bytes to the network buffer and one to the device buffer; the
  connection and everything the main loop keeps are left alone.
\<close>

definition base_kept :: "'p sercd \<Rightarrow> 'p sercd \<Rightarrow> bool" where
  "base_kept s s' \<longleftrightarrow>
     sizeof_long s' = sizeof_long s \<and> CiscoIOSCompatible s' = CiscoIOSCompatible s \<and>
     DeviceName s' = DeviceName s \<and> DeviceFd s' = DeviceFd s \<and> InSocketFd s' = InSocketFd s \<and>
     OutSocketFd s' = OutSocketFd s \<and> LSocketFd s' = LSocketFd s \<and>
     readbuf s' = readbuf s \<and> ModemState s' = ModemState s \<and>
     InitialPortSettings s' = InitialPortSettings s \<and> LastPoll s' = LastPoll s \<and>
     trace s' = trace s"

definition receives :: "bool \<Rightarrow> 'p sercd \<Rightarrow> fault + 'p sercd \<Rightarrow> bool" where
  "receives Q s r \<longleftrightarrow>
     (case r of
        Inl e \<Rightarrow> e = OutOfBoundsRead \<and> Q
      | Inr s' \<Rightarrow> bufs_ok s' \<and> rx_inv s' \<and> base_kept s s' \<and>
          (\<exists>bs ds. length bs \<le> 516 \<and> length ds \<le> 1 \<and>
            net_bytes s' = net_bytes s @ bs \<and> dev_bytes s' = dev_bytes s @ ds))"

lemma base_kept_trans: "base_kept s s' \<Longrightarrow> base_kept s' s'' \<Longrightarrow> base_kept s s''"
  by (simp add: base_kept_def)

lemma kept_base: "kept s s' \<Longrightarrow> base_kept s s'"
  by (simp add: kept_def base_kept_def)

lemma receives_pre:
  assumes "receives Q s1 r" and "base_kept s s1"
    and "ToNetBuf s1 = ToNetBuf s" and "ToDevBuf s1 = ToDevBuf s"
  shows "receives Q s r"
  using assms(1) base_kept_trans [OF assms(2)] assms(3,4)
  by (cases r) (auto simp: receives_def net_bytes_def dev_bytes_def)

lemma receives_mono: "receives Q s r \<Longrightarrow> (Q \<Longrightarrow> Q') \<Longrightarrow> receives Q' s r"
  by (cases r) (auto simp: receives_def)

lemma receives_silent:
  assumes "bufs_ok s" and "rx_inv s'" and "base_kept s s'"
    and "ToNetBuf s' = ToNetBuf s" and "ToDevBuf s' = ToDevBuf s"
  shows "receives Q s (Inr s')"
  using assms
  by (auto simp: receives_def bufs_ok_def net_ok_def dev_ok_def net_bytes_def dev_bytes_def)

lemma receives_last:
  "receives Q s r \<Longrightarrow> receives Q s (bind_r r (\<lambda>s. Inr (s\<lparr>EscRedirectLast := C\<rparr>)))"
  by (cases r) (auto simp: receives_def bufs_ok_def net_ok_def dev_ok_def net_bytes_def
      dev_bytes_def rx_inv_def base_kept_def)

lemma finish_receives:
  assumes "bufs_ok s" and "length (net_bytes s) + 516 \<le> 2047"
    and "IACCommand s 1 = TNSB \<Longrightarrow> 6 \<le> IACPos s" and "IACPos s \<le> 255"
  shows "receives (unterminated (IACCommand s) (IACPos s)) s (finish_command T s)"
proof -
  have "net_ok s"
    using assms(1) by (simp add: bufs_ok_def)
  note h = HandleIACCommand_handles [where T = T and C = "IACCommand s", OF this assms(2-4)]
  show ?thesis
  proof (cases "HandleIACCommand T (IACCommand s) (IACPos s) s")
    case (Inl e)
    then show ?thesis
      using h by (simp add: finish_command_def receives_def handles_def)
  next
    case (Inr t)
    then obtain bs where "net_ok t" "kept s t" "length bs \<le> 516" "net_bytes t = net_bytes s @ bs"
      using h by (auto simp: handles_def)
    then show ?thesis
      using Inr assms(1)
      by (auto simp: finish_command_def receives_def bufs_ok_def net_ok_def dev_ok_def
          net_bytes_def dev_bytes_def rx_inv_def base_kept_def kept_def)
  qed
qed

text \<open>A byte stored in \<open>IACCommand\<close>.\<close>

definition stored :: "byte \<Rightarrow> 'p sercd \<Rightarrow> 'p sercd" where
  "stored C s = s\<lparr>IACCommand := (IACCommand s)(IACPos s := C), IACPos := IACPos s + 1\<rparr>"

lemma put_cmd_stored: "IACPos s < 255 \<Longrightarrow> put_cmd C s = Inr (stored C s)"
  by (simp add: put_cmd_def IACCommand_size_def stored_def)

lemma put_sig_stored: "put_sig C s = Inr (if IACPos s < 255 then stored C s else s)"
  by (simp add: put_sig_def put_cmd_stored IACCommand_size_def)

lemma stored_simps [simp]:
  "IACCommand (stored C s) = (IACCommand s)(IACPos s := C)" "IACPos (stored C s) = IACPos s + 1"
  "ToNetBuf (stored C s) = ToNetBuf s" "ToDevBuf (stored C s) = ToDevBuf s"
  "net_bytes (stored C s) = net_bytes s" "dev_bytes (stored C s) = dev_bytes s"
  "bufs_ok (stored C s) = bufs_ok s" "base_kept s (stored C s)"
  "IACEscape (stored C s) = IACEscape s" "IACSigEscape (stored C s) = IACSigEscape s"
  "tnstate (stored C s) = tnstate s" "EscRedirectLast (stored C s) = EscRedirectLast s"
  by (simp_all add: stored_def net_bytes_def dev_bytes_def bufs_ok_def net_ok_def dev_ok_def
      base_kept_def)

lemma base_kept_refl [simp]: "base_kept s s"
  by (simp add: base_kept_def)

definition sig_overrun :: "'p sercd \<Rightarrow> bool" where
  "sig_overrun s \<longleftrightarrow> IACEscape s = IACComReceiving \<and> IACSigEscape s = IACReceived \<and>
     IACCommand s 1 = TNSB \<and> IACCommand s 3 = TNCAS_SIGNATURE \<and>
     (\<forall>j. 4 \<le> j \<longrightarrow> j < IACPos s \<longrightarrow> IACCommand s j \<noteq> 0)"

lemma receive_until_receives:
  assumes "bufs_ok s" and "length (net_bytes s) + 516 \<le> 2047" and "rx_inv s"
    and "IACEscape s = IACComReceiving" and "IACPos s < n" and "n \<le> 10"
    and "IACCommand s 1 = TNSB \<Longrightarrow> 4 \<le> IACPos s \<and> IACCommand s 3 \<noteq> TNCAS_SIGNATURE \<and>
      n = frame_length (IACCommand s 3)"
    and "IACCommand s 1 \<noteq> TNSB \<Longrightarrow> n = 3"
  shows "receives False s (receive_until n T C s)"
proof -
  have put: "put_cmd C s = Inr (stored C s)"
    using assms(5,6) by (simp add: put_cmd_stored)
  have two: "2 \<le> IACPos s"
    using assms(3,4) by (simp add: rx_inv_def)
  show ?thesis
  proof (cases "IACPos s + 1 = n")
    case True
    have "receives (unterminated (IACCommand (stored C s)) (IACPos (stored C s))) (stored C s)
        (finish_command T (stored C s))"
      by (rule finish_receives)
        (use assms two True frame_length_bounds(1) [of "IACCommand s 3"] in auto)
    then have "receives False (stored C s) (finish_command T (stored C s))"
      by (rule receives_mono) (use assms(7) two in \<open>auto simp: unterminated_def split: if_splits\<close>)
    then show ?thesis
      using True by (auto simp: receive_until_def put intro: receives_pre)
  next
    case False
    then have "rx_inv (stored C s)"
      using assms(3-8) two by (auto simp: rx_inv_def)
    then show ?thesis
      using assms(1) False by (simp add: receive_until_def put receives_silent)
  qed
qed

lemma receive_signature_receives:
  assumes "bufs_ok s" and "length (net_bytes s) + 516 \<le> 2047" and "rx_inv s"
    and "IACEscape s = IACComReceiving" and "4 \<le> IACPos s"
    and "IACCommand s 1 = TNSB" and "IACCommand s 3 = TNCAS_SIGNATURE"
  shows "receives (sig_overrun s) s (receive_signature T C s)"
proof -
  have pos: "IACPos s \<le> 255" "IACSigEscape s \<noteq> IACComReceiving"
    using assms(3-7) by (simp_all add: rx_inv_def IACCommand_size_def)
  let ?s1 = "if IACPos s < 255 then stored TNIAC s else s"
  let ?s2 = "if IACPos ?s1 < 255 then stored C ?s1 else ?s1"
  have inv: "rx_inv (s\<lparr>IACSigEscape := v\<rparr>)" if "v \<noteq> IACComReceiving" for v
    using assms(3-7) that by (simp add: rx_inv_def)
  have put: "rx_inv (stored c s)" if "IACPos s < 255" for c
    using assms(3-7) that by (auto simp: rx_inv_def IACCommand_size_def)
  have put_esc: "rx_inv ((stored c s)\<lparr>IACSigEscape := IACNormal\<rparr>)" if "IACPos s < 255" for c
    using assms(3-7) that by (auto simp: rx_inv_def IACCommand_size_def)
  show ?thesis
  proof (cases "IACSigEscape s = IACReceived \<and> C \<noteq> TNIAC")
    case True
    have ok: "bufs_ok ?s2" "net_bytes ?s2 = net_bytes s" "6 \<le> IACPos ?s2" "IACPos ?s2 \<le> 255"
      using assms(1,5) pos(1) by simp_all
    have same: "base_kept s ?s2" "ToNetBuf ?s2 = ToNetBuf s" "ToDevBuf ?s2 = ToDevBuf s"
      by (simp_all add: base_kept_def stored_def)
    have over: "sig_overrun s" if "unterminated (IACCommand ?s2) (IACPos ?s2)"
    proof -
      have "IACCommand s j \<noteq> 0" if j: "4 \<le> j" "j < IACPos s" for j
      proof -
        have "IACCommand ?s2 j = IACCommand s j"
          using j by simp
        then show ?thesis
          using \<open>unterminated _ _\<close> j pos(1) unfolding unterminated_def by fastforce
      qed
      then show ?thesis
        using True assms(4,6,7) by (simp add: sig_overrun_def)
    qed
    have "receives (unterminated (IACCommand ?s2) (IACPos ?s2)) ?s2 (finish_command T ?s2)"
      by (rule finish_receives) (use ok assms(2) in simp_all)
    then have "receives (sig_overrun s) s (finish_command T ?s2)"
      using over same by (blast intro: receives_pre receives_mono)
    then show ?thesis
      using True by (simp add: receive_signature_def put_sig_stored)
  next
    case False
    then show ?thesis
      using pos assms(1,3) inv put put_esc
      by (cases "IACSigEscape s")
        (auto simp: receive_signature_def put_sig_stored base_kept_def stored_def
          intro!: receives_silent)
  qed
qed

lemma AddToDev_receives:
  assumes "bufs_ok s" and "length (dev_bytes s) + 1 \<le> 2047"
  shows "AddToDev C s = Inr (dev_put [C] s)" and "bufs_ok (dev_put [C] s)"
    and "dev_bytes (dev_put [C] s) = dev_bytes s @ [C]" and "net_bytes (dev_put [C] s) = net_bytes s"
    and "base_kept s (dev_put [C] s)"
  using assms
  by (simp_all add: bufs_ok_def AddToDev_eq dev_bytes_put)
    (simp_all add: dev_put_def net_ok_def net_bytes_def base_kept_def)

lemma EscRedirectChar_receives:
  assumes "bufs_ok s" and "rx_inv s"
    and "length (net_bytes s) + 516 \<le> 2047" and "length (dev_bytes s) + 1 \<le> 2047"
  shows "receives (sig_overrun s) s (EscRedirectChar T C s)"
  unfolding EscRedirectChar_def
proof (rule receives_last)
  note dev = AddToDev_receives [OF assms(1,4)]
  have normal: "receives Q s (receive_normal C s)" if "IACEscape s \<noteq> IACComReceiving" for Q
    using assms(1) that dev
    by (auto simp: receive_normal_def rx_inv_def base_kept_def receives_def bufs_ok_def net_ok_def
        dev_ok_def net_bytes_def dev_bytes_def dev_put_def)
  have iac: "receives Q s (receive_iac C s)" for Q
    using assms(1) dev
    by (auto simp: receive_iac_def rx_inv_def base_kept_def receives_def bufs_ok_def net_ok_def
        dev_ok_def net_bytes_def dev_bytes_def dev_put_def)
  have com: "receives (sig_overrun s) s (receive_command T C s)"
    if com: "IACEscape s = IACComReceiving"
  proof -
    have early: "receives Q s (put_cmd C s)" if "IACPos s < 4" "IACCommand s 1 = TNSB" for Q
    proof -
      have "rx_inv (stored C s)"
        using assms(2) com that frame_length_bounds(1) [of C]
          frame_length_bounds(1) [of "IACCommand s 3"]
        by (auto simp: rx_inv_def IACCommand_size_def)
      then show ?thesis
        using assms(1) that by (simp add: put_cmd_stored receives_silent)
    qed
    have until: "receives False s (receive_until n T C s)"
      if "if IACCommand s 1 = TNSB then 4 \<le> IACPos s \<and> IACCommand s 3 \<noteq> TNCAS_SIGNATURE \<and>
          n = frame_length (IACCommand s 3) else n = 3" for n
      by (rule receive_until_receives)
        (use assms com that frame_length_bounds(2) [of "IACCommand s 3"] in
          \<open>auto simp: rx_inv_def split: if_splits\<close>)
    show ?thesis
      unfolding receive_command_eq
      using early receive_signature_receives [OF assms(1,3,2) com]
        receives_mono [OF until] by auto
  qed
  show "receives (sig_overrun s) s (case IACEscape s of IACNormal \<Rightarrow> receive_normal C s
      | IACReceived \<Rightarrow> receive_iac C s | IACComReceiving \<Rightarrow> receive_command T C s)"
    using normal iac com by (cases "IACEscape s") simp_all
qed

text \<open>
  C7. One byte from the network, taken with the room the receiver declares, keeps the receiver's
  invariant and both buffers in order, adds at most 516 bytes to the network buffer and one to the
  device buffer, and touches nothing of the connection. The one other outcome is a read past the end
  of \<open>IACCommand\<close>, when a client signature ends and no byte of it is a NUL.
\<close>

theorem receiver_within_room:
  assumes "bufs_ok s" and "rx_inv s"
    and "length (net_bytes s) + EscRedirectChar_bytes_SockB (sizeof_long s) \<le> 2047"
    and "length (dev_bytes s) + EscRedirectChar_bytes_DevB \<le> 2047"
  shows "receives (sig_overrun s) s (EscRedirectChar T C s)"
  using EscRedirectChar_receives [OF assms(1,2)] assms(3,4)
  by (simp add: EscRedirectChar_bytes_SockB_def EscRedirectChar_bytes_DevB_def)

lemma bufs_ok_fresh [simp]: "bufs_ok (fresh_sercd a p)"
  by (simp add: bufs_ok_def)

lemma rx_inv_fresh [simp]: "rx_inv (fresh_sercd a p)"
  by (simp add: rx_inv_def fresh_sercd_def sercd_globals_def)

theorem receiver_within_room_witness:
  "receives False (fresh_sercd LP64 sample_port)
    (EscRedirectChar mem_tty 65 (fresh_sercd LP64 sample_port))"
proof -
  have "\<not> sig_overrun (fresh_sercd LP64 sample_port)"
    by (simp add: sig_overrun_def fresh_sercd_def sercd_globals_def)
  then show ?thesis
    using receiver_within_room [of "fresh_sercd LP64 sample_port" mem_tty 65]
    by (simp add: EscRedirectChar_bytes_SockB_def EscRedirectChar_bytes_DevB_def)
qed

section \<open>Transparency\<close>

text \<open>A receiver between commands, in step with a sender of the given mode and last byte.\<close>

definition in_step :: "bool \<Rightarrow> byte \<Rightarrow> 'p sercd \<Rightarrow> bool" where
  "in_step bin prev r \<longleftrightarrow> dev_ok r \<and> IACEscape r = IACNormal \<and>
     is_do (tnstate r TN_TRANSMIT_BINARY) = bin \<and> EscRedirectLast r = prev"

lemma char_received:
  assumes "in_step bin prev r" and "length (dev_bytes r) < 2047"
  shows "\<exists>r'. each_r (EscRedirectChar T) (esc_char bin prev c) r = Inr r' \<and> in_step bin c r' \<and>
    dev_bytes r' = dev_bytes r @ [c] \<and> net_bytes r' = net_bytes r"
proof -
  have add: "AddToDev d r' = Inr (dev_put [d] r')"
      if "ToDevBuf r' = ToDevBuf r" for r' d
    using that assms by (simp add: AddToDev_eq in_step_def dev_ok_def dev_bytes_def)
  show ?thesis
    using assms
    by (auto simp: esc_char_def EscRedirectChar_def receive_normal_def receive_iac_def add
        in_step_def dev_put_def dev_ok_def dev_bytes_def net_bytes_def contents_append)
qed

lemma bytes_received:
  "in_step bin prev r \<Longrightarrow> length (dev_bytes r) + length cs \<le> 2047 \<Longrightarrow>
    \<exists>r'. each_r (EscRedirectChar T) (esc_bytes bin prev cs) r = Inr r' \<and>
      in_step bin (esc_last prev cs) r' \<and> dev_bytes r' = dev_bytes r @ cs \<and>
      net_bytes r' = net_bytes r"
proof (induction cs arbitrary: prev r)
  case (Cons c cs)
  have "length (dev_bytes r) < 2047"
    using Cons.prems(2) by simp
  then obtain t where t: "each_r (EscRedirectChar T) (esc_char bin prev c) r = Inr t"
      "in_step bin c t" "dev_bytes t = dev_bytes r @ [c]" "net_bytes t = net_bytes r"
    using char_received [OF Cons.prems(1)] by blast
  obtain r' where "each_r (EscRedirectChar T) (esc_bytes bin c cs) t = Inr r'"
      "in_step bin (esc_last c cs) r'" "dev_bytes r' = dev_bytes t @ cs"
      "net_bytes r' = net_bytes t"
    using Cons.IH [OF t(2)] t(3) Cons.prems(2) by auto
  then show ?case
    using t by (simp add: each_r_append)
qed simp

text \<open>
  Data goes through unchanged: what \<open>EscWriteChar\<close> puts on the network for any bytes, IAC and
  carriage returns among them, in binary mode or not, \<open>EscRedirectChar\<close> of a receiver in the same mode
  turns back into the same bytes for its device, and the two remain in step.
\<close>

theorem data_passes_unchanged:
  assumes "net_ok s" and "net_bytes s = []" and "2 * length cs \<le> 2047"
    and "in_step (sends_binary s) (EscWriteLast s) r"
    and "length (dev_bytes r) + length cs \<le> 2047"
  shows "\<exists>s' r'. each_r EscWriteChar cs s = Inr s' \<and>
    each_r (EscRedirectChar T) (net_bytes s') r = Inr r' \<and>
    dev_bytes r' = dev_bytes r @ cs \<and> net_bytes r' = net_bytes r \<and>
    in_step (sends_binary s') (EscWriteLast s') r'"
proof -
  let ?out = "esc_bytes (sends_binary s) (EscWriteLast s) cs"
  let ?s' = "(net_put ?out s)\<lparr>EscWriteLast := esc_last (EscWriteLast s) cs\<rparr>"
  have room: "length (net_bytes s) + length ?out \<le> 2047"
    using assms(2,3) length_esc_bytes [of "sends_binary s" "EscWriteLast s" cs] by simp
  have "each_r EscWriteChar cs s = Inr ?s'"
    using assms(1) room by (simp add: EscWriteChar_all_eq AddToNet_all set_last_def)
  moreover have "net_bytes ?s' = ?out"
    using net_bytes_put [OF assms(1) room] assms(2) by (simp add: net_bytes_def)
  moreover have "sends_binary ?s' = sends_binary s"
    by (simp add: sends_binary_def net_put_def)
  ultimately show ?thesis
    using bytes_received [OF assms(4,5), of T] by auto
qed

theorem data_passes_unchanged_witness:
  "\<exists>s' r'. each_r EscWriteChar [65, 13, 66, 255, 13, 0] (fresh_sercd LP64 sample_port) = Inr s' \<and>
    each_r (EscRedirectChar mem_tty) (net_bytes s') (fresh_sercd LP64 sample_port) = Inr r' \<and>
    dev_bytes r' = [65, 13, 66, 255, 13, 0]"
proof -
  let ?s = "fresh_sercd LP64 sample_port"
  have "in_step (sends_binary ?s) (EscWriteLast ?s) ?s"
    by (simp add: in_step_def sends_binary_def tn_clear_def)
      (simp add: fresh_sercd_def sercd_globals_def)
  then show ?thesis
    using data_passes_unchanged [of ?s "[65, 13, 66, 255, 13, 0]" ?s mem_tty] by auto
qed

section \<open>Commands\<close>

text \<open>The receiver with \<open>bs\<close> collected.\<close>

definition overlay :: "byte list \<Rightarrow> (nat \<Rightarrow> byte) \<Rightarrow> nat \<Rightarrow> byte" where
  "overlay bs m i = (if i < length bs then bs ! i else m i)"

definition collecting :: "byte list \<Rightarrow> byte \<Rightarrow> 'p sercd \<Rightarrow> 'p sercd" where
  "collecting bs c r = r\<lparr>
     IACEscape := IACComReceiving, IACSigEscape := IACNormal, EscRedirectLast := c,
     IACCommand := overlay bs (IACCommand r), IACPos := length bs\<rparr>"

lemma overlay_two: "m(0 := a, Suc 0 := b) = overlay [a, b] m"
  by (auto simp: fun_eq_iff overlay_def less_Suc_eq)

lemma overlay_snoc: "(overlay bs m)(length bs := c) = overlay (bs @ [c]) m"
  by (auto simp: fun_eq_iff overlay_def nth_append less_Suc_eq)

lemma overlay_nth [simp]: "i < length bs \<Longrightarrow> overlay bs m i = bs ! i"
  by (simp add: overlay_def)

lemma collecting_simps [simp]:
  "IACEscape (collecting bs c r) = IACComReceiving"
  "IACSigEscape (collecting bs c r) = IACNormal"
  "IACCommand (collecting bs c r) = overlay bs (IACCommand r)"
  "IACPos (collecting bs c r) = length bs" "EscRedirectLast (collecting bs c r) = c"
  by (simp_all add: collecting_def)

lemma two_collected:
  assumes "IACEscape r = IACNormal" and "c \<noteq> TNIAC"
  shows "each_r (EscRedirectChar T) [TNIAC, c] r = Inr (collecting [TNIAC, c] c r)"
  using assms by (cases r)
    (simp add: EscRedirectChar_def receive_normal_def receive_iac_def collecting_def overlay_two)

lemma stored_collecting:
  "(stored c (collecting bs d r))\<lparr>EscRedirectLast := c\<rparr> = collecting (bs @ [c]) c r"
  by (cases r) (simp add: stored_def collecting_def overlay_snoc)

text \<open>
  The length at which a suboption is complete, from its third byte on, and the prefixes that are not.
\<close>

definition incomplete :: "byte list \<Rightarrow> bool" where
  "incomplete bs \<longleftrightarrow> 2 \<le> length bs \<and> bs ! 1 = TNSB \<and>
     (length bs < 4 \<or> bs ! 3 \<noteq> TNCAS_SIGNATURE \<and> length bs + 1 < frame_length (bs ! 3))"

lemma one_collected:
  assumes "incomplete bs"
  shows "EscRedirectChar T c (collecting bs d r) = Inr (collecting (bs @ [c]) c r)"
proof -
  have len: "length bs < 255"
    using assms frame_length_bounds(2) [of "bs ! 3"] by (auto simp: incomplete_def)
  have "receive_command T c (collecting bs d r) = Inr (stored c (collecting bs d r))"
    using assms len
    by (auto simp: receive_command_eq incomplete_def receive_until_def put_cmd_stored)
  then show ?thesis
    by (simp add: EscRedirectChar_def stored_collecting)
qed

lemma all_collected:
  assumes "\<And>k. k < length cs \<Longrightarrow> incomplete (bs @ take k cs)"
  shows "each_r (EscRedirectChar T) cs (collecting bs d r) =
    Inr (collecting (bs @ cs) (esc_last d cs) r)"
  using assms
proof (induction cs arbitrary: bs d)
  case (Cons c cs)
  have "incomplete (bs @ [c] @ take k cs)" if "k < length cs" for k
    using Cons.prems [of "Suc k"] that by simp
  then show ?case
    using Cons.IH [of "bs @ [c]" c] one_collected [of bs T c d r] Cons.prems [of 0] by simp
qed simp

lemma stored_last: "stored c (collecting bs d r) = collecting (bs @ [c]) d r"
  by (cases r) (simp add: stored_def collecting_def overlay_snoc)

text \<open>The byte that completes a command of fixed length.\<close>

lemma last_collected:
  assumes "2 \<le> length bs" and "length bs < 255"
    and "if bs ! 1 = TNSB then 4 \<le> length bs \<and> bs ! 3 \<noteq> TNCAS_SIGNATURE \<and>
      length bs + 1 = frame_length (bs ! 3) else length bs = 2"
  shows "EscRedirectChar T c (collecting bs d r) =
    bind_r (HandleIACCommand T (overlay (bs @ [c]) (IACCommand r)) (length bs + 1)
        (collecting (bs @ [c]) d r))
      (\<lambda>s. Inr (s\<lparr>IACEscape := IACNormal, EscRedirectLast := c\<rparr>))"
  using assms
  by (auto simp: EscRedirectChar_def receive_command_eq receive_until_def put_cmd_stored
      stored_last finish_command_def bind_r_assoc split: if_splits)

lemma frame_collected:
  assumes "IACEscape r = IACNormal" and "k \<noteq> TNCAS_SIGNATURE" and "length ps + 6 = frame_length k"
  shows "each_r (EscRedirectChar T) ([TNIAC, TNSB, opt, k] @ ps @ [x, y]) r =
    bind_r (HandleIACCommand T
        (overlay ([TNIAC, TNSB, opt, k] @ ps @ [x, y]) (IACCommand r)) (frame_length k)
        (collecting ([TNIAC, TNSB, opt, k] @ ps @ [x, y]) x r))
      (\<lambda>s. Inr (s\<lparr>IACEscape := IACNormal, EscRedirectLast := y\<rparr>))"
proof -
  let ?pre = "[opt, k] @ ps @ [x]"
  have "incomplete ([TNIAC, TNSB] @ take j ?pre)" if "j < length ?pre" for j
    using that assms(2,3)
    by (cases j; cases "j - 1") (auto simp: incomplete_def)
  then have "each_r (EscRedirectChar T) ?pre (collecting [TNIAC, TNSB] TNSB r) =
      Inr (collecting ([TNIAC, TNSB] @ ?pre) (esc_last TNSB ?pre) r)"
    by (rule all_collected)
  moreover have "each_r (EscRedirectChar T) [TNIAC, TNSB] r = Inr (collecting [TNIAC, TNSB] TNSB r)"
    using assms(1) by (rule two_collected) simp
  moreover have "esc_last TNSB ?pre = x"
    by (simp add: esc_last_def)
  ultimately have pre: "each_r (EscRedirectChar T) ([TNIAC, TNSB] @ ?pre) r =
      Inr (collecting ([TNIAC, TNSB] @ ?pre) x r)"
    by (simp only: each_r_append [of _ "[TNIAC, TNSB]"] bind_r_simps)
  have "EscRedirectChar T y (collecting ([TNIAC, TNSB] @ ?pre) x r) =
      bind_r (HandleIACCommand T
        (overlay (([TNIAC, TNSB] @ ?pre) @ [y]) (IACCommand r)) (length ([TNIAC, TNSB] @ ?pre) + 1)
        (collecting (([TNIAC, TNSB] @ ?pre) @ [y]) x r))
      (\<lambda>s. Inr (s\<lparr>IACEscape := IACNormal, EscRedirectLast := y\<rparr>))"
    by (rule last_collected)
      (use assms(2,3) frame_length_bounds(2) [of k] in \<open>auto simp: eval_nat_numeral\<close>)
  moreover have "[TNIAC, TNSB, opt, k] @ ps @ [x, y] = ([TNIAC, TNSB] @ ?pre) @ [y]"
    by simp
  moreover have "frame_length k = length ([TNIAC, TNSB] @ ?pre) + 1"
    using assms(3) by simp
  ultimately show ?thesis
    using pre by (simp only: each_r_append [of _ _ "[y]"] bind_r_simps each_r.simps bind_r_Inr each_r_fun)
qed

text \<open>
  A suboption of fixed length is recognised by its length alone: after six, seven or ten bytes,
  as its third byte has it, \<open>HandleIACCommand\<close> runs on exactly those bytes, and the receiver is
  between commands again. What the last two of them are is not looked at.
\<close>

theorem suboptions_end_by_length:
  assumes "IACEscape r = IACNormal" and "k \<noteq> TNCAS_SIGNATURE" and "length ps + 6 = frame_length k"
  shows "each_r (EscRedirectChar T) ([TNIAC, TNSB, opt, k] @ ps @ [x, y]) r =
    bind_r (HandleIACCommand T
        (overlay ([TNIAC, TNSB, opt, k] @ ps @ [x, y]) (IACCommand r)) (frame_length k)
        (collecting ([TNIAC, TNSB, opt, k] @ ps @ [x, y]) x r))
      (\<lambda>s. Inr (s\<lparr>IACEscape := IACNormal, EscRedirectLast := y\<rparr>))"
  using assms by (rule frame_collected)

theorem suboptions_end_by_length_witness:
  "each_r (EscRedirectChar mem_tty) [255, 250, 44, 2, 8, 7, 9] (fresh_sercd LP64 sample_port)
    = bind_r (HandleIACCommand mem_tty
          (overlay [255, 250, 44, 2, 8, 7, 9] (IACCommand (fresh_sercd LP64 sample_port))) 7
          (collecting [255, 250, 44, 2, 8, 7, 9] 7 (fresh_sercd LP64 sample_port)))
        (\<lambda>s. Inr (s\<lparr>IACEscape := IACNormal, EscRedirectLast := 9\<rparr>))"
proof -
  have "IACEscape (fresh_sercd LP64 sample_port) = IACNormal"
    by (simp add: fresh_sercd_def sercd_globals_def)
  then show ?thesis
    using suboptions_end_by_length [of "fresh_sercd LP64 sample_port" 2 "[8]" mem_tty 44 7 9]
    by (simp add: frame_length_def)
qed

lemma frame_handled:
  assumes "bufs_ok r" and "IACEscape r = IACNormal" and "length (net_bytes r) + 516 \<le> 2047"
    and "k \<noteq> TNCAS_SIGNATURE" and "length ps + 6 = frame_length k"
  shows "\<exists>r'. each_r (EscRedirectChar T) ([TNIAC, TNSB, opt, k] @ ps @ [x, y]) r = Inr r' \<and>
    IACEscape r' = IACNormal \<and> EscRedirectLast r' = y \<and> bufs_ok r' \<and>
    dev_bytes r' = dev_bytes r \<and>
    (\<exists>bs. length bs \<le> 516 \<and> net_bytes r' = net_bytes r @ bs)"
proof -
  let ?bs = "[TNIAC, TNSB, opt, k] @ ps @ [x, y]"
  let ?C = "overlay ?bs (IACCommand r)" and ?r = "collecting ?bs x r"
  have "length ?bs = frame_length k"
    using assms(5) by simp
  then have "\<not> unterminated ?C (frame_length k)"
    using assms(4) by (simp add: unterminated_def)
  moreover have "handles 516 (unterminated ?C (frame_length k)) ?r
      (HandleIACCommand T ?C (frame_length k) ?r)"
    by (rule HandleIACCommand_handles)
      (use assms frame_length_bounds [of k] in
        \<open>simp_all add: collecting_def bufs_ok_def net_ok_def net_bytes_def\<close>)
  ultimately obtain t where "HandleIACCommand T ?C (frame_length k) ?r = Inr t" "net_ok t"
      "kept ?r t" "\<exists>bs. length bs \<le> 516 \<and> net_bytes t = net_bytes ?r @ bs"
    by (auto simp: handles_def split: sum.splits)
  then show ?thesis
    using assms(1)
    unfolding frame_collected [OF assms(2,4,5)]
    by (auto simp: collecting_def kept_def bufs_ok_def net_ok_def dev_ok_def net_bytes_def
        dev_bytes_def)
qed

text \<open>
  A parameter 255, which the client must double, ends a suboption one byte early: the closing
  240 is taken for data and written to the device.
\<close>

theorem doubled_parameter_leaks:
  assumes "bufs_ok r" and "IACEscape r = IACNormal"
    and "length (net_bytes r) + 516 \<le> 2047" and "length (dev_bytes r) < 2047"
    and "k \<notin> {TNCAS_SIGNATURE, TNCAS_SET_BAUDRATE, TNCAS_FLOWCONTROL_SUSPEND,
      TNCAS_FLOWCONTROL_RESUME}"
  shows "\<exists>r'. each_r (EscRedirectChar T)
      [TNIAC, TNSB, TNCOM_PORT_OPTION, k, 255, 255, TNIAC, TNSE] r = Inr r' \<and>
    IACEscape r' = IACNormal \<and> dev_bytes r' = dev_bytes r @ [TNSE]"
proof -
  have "length [255 :: byte] + 6 = frame_length k"
    using assms(5) by (simp add: frame_length_def)
  then obtain t where t: "each_r (EscRedirectChar T)
        ([TNIAC, TNSB, TNCOM_PORT_OPTION, k] @ [255] @ [255, TNIAC]) r = Inr t"
      "IACEscape t = IACNormal" "bufs_ok t" "dev_bytes t = dev_bytes r"
    using frame_handled [OF assms(1-3), of k "[255]" T TNCOM_PORT_OPTION 255 TNIAC] assms(5) by auto
  have "EscRedirectChar T TNSE t = Inr ((dev_put [TNSE] t)\<lparr>EscRedirectLast := TNSE\<rparr>)"
    using t(2) AddToDev_receives(1) [OF t(3), of TNSE] t(4) assms(4)
    by (simp add: EscRedirectChar_def receive_normal_def)
  moreover have "IACEscape (dev_put [TNSE] t) = IACNormal"
    using t(2) by (simp add: dev_put_def)
  moreover have "dev_bytes (dev_put [TNSE] t) = dev_bytes r @ [TNSE]"
    using AddToDev_receives(3) [OF t(3)] t(4) assms(4) by simp
  moreover have "[TNIAC, TNSB, TNCOM_PORT_OPTION, k, 255, 255, TNIAC, TNSE] =
      ([TNIAC, TNSB, TNCOM_PORT_OPTION, k] @ [255] @ [255, TNIAC]) @ [TNSE]"
    by simp
  ultimately show ?thesis
    using t(1)
    by (simp only: each_r_append [of _ _ "[TNSE]"] bind_r_simps each_r.simps)
      (simp add: dev_bytes_def)
qed

theorem doubled_parameter_leaks_witness:
  "\<exists>r'. each_r (EscRedirectChar mem_tty) [255, 250, 44, 11, 255, 255, 255, 240]
      (fresh_sercd LP64 sample_port) = Inr r' \<and> dev_bytes r' = [240]"
proof -
  have "IACEscape (fresh_sercd LP64 sample_port) = IACNormal"
    by (simp add: fresh_sercd_def sercd_globals_def)
  then show ?thesis
    using doubled_parameter_leaks [of "fresh_sercd LP64 sample_port" 11 mem_tty] by auto
qed

text \<open>
  A Telnet command of two bytes (no operation, break, are you there, and the rest) is taken for
  one of three: the byte that follows it, data or not, is dropped.
\<close>

theorem two_byte_command_takes_three:
  assumes "IACEscape r = IACNormal" and "c \<notin> {TNIAC, TNSB, TNWILL, TNDO, TNDONT, TNWONT}"
  shows "\<exists>r'. each_r (EscRedirectChar T) [TNIAC, c, d] r = Inr r' \<and> IACEscape r' = IACNormal \<and>
    dev_bytes r' = dev_bytes r \<and> net_bytes r' = net_bytes r \<and> tnstate r' = tnstate r"
proof -
  have "each_r (EscRedirectChar T) [TNIAC, c, d] r =
      bind_r (each_r (EscRedirectChar T) [TNIAC, c] r) (each_r (EscRedirectChar T) [d])"
    using each_r_append [of "EscRedirectChar T" "[TNIAC, c]" "[d]" r] by simp
  also have "\<dots> = EscRedirectChar T d (collecting [TNIAC, c] c r)"
    using two_collected [OF assms(1), of c T] assms(2) by (simp add: each_r_fun)
  also have "\<dots> = bind_r (HandleIACCommand T (overlay [TNIAC, c, d] (IACCommand r)) 3
        (collecting [TNIAC, c, d] c r))
      (\<lambda>s. Inr (s\<lparr>IACEscape := IACNormal, EscRedirectLast := d\<rparr>))"
    using last_collected [of "[TNIAC, c]" T d c r] assms(2) by (simp add: numeral_3_eq_3)
  finally show ?thesis
    using assms(2)
    by (simp add: HandleIACCommand_def collecting_def dev_bytes_def net_bytes_def)
qed

theorem two_byte_command_takes_three_witness:
  "\<exists>r'. each_r (EscRedirectChar mem_tty) [255, 246, 65] (fresh_sercd LP64 sample_port) = Inr r' \<and>
    dev_bytes r' = []"
proof -
  have "IACEscape (fresh_sercd LP64 sample_port) = IACNormal"
    by (simp add: fresh_sercd_def sercd_globals_def)
  then show ?thesis
    using two_byte_command_takes_three [of "fresh_sercd LP64 sample_port" 246 mem_tty 65] by auto
qed

section \<open>The signature of the client\<close>

text \<open>What \<open>IACCommand\<close> keeps of a command that may be too long for it.\<close>

lemma sig_stored:
  "length bs \<le> 255 \<Longrightarrow> (if length bs < 255 then stored c (collecting bs d r) else collecting bs d r)
    = collecting (take 255 (bs @ [c])) d r"
  by (simp add: stored_last)

definition in_signature :: "byte list \<Rightarrow> bool" where
  "in_signature bs \<longleftrightarrow>
     4 \<le> length bs \<and> length bs \<le> 255 \<and> bs ! 1 = TNSB \<and> bs ! 3 = TNCAS_SIGNATURE"

lemma in_signature_clip: "in_signature bs \<Longrightarrow> in_signature (take 255 (bs @ cs))"
  by (auto simp: in_signature_def nth_append min_def)

lemma take_take_append: "take n (take n xs @ ys) = take n (xs @ ys)"
  by (cases "length xs \<le> n") simp_all

lemma sig_char_collected:
  assumes "in_signature bs" and "c \<noteq> TNIAC"
  shows "EscRedirectChar T c (collecting bs d r) = Inr (collecting (take 255 (bs @ [c])) c r)"
proof -
  have "receive_command T c (collecting bs d r) = Inr (collecting (take 255 (bs @ [c])) d r)"
    using assms sig_stored [of bs c d r]
    by (simp add: receive_command_eq receive_signature_def put_sig_stored in_signature_def)
  then show ?thesis
    by (simp add: EscRedirectChar_def) (simp add: collecting_def)
qed

lemma sig_chars_collected:
  "in_signature bs \<Longrightarrow> TNIAC \<notin> set cs \<Longrightarrow>
    each_r (EscRedirectChar T) cs (collecting bs d r) =
      Inr (collecting (take 255 (bs @ cs)) (esc_last d cs) r)"
proof (induction cs arbitrary: bs d)
  case Nil
  then show ?case
    by (simp add: in_signature_def)
next
  case (Cons c cs)
  have "take 255 (take 255 (bs @ [c]) @ cs) = take 255 (bs @ c # cs)"
    using take_take_append [of 255 "bs @ [c]" cs] by simp
  then show ?case
    using Cons.IH [OF in_signature_clip [OF Cons.prems(1)], of "[c]" c] Cons.prems
    by (simp add: sig_char_collected)
qed

text \<open>After the IAC that may close the signature.\<close>

definition closing :: "byte list \<Rightarrow> 'p sercd \<Rightarrow> 'p sercd" where
  "closing bs r = (collecting bs TNIAC r)\<lparr>IACSigEscape := IACReceived\<rparr>"

lemma closing_simps [simp]:
  "IACEscape (closing bs r) = IACComReceiving" "IACSigEscape (closing bs r) = IACReceived"
  "IACCommand (closing bs r) = overlay bs (IACCommand r)" "IACPos (closing bs r) = length bs"
  by (simp_all add: closing_def)

lemma put_sig_closing:
  assumes "length bs \<le> 255"
  shows "put_sig c (closing bs r) = Inr (closing (take 255 (bs @ [c])) r)"
proof -
  have "stored c (closing bs r) = closing (bs @ [c]) r"
    by (cases r) (simp add: closing_def stored_def collecting_def overlay_snoc)
  then show ?thesis
    using assms by (simp add: put_sig_stored)
qed

lemma sig_end_collected:
  assumes "in_signature bs" and "c \<noteq> TNIAC"
  shows "each_r (EscRedirectChar T) [TNIAC, c] (collecting bs d r) =
    bind_r (HandleIACCommand T (overlay (take 255 (bs @ [TNIAC, c])) (IACCommand r))
        (length (take 255 (bs @ [TNIAC, c]))) (closing (take 255 (bs @ [TNIAC, c])) r))
      (\<lambda>s. Inr (s\<lparr>IACEscape := IACNormal, EscRedirectLast := c\<rparr>))"
proof -
  let ?bs = "take 255 (bs @ [TNIAC, c])"
  have iac: "EscRedirectChar T TNIAC (collecting bs d r) = Inr (closing bs r)"
    using assms(1)
    by (simp add: EscRedirectChar_def receive_command_eq receive_signature_def in_signature_def)
      (simp add: collecting_def closing_def)
  have len: "length bs \<le> 255" "length (take 255 (bs @ [TNIAC])) \<le> 255"
    using assms(1) by (auto simp: in_signature_def min_def)
  have "receive_signature T c (closing bs r) = finish_command T (closing ?bs r)"
    using assms(2) put_sig_closing [OF len(1), of TNIAC r] put_sig_closing [OF len(2), of c r]
      take_take_append [of 255 "bs @ [TNIAC]" "[c]"]
    unfolding receive_signature_def by (simp del: take_append)
  then have "EscRedirectChar T c (closing bs r) =
      bind_r (finish_command T (closing ?bs r)) (\<lambda>s. Inr (s\<lparr>EscRedirectLast := c\<rparr>))"
    using assms(1) by (simp add: EscRedirectChar_def receive_command_eq in_signature_def)
  then show ?thesis
    using iac by (simp add: finish_command_def bind_r_assoc each_r_fun del: take_append)
qed

lemma sig_received:
  assumes "IACEscape r = IACNormal" and "TNIAC \<notin> set sig" and "c \<noteq> TNIAC"
  shows "each_r (EscRedirectChar T)
      ([TNIAC, TNSB, opt, TNCAS_SIGNATURE] @ sig @ [TNIAC, c]) r =
    (let bs = take 255 ([TNIAC, TNSB, opt, TNCAS_SIGNATURE] @ sig @ [TNIAC, c])
     in bind_r (HandleIACCommand T (overlay bs (IACCommand r)) (length bs) (closing bs r))
       (\<lambda>s. Inr (s\<lparr>IACEscape := IACNormal, EscRedirectLast := c\<rparr>)))"
proof -
  let ?h = "[TNIAC, TNSB, opt, TNCAS_SIGNATURE]"
  let ?m = "take 255 (?h @ sig)"
  have "incomplete ([TNIAC, TNSB] @ take k [opt, TNCAS_SIGNATURE])"
    if "k < length [opt, TNCAS_SIGNATURE]" for k
    using that by (auto simp: incomplete_def)
  then have "each_r (EscRedirectChar T) [opt, TNCAS_SIGNATURE] (collecting [TNIAC, TNSB] TNSB r) =
      Inr (collecting ?h TNCAS_SIGNATURE r)"
    using all_collected [of "[opt, TNCAS_SIGNATURE]" "[TNIAC, TNSB]" T TNSB r] by simp
  moreover have "each_r (EscRedirectChar T) [TNIAC, TNSB] r = Inr (collecting [TNIAC, TNSB] TNSB r)"
    using assms(1) by (rule two_collected) simp
  moreover have "?h = [TNIAC, TNSB] @ [opt, TNCAS_SIGNATURE]"
    by simp
  ultimately have head: "each_r (EscRedirectChar T) ?h r = Inr (collecting ?h TNCAS_SIGNATURE r)"
    by (simp only: each_r_append bind_r_simps)
  have h: "in_signature ?h"
    by (simp add: in_signature_def)
  have mid: "each_r (EscRedirectChar T) sig (collecting ?h TNCAS_SIGNATURE r) =
      Inr (collecting ?m (esc_last TNCAS_SIGNATURE sig) r)"
    by (rule sig_chars_collected [OF h assms(2)])
  have "take 255 (?m @ [TNIAC, c]) = take 255 (?h @ sig @ [TNIAC, c])"
    using take_take_append [of 255 "?h @ sig" "[TNIAC, c]"] by simp
  then show ?thesis
    using head mid sig_end_collected [where T = T, OF in_signature_clip [OF h, of sig] assms(3)]
    by (simp only: each_r_append bind_r_simps Let_def)
qed

lemma signature_outcome:
  assumes "C 1 = TNSB" and "C 2 = TNCOM_PORT_OPTION" and "C 3 = TNCAS_SIGNATURE"
    and "is_do (tnstate s TNCOM_PORT_OPTION)" and "net_ok s" and "6 \<le> n" and "n \<le> 255"
  shows "HandleIACCommand T C n s = Inl OutOfBoundsRead \<longleftrightarrow>
    n \<noteq> 6 \<and> (\<forall>j. 4 \<le> j \<longrightarrow> j < 255 \<longrightarrow> C j \<noteq> 0)"
proof -
  have "SendSignature (server_signature s) s \<noteq> Inl OutOfBoundsRead"
    using signature_sender.send_outcome [OF assms(5)] by auto
  moreover have "HandleIACCommand T C n s =
      (if n = 6 then SendSignature (server_signature s) s
       else bind_r (client_signature (sizeof_long s) C n) (\<lambda>SigStr. Inr s))"
    using assms(1-4) by (simp add: HandleIACCommand_def HandleCPCCommand_def HandleMasksAndFlow_def)
  ultimately show ?thesis
    using client_signature_Inl [OF assms(6,7), of "sizeof_long s" C OutOfBoundsRead]
    by (simp add: bind_r_eq_Inl)
qed

text \<open>The array after a signature without NULs is without NULs to its end if the signature is long.\<close>

lemma signature_fills:
  fixes sig :: "byte list" and A :: "nat \<Rightarrow> byte"
  defines "h \<equiv> [TNIAC, TNSB, TNCOM_PORT_OPTION, TNCAS_SIGNATURE]"
  defines "bs \<equiv> take 255 (h @ sig @ [TNIAC, TNSE])"
  assumes "0 \<notin> set sig" and "\<And>i. 4 \<le> i \<Longrightarrow> A i = 0"
  shows "length bs \<noteq> 6 \<and> (\<forall>j. 4 \<le> j \<longrightarrow> j < 255 \<longrightarrow> overlay bs A j \<noteq> 0) \<longleftrightarrow> 249 \<le> length sig"
proof -
  let ?t = "sig @ [TNIAC, TNSE]"
  have len: "length bs = min 255 (length sig + 6)"
    by (simp add: bs_def h_def)
  have nz: "overlay bs A j \<noteq> 0" if "4 \<le> j" "j < length bs" for j
  proof -
    have "overlay bs A j = ?t ! (j - 4)"
      using that len nth_append [of h ?t j]
      by (simp add: overlay_def bs_def h_def eval_nat_numeral del: take_append append.simps)
    moreover have "?t ! (j - 4) \<in> set ?t"
      by (rule nth_mem) (use that len in auto)
    ultimately show ?thesis
      using assms(3) by auto
  qed
  have past: "overlay bs A (length bs) = 0" if "length bs < 255"
    using assms(4) [of "length bs"] that len by (auto simp: overlay_def)
  show ?thesis
  proof (cases "249 \<le> length sig")
    case True
    then show ?thesis
      using nz len by simp
  next
    case False
    then have "length bs < 255" "4 \<le> length bs"
      using len by simp_all
    then show ?thesis
      using past False by blast
  qed
qed

text \<open>
  C39. A signature of 249 or more bytes none of which is a NUL makes the program read past the end of
  \<open>IACCommand\<close>, in the copy it makes for the log; a shorter one, the first since the program
  started, does not.
\<close>

theorem long_signature_overruns:
  assumes "IACEscape r = IACNormal" and "net_ok r" and "TNIAC \<notin> set sig" and "0 \<notin> set sig"
    and "\<And>i. 4 \<le> i \<Longrightarrow> IACCommand r i = 0" and "is_do (tnstate r TNCOM_PORT_OPTION)"
  shows "each_r (EscRedirectChar T)
      ([TNIAC, TNSB, TNCOM_PORT_OPTION, TNCAS_SIGNATURE] @ sig @ [TNIAC, TNSE]) r
      = Inl OutOfBoundsRead \<longleftrightarrow> 249 \<le> length sig"
proof -
  let ?h = "[TNIAC, TNSB, TNCOM_PORT_OPTION, TNCAS_SIGNATURE]" and ?t = "sig @ [TNIAC, TNSE]"
  define bs where "bs = take 255 (?h @ ?t)"
  let ?C = "overlay bs (IACCommand r)"
  have len: "length bs = min 255 (length sig + 6)"
    unfolding bs_def by simp
  have "bs ! j = (?h @ ?t) ! j" if "j < 255" for j
    unfolding bs_def using that by (rule nth_take)
  then have C: "?C 1 = TNSB" "?C 2 = TNCOM_PORT_OPTION" "?C 3 = TNCAS_SIGNATURE"
    using len by (simp_all add: overlay_def)
  have tn: "is_do (tnstate (closing bs r) TNCOM_PORT_OPTION)" "net_ok (closing bs r)"
    using assms(2,6) by (simp_all add: closing_def collecting_def net_ok_def)
  have "length bs \<noteq> 6 \<and> (\<forall>j. 4 \<le> j \<longrightarrow> j < 255 \<longrightarrow> ?C j \<noteq> 0) \<longleftrightarrow> 249 \<le> length sig"
    unfolding bs_def by (rule signature_fills) (use assms(4,5) in simp_all)
  then have "HandleIACCommand T ?C (length bs) (closing bs r) = Inl OutOfBoundsRead \<longleftrightarrow>
      249 \<le> length sig"
    using signature_outcome [OF C tn, of "length bs" T] len by simp
  moreover have eq: "each_r (EscRedirectChar T) (?h @ ?t) r =
      bind_r (HandleIACCommand T ?C (length bs) (closing bs r))
        (\<lambda>s. Inr (s\<lparr>IACEscape := IACNormal, EscRedirectLast := TNSE\<rparr>))"
    unfolding bs_def by (rule sig_received [unfolded Let_def, OF assms(1,3)]) simp
  ultimately show ?thesis
    unfolding eq bind_r_eq_Inl by simp
qed

theorem long_signature_overruns_witness:
  "each_r (EscRedirectChar mem_tty)
    ([255, 250, 44, 0] @ replicate 249 65 @ [255, 240])
    ((fresh_sercd LP64 sample_port)\<lparr>tnstate := (\<lambda>i. tn_clear\<lparr>is_do := True\<rparr>)\<rparr>)
    = Inl OutOfBoundsRead"
proof -
  let ?s = "(fresh_sercd LP64 sample_port)\<lparr>tnstate := (\<lambda>i. tn_clear\<lparr>is_do := True\<rparr>)\<rparr>"
  have "IACEscape ?s = IACNormal" "net_ok ?s" "\<And>i. IACCommand ?s i = 0"
    by (simp_all add: fresh_sercd_def sercd_globals_def net_ok_def)
  then show ?thesis
    using long_signature_overruns [of ?s "replicate 249 65" mem_tty] by simp
qed

end
