(* ===== verification/Unix_Io.thy ===== *)
theory Unix_Io
  imports Telnet_Receive Negotiation
begin

text \<open>
  The main loop's interface to the system (\<open>unix.c\<close> lines 722 to 785 and 874 to 1015): opening and
  closing the port, dropping a connection, waiting for events, and the reads and writes. What the
  system answers in one iteration of the main loop is a parameter, the record \<open>env\<close>.
\<close>

section \<open>What the system answers\<close>

text \<open>
  The result of a read or a write: a failure, with whether \<open>errno\<close> is \<open>EWOULDBLOCK\<close>, or the bytes
  there are to read and the number the system is willing to take. Neither call reports more than it
  was asked for.
\<close>

datatype read_answer = ReadFailed bool | ReadData "byte list"
datatype write_answer = WriteFailed bool | WriteTakes nat

type_synonym timeval = "int \<times> int"

record 'p env =
  line_change :: "'p \<Rightarrow> 'p"
  ready_fds :: "(int set \<times> int set) option"
  times :: "timeval \<times> timeval"
  dev_read :: read_answer
  dev_write :: write_answer
  net_write :: write_answer
  net_read :: read_answer
  accepted :: int
  opened :: int

definition read_bytes :: "read_answer \<Rightarrow> nat \<Rightarrow> byte list" where
  "read_bytes r count = (case r of ReadFailed w \<Rightarrow> [] | ReadData bs \<Rightarrow> take count bs)"

definition read_result :: "read_answer \<Rightarrow> nat \<Rightarrow> int" where
  "read_result r count = (case r of ReadFailed w \<Rightarrow> -1 | ReadData bs \<Rightarrow> int (length (take count bs)))"

definition read_would_block :: "read_answer \<Rightarrow> bool" where
  "read_would_block r = (case r of ReadFailed w \<Rightarrow> w | ReadData bs \<Rightarrow> False)"

definition write_result :: "write_answer \<Rightarrow> nat \<Rightarrow> int" where
  "write_result r count = (case r of WriteFailed w \<Rightarrow> -1 | WriteTakes n \<Rightarrow> int (min n count))"

definition write_would_block :: "write_answer \<Rightarrow> bool" where
  "write_would_block r = (case r of WriteFailed w \<Rightarrow> w | WriteTakes n \<Rightarrow> False)"

section \<open>The port\<close>

definition raw_settings :: "termios \<Rightarrow> termios" where
  "raw_settings t =
     (let t1 = cfmakeraw t;
          t2 = t1\<lparr>c_cflag := (c_cflag t1 OR HUPCL) OR CLOCAL\<rparr>
      in t2\<lparr>c_iflag := (c_iflag t2 AND NOT IGNBRK) OR BRKINT\<rparr>)"

text \<open>The boolean is whether the function returns \<open>NoError\<close>.\<close>

definition OpenPort :: "'p tty \<Rightarrow> int \<Rightarrow> 'p sercd \<Rightarrow> bool \<times> 'p sercd" where
  "OpenPort T fd s =
     (let s1 = s\<lparr>DeviceFd := Some fd\<rparr>
      in if fd = -1 then (False, s1)
         else (let s2 = s1\<lparr>InitialPortSettings := Some (tcgetattr T (port s1))\<rparr>;
                   PortSettings = tcgetattr T (port s2)
               in (True, emit (Opened fd)
                    (set_port (tcsetattr T TCSANOW (raw_settings PortSettings)) s2))))"

definition ClosePort :: "'p tty \<Rightarrow> int \<Rightarrow> 'p sercd \<Rightarrow> 'p sercd" where
  "ClosePort T fd s =
     emit (Closed fd)
       (case InitialPortSettings s of
          None \<Rightarrow> s
        | Some t \<Rightarrow> set_port (tcsetattr T TCSANOW t) s)"

definition close_fd :: "int option \<Rightarrow> 'p sercd \<Rightarrow> 'p sercd" where
  "close_fd f s = (case f of None \<Rightarrow> s | Some fd \<Rightarrow> emit (Closed fd) s)"

definition DropConnection ::
  "'p tty \<Rightarrow> int option \<Rightarrow> int option \<Rightarrow> int option \<Rightarrow> 'p sercd \<Rightarrow> 'p sercd" where
  "DropConnection T dev insock outsock s =
     close_fd outsock (close_fd insock
       (case dev of None \<Rightarrow> s | Some fd \<Rightarrow> ClosePort T fd s))"

section \<open>Waiting for events\<close>

definition timercmp_less :: "timeval \<Rightarrow> timeval \<Rightarrow> bool" where
  "timercmp_less a b \<longleftrightarrow> fst a < fst b \<or> fst a = fst b \<and> snd a < snd b"

text \<open>The event bits, and the set bits of the value \<open>SercdSelect\<close> returns.\<close>

datatype sercd_ev =
    SERCD_EV_DEVICEIN
  | SERCD_EV_DEVICEOUT
  | SERCD_EV_SOCKETOUT
  | SERCD_EV_SOCKETIN
  | SERCD_EV_SOCKETCONNECT
  | SERCD_EV_MODEMSTATE

text \<open>A descriptor is set in an \<open>fd_set\<close> before the call, and found set after it.\<close>

definition FD_SET :: "int option \<Rightarrow> int set \<Rightarrow> int set" where
  "FD_SET f S = (case f of None \<Rightarrow> S | Some fd \<Rightarrow> insert fd S)"

definition FD_ISSET :: "int option \<Rightarrow> int set \<Rightarrow> bool" where
  "FD_ISSET f S \<longleftrightarrow> (case f of None \<Rightarrow> False | Some fd \<Rightarrow> fd \<in> S)"

definition event_if :: "bool \<Rightarrow> sercd_ev \<Rightarrow> sercd_ev set" where
  "event_if b e = (if b then {e} else {})"

text \<open>
  The poll of the modem lines: the time of the last poll after this one, and whether it is due.
\<close>

definition poll_due :: "timeval \<times> timeval \<Rightarrow> int \<Rightarrow> timeval \<Rightarrow> bool \<times> timeval" where
  "poll_due t PollInterval prev =
     (let newpoll = fst t;
          prev1 = (if timercmp_less newpoll prev then (0, 0) else prev);
          newpoll1 = (fst newpoll - PollInterval div 1000, snd newpoll - PollInterval mod 1000)
      in if timercmp_less prev1 newpoll1 then (True, snd t) else (False, prev1))"

definition SercdSelect ::
  "'p env \<Rightarrow> int option \<Rightarrow> int option \<Rightarrow> int option \<Rightarrow> int option \<Rightarrow> int option \<Rightarrow> int option \<Rightarrow>
    int \<Rightarrow> 'p sercd \<Rightarrow> sercd_ev set option \<times> 'p sercd" where
  "SercdSelect E DeviceIn DeviceOut Modemstate SocketOut SocketIn SocketConnect PollInterval s =
     (case ready_fds E of
        None \<Rightarrow> (None, s)
      | Some (r, w) \<Rightarrow>
          (let InFdSet = r \<inter> FD_SET SocketConnect (FD_SET SocketIn (FD_SET DeviceIn {}));
               OutFdSet = w \<inter> FD_SET SocketOut (FD_SET DeviceOut {});
               ret = event_if (FD_ISSET DeviceIn InFdSet) SERCD_EV_DEVICEIN \<union>
                 event_if (FD_ISSET DeviceOut OutFdSet) SERCD_EV_DEVICEOUT \<union>
                 event_if (FD_ISSET SocketOut OutFdSet) SERCD_EV_SOCKETOUT \<union>
                 event_if (FD_ISSET SocketIn InFdSet) SERCD_EV_SOCKETIN \<union>
                 event_if (FD_ISSET SocketConnect InFdSet) SERCD_EV_SOCKETCONNECT
           in if Modemstate = None then (Some ret, s)
              else (let (due, prev) = poll_due (times E) PollInterval (LastPoll s)
                    in (Some (ret \<union> event_if due SERCD_EV_MODEMSTATE), s\<lparr>LastPoll := prev\<rparr>))))"

text \<open>An event is reported only for a descriptor that was passed in.\<close>

lemma SercdSelect_events:
  assumes "SercdSelect E di d m so si c pi s = (Some evs, s')"
  shows "SERCD_EV_DEVICEIN \<in> evs \<Longrightarrow> di \<noteq> None" and "SERCD_EV_DEVICEOUT \<in> evs \<Longrightarrow> d \<noteq> None"
    and "SERCD_EV_SOCKETOUT \<in> evs \<Longrightarrow> so \<noteq> None" and "SERCD_EV_SOCKETIN \<in> evs \<Longrightarrow> si \<noteq> None"
    and "SERCD_EV_SOCKETCONNECT \<in> evs \<Longrightarrow> c \<noteq> None"
    and "SERCD_EV_MODEMSTATE \<in> evs \<Longrightarrow> m \<noteq> None"
  using assms
  by (auto simp: SercdSelect_def Let_def event_if_def FD_ISSET_def
      split: option.splits if_splits prod.splits)

lemma SercdSelect_state:
  "SercdSelect E di d m so si c pi s = (r, s') \<Longrightarrow> s' = s\<lparr>LastPoll := LastPoll s'\<rparr>"
  by (auto simp: SercdSelect_def Let_def split: option.splits if_splits prod.splits)

section \<open>The port while it is open\<close>

lemma raw_cflag:
  "c_cflag (raw_settings t) = (((c_cflag t AND NOT (CSIZE OR PARENB)) OR CS8) OR HUPCL) OR CLOCAL"
  by (simp add: raw_settings_def cfmakeraw_def Let_def)

lemma raw_iflag: "c_iflag (raw_settings t) = ((c_iflag t AND NOT 0x5EB) AND NOT IGNBRK) OR BRKINT"
  by (simp add: raw_settings_def cfmakeraw_def Let_def)

lemma mask_store:
  assumes "m AND n = (n :: u32)" and "v AND n = v'"
  shows "((x AND NOT m) OR v) AND n = v'"
proof (rule bit_word_eqI)
  fix i
  assume "i < LENGTH(32)"
  then show "bit (((x AND NOT m) OR v) AND n) i = bit v' i"
    using arg_cong [OF assms(1), of "\<lambda>w. bit w i"] arg_cong [OF assms(2), of "\<lambda>w. bit w i"]
    by (auto simp: bit_simps)
qed

lemma mask_inside_clear:
  "m AND n = (n :: u32) \<Longrightarrow> (x AND NOT m) AND n = 0"
  using mask_store [of m n 0 0 x] by simp

lemma raw_masks:
  "c_cflag (raw_settings t) AND CSIZE = CS8" "c_cflag (raw_settings t) AND PARENB = 0"
  "c_cflag (raw_settings t) AND CSTOPB = c_cflag t AND CSTOPB"
  "c_iflag (raw_settings t) AND IXON = 0" "c_iflag (raw_settings t) AND IXOFF = c_iflag t AND IXOFF"
  "c_ospeed (raw_settings t) = c_ospeed t"
proof -
  define m where "m = CSIZE OR PARENB"
  define k :: u32 where "k = 0x5EB"
  have out: "HUPCL AND CSIZE = 0" "CLOCAL AND CSIZE = 0" "HUPCL AND PARENB = 0"
    "CLOCAL AND PARENB = 0" "HUPCL AND CSTOPB = 0" "CLOCAL AND CSTOPB = 0" "CS8 AND CSTOPB = 0"
    "m AND CSTOPB = 0" "BRKINT AND IXON = 0" "BRKINT AND IXOFF = 0"
    "IGNBRK AND IXON = 0" "IGNBRK AND IXOFF = 0" "k AND IXOFF = 0" "k AND IXON = IXON"
    "m AND CSIZE = CSIZE" "m AND PARENB = PARENB"
    "CS8 AND CSIZE = CS8" "CS8 AND PARENB = 0"
    by (simp_all add: m_def k_def termios_bits)
  show "c_cflag (raw_settings t) AND CSIZE = CS8" "c_cflag (raw_settings t) AND PARENB = 0"
    "c_cflag (raw_settings t) AND CSTOPB = c_cflag t AND CSTOPB"
    "c_iflag (raw_settings t) AND IXON = 0" "c_iflag (raw_settings t) AND IXOFF = c_iflag t AND IXOFF"
    unfolding raw_cflag raw_iflag m_def [symmetric] k_def [symmetric]
    by (simp_all add: out mask_store mask_other_set mask_other_clear mask_inside_clear)
  show "c_ospeed (raw_settings t) = c_ospeed t"
    by (simp add: raw_settings_def cfmakeraw_def Let_def)
qed

lemma port_restored:
  assumes "tty_faithful T" and "OpenPort T fd s = (True, s1)"
    and "InitialPortSettings s2 = InitialPortSettings s1"
  shows "tcgetattr T (port (ClosePort T fd s2)) = tcgetattr T (port s)"
proof -
  have "InitialPortSettings s1 = Some (tcgetattr T (port s))"
    using assms(2) by (auto simp: OpenPort_def Let_def emit_def set_port_def split: if_splits)
  then show ?thesis
    using assms(1,3) by (simp add: ClosePort_def emit_def set_port_def tty_faithful_def)
qed

text \<open>
  C32. Opening the port keeps its speed and stop bits, puts it into raw mode with eight data bits, no
  parity and no flow control of output by XON and XOFF, and remembers the settings found; closing it
  puts those back, whatever was set in between.
\<close>

theorem port_opened_raw_and_restored:
  assumes "tty_faithful T" and "OpenPort T fd s = (True, s1)"
    and "InitialPortSettings s2 = InitialPortSettings s1"
  shows "DeviceFd s1 = Some fd \<and>
    line_settings T (port s1) = (GetPortSpeed T (port s), 8, TNCOM_NOPARITY,
      GetPortStopSize T (port s)) \<and>
    GetPortFlowControl T (port s1) TNCOM_CMD_FLOW_REQ \<noteq> TNCOM_CMD_FLOW_XONXOFF \<and>
    tcgetattr T (port (ClosePort T fd s2)) = tcgetattr T (port s)"
proof -
  have s1: "fd \<noteq> -1" "InitialPortSettings s1 = Some (tcgetattr T (port s))" "DeviceFd s1 = Some fd"
      "tcgetattr T (port s1) = raw_settings (tcgetattr T (port s))"
    using assms(1,2)
    by (auto simp: OpenPort_def Let_def emit_def set_port_def tty_faithful_def split: if_splits)
  show ?thesis
    using s1(3) port_restored [OF assms]
    by (simp add: line_settings_def GetPortSpeed_def GetPortDataSize_def GetPortParity_def
        GetPortStopSize_def GetPortFlowControl_def Termios2TncomSpeed_def cfgetospeed_def
        Termios2TncomDataSize_def Termios2TncomParity_def Termios2TncomStopSize_def
        Termios2TncomOutFlow_def Let_def s1(4) raw_masks data_size_codes
        data_size_codes(5-10) [symmetric])
qed

theorem port_opened_raw_and_restored_witness:
  "\<exists>s1. OpenPort mem_tty 7 (fresh_sercd LP64 sample_port) = (True, s1) \<and>
    GetPortDataSize mem_tty (port s1) = 8 \<and>
    tcgetattr mem_tty (port (ClosePort mem_tty 7 s1)) = tcgetattr mem_tty sample_port"
proof -
  obtain s1 where "OpenPort mem_tty 7 (fresh_sercd LP64 sample_port) = (True, s1)"
    by (simp add: OpenPort_def Let_def)
  then show ?thesis
    using port_opened_raw_and_restored [OF mem_tty_faithful, of 7 "fresh_sercd LP64 sample_port" s1 s1]
    by (auto simp: line_settings_def)
qed

section \<open>Polling\<close>

definition DEFAULT_POLL_INTERVAL :: int where
  "DEFAULT_POLL_INTERVAL = 100"

text \<open>
  The modem lines are due for a poll once more than a hundred microseconds have passed since the
  last one: the interval, which is in milliseconds, is taken off the microseconds of the clock.
\<close>

theorem poll_interval_in_microseconds:
  assumes "0 \<le> us" and "0 \<le> d"
  shows "fst (poll_due ((sec, us + d), t2) DEFAULT_POLL_INTERVAL (sec, us)) \<longleftrightarrow> 100 < d"
  using assms by (auto simp: poll_due_def DEFAULT_POLL_INTERVAL_def timercmp_less_def)

theorem poll_interval_in_microseconds_witness:
  "fst (poll_due ((1000, 500101), (1000, 500102)) DEFAULT_POLL_INTERVAL (1000, 500000))"
  using poll_interval_in_microseconds [of 500000 101 1000 "(1000, 500102)"] by simp

end
