(* ===== verification/Main_Loop.thy ===== *)
theory Main_Loop
  imports Unix_Io
begin

text \<open>
  The main loop (\<open>sercd.c\<close> lines 1416 to 1652) and the exit entry point (lines 1655 to 1662). One
  definition per stage of an iteration, in the order of the code. A stage that drops the client runs
  \<open>continue\<close>, which skips the stages after it; a null pointer that is followed is a fault.
\<close>

section \<open>Stages\<close>

datatype 'p stage = Next "'p sercd" | Continue "'p sercd"

definition and_then ::
  "fault + 'p stage \<Rightarrow> ('p sercd \<Rightarrow> fault + 'p stage) \<Rightarrow> fault + 'p stage" where
  "and_then r f = bind_r r (\<lambda>x. case x of Next s \<Rightarrow> f s | Continue s \<Rightarrow> Inr (Continue s))"

lemma and_then_simps [simp]:
  "and_then (Inl e) f = Inl e" "and_then (Inr (Next s)) f = f s"
  "and_then (Inr (Continue s)) f = Inr (Continue s)"
  by (simp_all add: and_then_def)

definition next_r :: "fault + 'p sercd \<Rightarrow> fault + 'p stage" where
  "next_r r = bind_r r (\<lambda>s. Inr (Next s))"

definition deref :: "'a option \<Rightarrow> fault + 'a" where
  "deref p = (case p of None \<Rightarrow> Inl NullPointer | Some x \<Rightarrow> Inr x)"

definition IOResultError :: "int \<Rightarrow> bool \<Rightarrow> bool" where
  "IOResultError iobytes would_block =
     (if iobytes = -1 then \<not> would_block else iobytes = 0)"

text \<open>\<open>changeState(STATE_READY)\<close>, \<open>DropConnection\<close>, and the pointers set to \<open>NULL\<close>.\<close>

definition drop_client :: "'p tty \<Rightarrow> 'p sercd \<Rightarrow> 'p sercd" where
  "drop_client T s =
     (DropConnection T (DeviceFd s) (InSocketFd s) (OutSocketFd s)
       (emit (ChangeState STATE_READY) s))\<lparr>
         InSocketFd := None, OutSocketFd := None, DeviceFd := None\<rparr>"

definition readbuf_size :: nat where
  "readbuf_size = 512"

text \<open>
  \<open>for (i = 0; i < iobytes; i++)\<close> with an \<open>unsigned int i\<close> and an \<open>ssize_t iobytes\<close>: the comparison is
  signed where \<open>ssize_t\<close> is the wider type, and unsigned where both have 32 bits.
\<close>

definition loop_bound :: "abi \<Rightarrow> int \<Rightarrow> nat" where
  "loop_bound a iobytes =
     (case a of LP64 \<Rightarrow> nat iobytes | ILP32 \<Rightarrow> unat (word_of_int iobytes :: u32))"

function each_below :: "(nat \<Rightarrow> 's \<Rightarrow> fault + 's) \<Rightarrow> nat \<Rightarrow> nat \<Rightarrow> 's \<Rightarrow> fault + 's" where
  "each_below f i n s = (if i < n then bind_r (f i s) (\<lambda>t. each_below f (i + 1) n t) else Inr s)"
  by pat_completeness auto
termination by (relation "measure (\<lambda>(f, i, n, s). n - i)") auto

declare each_below.simps [simp del]

definition from_readbuf ::
  "(byte \<Rightarrow> 'p sercd \<Rightarrow> fault + 'p sercd) \<Rightarrow> nat \<Rightarrow> 'p sercd \<Rightarrow> fault + 'p sercd" where
  "from_readbuf f i s = (if i < readbuf_size then f (readbuf s i) s else Inl OutOfBoundsRead)"

text \<open>The bytes \<open>GetBufferString\<close> points at, read within the array.\<close>

definition string_bytes :: "BufferType \<Rightarrow> nat \<Rightarrow> fault + byte list" where
  "string_bytes B n =
     (if unat (RdPos B) + n \<le> unat BufferSize then Inr (buffer_bytes B n) else Inl OutOfBoundsRead)"

section \<open>Device input\<close>

definition device_in :: "'p tty \<Rightarrow> 'p env \<Rightarrow> 'p sercd \<Rightarrow> fault + 'p stage" where
  "device_in T E s =
     (let trybytes = min readbuf_size (unat (BufferRoomLeft (ToNetBuf s)) div EscWriteChar_bytes)
      in bind_r (deref (DeviceFd s)) (\<lambda>fd.
        let iobytes = read_result (dev_read E) trybytes;
            bs = read_bytes (dev_read E) trybytes;
            s1 = s\<lparr>readbuf := overlay bs (readbuf s)\<rparr>
        in if IOResultError iobytes (read_would_block (dev_read E))
           then Inr (Continue (drop_client T s1))
           else next_r (each_below (from_readbuf EscWriteChar) 0
             (loop_bound (sizeof_long s) iobytes) (emit (DevRead bs) s1))))"

section \<open>Device and network output\<close>

definition device_out :: "'p tty \<Rightarrow> 'p env \<Rightarrow> 'p sercd \<Rightarrow> fault + 'p stage" where
  "device_out T E s =
     (let trybytes = unat (GetBufferString (ToDevBuf s))
      in bind_r (deref (DeviceFd s)) (\<lambda>fd.
        let iobytes = write_result (dev_write E) trybytes
        in bind_r (string_bytes (ToDevBuf s) (nat iobytes)) (\<lambda>bs.
          if IOResultError iobytes (write_would_block (dev_write E))
          then Inr (Continue (drop_client T s))
          else Inr (Next (emit (DevWritten bs)
            (s\<lparr>ToDevBuf := BufferPopBytes (ToDevBuf s) (word_of_int iobytes)\<rparr>))))))"

definition socket_out :: "'p tty \<Rightarrow> 'p env \<Rightarrow> 'p sercd \<Rightarrow> fault + 'p stage" where
  "socket_out T E s =
     (let trybytes = unat (GetBufferString (ToNetBuf s))
      in bind_r (deref (OutSocketFd s)) (\<lambda>fd.
        let iobytes = write_result (net_write E) trybytes
        in bind_r (string_bytes (ToNetBuf s) (nat iobytes)) (\<lambda>bs.
          if IOResultError iobytes (write_would_block (net_write E))
          then Inr (Continue (drop_client T s))
          else Inr (Next (emit (NetWritten bs)
            (s\<lparr>ToNetBuf := BufferPopBytes (ToNetBuf s) (word_of_int iobytes)\<rparr>))))))"

section \<open>Network input\<close>

definition redirect :: "'p tty \<Rightarrow> byte \<Rightarrow> 'p sercd \<Rightarrow> fault + 'p sercd" where
  "redirect T c s = bind_r (deref (DeviceFd s)) (\<lambda>fd. EscRedirectChar T c s)"

definition socket_in :: "'p tty \<Rightarrow> 'p env \<Rightarrow> 'p sercd \<Rightarrow> fault + 'p stage" where
  "socket_in T E s =
     (let trybytes = min (min readbuf_size
            (unat (BufferRoomLeft (ToNetBuf s)) div EscRedirectChar_bytes_SockB (sizeof_long s)))
            (unat (BufferRoomLeft (ToDevBuf s)) div EscRedirectChar_bytes_DevB)
      in bind_r (deref (InSocketFd s)) (\<lambda>fd.
        let iobytes = read_result (net_read E) trybytes;
            bs = read_bytes (net_read E) trybytes;
            s1 = s\<lparr>readbuf := overlay bs (readbuf s)\<rparr>
        in if IOResultError iobytes (read_would_block (net_read E))
           then Inr (Continue (drop_client T s1))
           else next_r (each_below (from_readbuf (redirect T)) 0
             (loop_bound (sizeof_long s) iobytes) (emit (NetRead bs) s1))))"

section \<open>New connections and the port\<close>

definition SetSocketOptions :: "int \<Rightarrow> int \<Rightarrow> 'p sercd \<Rightarrow> 'p sercd" where
  "SetSocketOptions insocket outsocket s =
     fold emit
       [SocketOption insocket SO_KEEPALIVE, SocketOption insocket SO_OOBINLINE,
        SocketOption outsocket SO_KEEPALIVE, SocketOption insocket IP_TOS_LOWDELAY,
        SocketOption outsocket IP_TOS_LOWDELAY, SocketOption outsocket FIONBIO,
        SocketOption insocket FIONBIO] s"

definition socket_connect :: "'p env \<Rightarrow> 'p sercd \<Rightarrow> fault + 'p stage" where
  "socket_connect E s =
     bind_r (deref (LSocketFd s)) (\<lambda>l.
       let csock = accepted E
       in if csock < 0 then Inr (Next s)
          else if InSocketFd s \<noteq> None \<and> OutSocketFd s \<noteq> None then Inr (Next (emit (Closed csock) s))
          else (let s1 = (emit (ChangeState STATE_CONNECTED) s)\<lparr>
                      InSocketFd := Some csock, OutSocketFd := Some csock\<rparr>;
                    s2 = SetSocketOptions csock csock (emit (Accepted csock) s1);
                    s3 = InitTelnetStateMachine (s2\<lparr>ToNetBuf := InitBuffer (ToNetBuf s2)\<rparr>)
                in next_r (SendTelnetInitialOptions s3)))"

definition open_port :: "'p tty \<Rightarrow> 'p env \<Rightarrow> 'p sercd \<Rightarrow> fault + 'p stage" where
  "open_port T E s =
     (if InSocketFd s \<noteq> None \<and> OutSocketFd s \<noteq> None \<and> DeviceFd s = None then
        (case OpenPort T (opened E) s of
           (False, s1) \<Rightarrow>
             Inr (Continue ((DropConnection T None (InSocketFd s1) (OutSocketFd s1)
               (emit (ChangeState STATE_READY) s1))\<lparr>
                 InSocketFd := None, OutSocketFd := None, DeviceFd := None\<rparr>))
         | (True, s1) \<Rightarrow>
             (let s2 = emit (ChangeState STATE_PORT_OPENED) s1
              in Inr (Next (s2\<lparr>ToDevBuf := InitBuffer (ToDevBuf s2)\<rparr>))))
      else Inr (Next s))"

section \<open>Modem state\<close>

definition modem_state :: "'p tty \<Rightarrow> 'p sercd \<Rightarrow> fault + 'p stage" where
  "modem_state T s =
     bind_r (deref (DeviceFd s)) (\<lambda>fd.
       let newstate = GetModemState T (port s) (ModemState s)
       in if newstate AND ModemStateMask s AND TNCOM_MODMASK_NODELTA \<noteq>
             ModemState s AND ModemStateMask s AND TNCOM_MODMASK_NODELTA
          then (let s1 = s\<lparr>ModemState := newstate\<rparr>
                in next_r (SendCPCByteCommand TNASC_NOTIFY_MODEMSTATE
                     (ModemState s1 AND ModemStateMask s1) s1))
          else Inr (Next s))"

section \<open>An iteration\<close>

definition on :: "sercd_ev \<Rightarrow> sercd_ev set \<Rightarrow> ('p sercd \<Rightarrow> fault + 'p stage) \<Rightarrow>
    'p sercd \<Rightarrow> fault + 'p stage" where
  "on e selret f s = (if e \<in> selret then f s else Inr (Next s))"

definition handle_events ::
  "'p tty \<Rightarrow> 'p env \<Rightarrow> sercd_ev set \<Rightarrow> 'p sercd \<Rightarrow> fault + 'p stage" where
  "handle_events T E selret s =
     and_then (on SERCD_EV_DEVICEIN selret (device_in T E) s) (\<lambda>s.
     and_then (on SERCD_EV_DEVICEOUT selret (device_out T E) s) (\<lambda>s.
     and_then (on SERCD_EV_SOCKETOUT selret (socket_out T E) s) (\<lambda>s.
     and_then (on SERCD_EV_SOCKETIN selret (socket_in T E) s) (\<lambda>s.
     and_then (on SERCD_EV_SOCKETCONNECT selret (socket_connect E) s) (\<lambda>s.
     and_then (open_port T E s) (on SERCD_EV_MODEMSTATE selret (modem_state T)))))))"

text \<open>The pointers an iteration passes to \<open>SercdSelect\<close>.\<close>

definition DeviceIn :: "'p sercd \<Rightarrow> int option" where
  "DeviceIn s = (if DeviceFd s \<noteq> None \<and>
      BufferHasRoomFor (ToNetBuf s) (of_nat EscWriteChar_bytes) \<and> InputFlow s
    then DeviceFd s else None)"

definition DeviceOut :: "'p sercd \<Rightarrow> int option" where
  "DeviceOut s = (if DeviceFd s \<noteq> None \<and> \<not> IsBufferEmpty (ToDevBuf s) then DeviceFd s else None)"

definition Modemstate :: "'p sercd \<Rightarrow> int option" where
  "Modemstate s = (if DeviceFd s \<noteq> None \<and> PortControlEnable s \<and> InputFlow s \<and>
      BufferHasRoomFor (ToNetBuf s) (of_nat SendCPCByteCommand_bytes)
    then DeviceFd s else None)"

definition SocketOut :: "'p sercd \<Rightarrow> int option" where
  "SocketOut s =
     (if OutSocketFd s \<noteq> None \<and> \<not> IsBufferEmpty (ToNetBuf s) then OutSocketFd s else None)"

definition SocketIn :: "'p sercd \<Rightarrow> int option" where
  "SocketIn s = (if DeviceFd s \<noteq> None \<and>
      BufferHasRoomFor (ToDevBuf s) (of_nat EscRedirectChar_bytes_DevB) \<and> InSocketFd s \<noteq> None \<and>
      BufferHasRoomFor (ToNetBuf s) (of_nat (EscRedirectChar_bytes_SockB (sizeof_long s)))
    then InSocketFd s else None)"

text \<open>
  The body of the loop goes round again, or returns a code: \<open>exit\<close> is a macro of \<open>android.h\<close> that logs
  and returns.
\<close>

datatype 'p iteration = Again "'p sercd" | Return int "'p sercd"

definition NoError :: int where
  "NoError = 0"

definition Error :: int where
  "Error = 1"

definition main_iteration :: "'p tty \<Rightarrow> 'p env \<Rightarrow> 'p sercd \<Rightarrow> fault + 'p iteration" where
  "main_iteration T E s =
     (if DeviceIn s = None \<and> DeviceOut s = None \<and> SocketOut s = None \<and> SocketIn s = None \<and>
         LSocketFd s = None
      then Inr (Return NoError s)
      else
        (case SercdSelect E (DeviceIn s) (DeviceOut s) (Modemstate s) (SocketOut s) (SocketIn s)
             (LSocketFd s) DEFAULT_POLL_INTERVAL s of
           (None, s1) \<Rightarrow> Inr (Return Error s1)
         | (Some selret, s1) \<Rightarrow>
             if selret = {} then Inr (Again s1)
             else bind_r (handle_events T E selret s1)
               (\<lambda>x. case x of Next s2 \<Rightarrow> Inr (Again s2) | Continue s2 \<Rightarrow> Inr (Again s2))))"

text \<open>
  \<open>Java_..._SercdService_exit\<close>, called from another thread: the pointers stay as they are.
\<close>

definition SercdService_exit :: "'p tty \<Rightarrow> 'p sercd \<Rightarrow> fault + 'p sercd" where
  "SercdService_exit T s =
     (let s1 = DropConnection T (DeviceFd s) (InSocketFd s) (OutSocketFd s) s
      in bind_r (deref (LSocketFd s1)) (\<lambda>l. Inr (emit (Closed l) s1)))"

text \<open>
  The entry point up to the loop. The pointers are static and keep pointing into the frame of an
  earlier call, so that their targets are whatever the new frame holds there.
\<close>

record frame =
  frame_devicefd :: int
  frame_insocket :: int
  frame_ToDevBuf :: BufferType
  frame_ToNetBuf :: BufferType
  frame_readbuf :: "nat \<Rightarrow> byte"

definition SercdService_main ::
  "byte list \<Rightarrow> frame \<Rightarrow> int \<Rightarrow> int \<Rightarrow> int \<Rightarrow> 'p sercd \<Rightarrow> 'p iteration" where
  "SercdService_main serialport F lsocket bind_result listen_result s =
     (let s1 = s\<lparr>DeviceName := serialport,
                 DeviceFd := map_option (\<lambda>d. frame_devicefd F) (DeviceFd s),
                 InSocketFd := map_option (\<lambda>d. frame_insocket F) (InSocketFd s),
                 OutSocketFd := map_option (\<lambda>d. frame_insocket F) (OutSocketFd s),
                 ToDevBuf := frame_ToDevBuf F, ToNetBuf := frame_ToNetBuf F,
                 readbuf := frame_readbuf F\<rparr>
      in if lsocket < 0 then Return Error s1
         else (let s2 = emit (SocketOption lsocket SO_REUSEADDR) s1
               in if bind_result \<noteq> 0 then Return Error s2
                  else if listen_result < 0 then Return Error s2
                  else Again (emit (ChangeState STATE_READY) (s2\<lparr>LSocketFd := Some lsocket\<rparr>))))"

section \<open>The loop over the read buffer\<close>

lemma each_below_done [simp]: "\<not> i < n \<Longrightarrow> each_below f i n s = Inr s"
  by (subst each_below.simps) simp

lemma each_below_step:
  "i < n \<Longrightarrow> each_below f i n s = bind_r (f i s) (\<lambda>t. each_below f (i + 1) n t)"
  by (subst each_below.simps) simp

lemma each_below_inv:
  assumes "\<And>i s. i < n \<Longrightarrow> P i s \<Longrightarrow> (case f i s of Inl e \<Rightarrow> Q e | Inr t \<Rightarrow> P (i + 1) t)"
    and "P i s" and "i \<le> n"
  shows "case each_below f i n s of Inl e \<Rightarrow> Q e | Inr t \<Rightarrow> P n t"
  using assms(2,3)
proof (induction "n - i" arbitrary: i s)
  case 0
  then show ?case by simp
next
  case (Suc k)
  then have "i < n"
    by simp
  then show ?case
    using assms(1) [of i s] Suc.prems(1) Suc.hyps(1) [of "i + 1"] Suc.hyps(2)
    by (cases "f i s") (simp_all add: each_below_step)
qed

text \<open>Reading past the end of \<open>readbuf\<close> stops the loop at the latest.\<close>

lemma each_below_overrun:
  assumes "readbuf_size < n" and "i \<le> readbuf_size"
  shows "\<exists>e. each_below (from_readbuf f) i n s = Inl e"
  using assms(2)
proof (induction "readbuf_size - i" arbitrary: i s)
  case 0
  then show ?case
    using assms(1) by (simp add: each_below_step from_readbuf_def)
next
  case (Suc k)
  then have "i < n" "i < readbuf_size"
    using assms(1) by simp_all
  then show ?case
    using Suc.hyps(1) [of "i + 1"] Suc.hyps(2)
    by (cases "f (readbuf s i) s") (simp_all add: each_below_step from_readbuf_def)
qed

lemma each_below_list:
  assumes "\<And>c s t. f c s = Inr t \<Longrightarrow> readbuf t = readbuf s"
    and "length bs \<le> readbuf_size" and "\<And>j. j < length bs \<Longrightarrow> readbuf s j = bs ! j"
    and "i \<le> length bs"
  shows "each_below (from_readbuf f) i (length bs) s = each_r f (drop i bs) s"
  using assms(3,4)
proof (induction "length bs - i" arbitrary: i s)
  case 0
  then show ?case by simp
next
  case (Suc k)
  then have i: "i < length bs"
    by simp
  then have "from_readbuf f i s = f (bs ! i) s"
    using assms(2) Suc.prems(1) by (simp add: from_readbuf_def)
  moreover have "drop i bs = bs ! i # drop (i + 1) bs"
    using i by (simp add: Cons_nth_drop_Suc)
  moreover have "each_below (from_readbuf f) (i + 1) (length bs) t = each_r f (drop (i + 1) bs) t"
    if "f (bs ! i) s = Inr t" for t
    using Suc.hyps(1) [of "i + 1" t] Suc.hyps(2) Suc.prems(1) i assms(1) [OF that] by simp
  ultimately show ?case
    using i by (cases "f (bs ! i) s") (simp_all add: each_below_step)
qed

lemma loop_bound_count:
  "n \<le> readbuf_size \<Longrightarrow> loop_bound a (int n) = n"
  by (cases a) (simp_all add: loop_bound_def readbuf_size_def unsigned_of_nat take_bit_nat_eq_self)

lemma loop_bound_minus_one: "loop_bound LP64 (-1) = 0" "loop_bound ILP32 (-1) = 4294967295"
  by (simp_all add: loop_bound_def unsigned_minus_1_eq_mask mask_eq_exp_minus_1)

section \<open>The invariant of the loop\<close>

definition loop_inv :: "'p sercd \<Rightarrow> bool" where
  "loop_inv s \<longleftrightarrow>
     OutSocketFd s = InSocketFd s \<and> (DeviceFd s \<noteq> None \<longrightarrow> InSocketFd s \<noteq> None) \<and>
     (InSocketFd s \<noteq> None \<longrightarrow> net_ok s) \<and> (DeviceFd s \<noteq> None \<longrightarrow> dev_ok s) \<and> rx_inv s"

definition onward :: "'p sercd \<Rightarrow> 'p sercd \<Rightarrow> bool" where
  "onward s s' \<longleftrightarrow>
     (DeviceFd s \<noteq> None \<longrightarrow> DeviceFd s' = DeviceFd s) \<and>
     (InSocketFd s \<noteq> None \<longrightarrow> InSocketFd s' = InSocketFd s \<and> OutSocketFd s' = OutSocketFd s) \<and>
     LSocketFd s' = LSocketFd s \<and> sizeof_long s' = sizeof_long s"

definition stage_ok :: "(fault \<Rightarrow> bool) \<Rightarrow> 'p sercd \<Rightarrow> fault + 'p stage \<Rightarrow> bool" where
  "stage_ok Q s r \<longleftrightarrow>
     (case r of
        Inl e \<Rightarrow> Q e
      | Inr (Continue s') \<Rightarrow> loop_inv s'
      | Inr (Next s') \<Rightarrow> loop_inv s' \<and> onward s s')"

lemma onward_refl [simp]: "onward s s"
  by (simp add: onward_def)

lemma onward_trans: "onward s s1 \<Longrightarrow> onward s1 s2 \<Longrightarrow> onward s s2"
  unfolding onward_def by auto

lemma stage_ok_then:
  assumes "stage_ok Q s r"
    and "\<And>s'. loop_inv s' \<Longrightarrow> onward s s' \<Longrightarrow> r = Inr (Next s') \<Longrightarrow> stage_ok Q s' (f s')"
  shows "stage_ok Q s (and_then r f)"
proof (cases r)
  case (Inr x)
  show ?thesis
  proof (cases x)
    case (Next s')
    then have "loop_inv s'" "onward s s'"
      using assms(1) Inr by (simp_all add: stage_ok_def)
    then show ?thesis
      using assms(2) [of s'] Inr Next onward_trans [of s s']
      by (auto simp: stage_ok_def split: sum.splits stage.splits)
  qed (use assms(1) Inr in \<open>simp add: stage_ok_def\<close>)
qed (use assms(1) in \<open>simp add: stage_ok_def\<close>)

lemma stage_ok_on:
  assumes "loop_inv s" and "e \<in> evs \<Longrightarrow> stage_ok Q s (f s)"
  shows "stage_ok Q s (on e evs f s)"
  using assms by (simp add: on_def stage_ok_def)

lemma stage_ok_mono: "stage_ok Q s r \<Longrightarrow> (\<And>e. Q e \<Longrightarrow> Q' e) \<Longrightarrow> stage_ok Q' s r"
  by (cases r) (auto simp: stage_ok_def split: stage.splits)

lemma drop_client_inv:
  assumes "rx_inv s"
  shows "loop_inv (drop_client T s)"
proof -
  have "IACEscape (drop_client T s) = IACEscape s" "IACSigEscape (drop_client T s) = IACSigEscape s"
    "IACPos (drop_client T s) = IACPos s" "IACCommand (drop_client T s) = IACCommand s"
    by (simp_all add: drop_client_def DropConnection_def ClosePort_def close_fd_def emit_def
        set_port_def split: option.split)
  then show ?thesis
    using assms by (simp add: loop_inv_def rx_inv_def drop_client_def)
qed

section \<open>Each stage keeps the invariant\<close>

lemma IOResultError_read:
  "IOResultError (read_result r n) (read_would_block r) \<longleftrightarrow>
    r = ReadFailed False \<or> (\<exists>d. r = ReadData d \<and> take n d = [])"
  by (cases r) (auto simp: IOResultError_def read_result_def read_would_block_def min_def)

lemma read_going_on:
  assumes "\<not> IOResultError (read_result r n) (read_would_block r)"
  shows "r = ReadFailed True \<or> (\<exists>d. r = ReadData d \<and> read_bytes r n \<noteq> [] \<and>
    read_result r n = int (length (read_bytes r n)))"
  using assms unfolding IOResultError_read
  by (cases r) (auto simp: read_bytes_def read_result_def)

lemma length_read_bytes: "length (read_bytes r n) \<le> n"
  by (cases r) (simp_all add: read_bytes_def)

definition blocked :: "abi \<Rightarrow> read_answer \<Rightarrow> bool" where
  "blocked a r \<longleftrightarrow> a = ILP32 \<and> r = ReadFailed True"

lemma readbuf_update_simps [simp]:
  "net_ok (readbuf_update g s) = net_ok s" "net_bytes (readbuf_update g s) = net_bytes s"
  "dev_ok (readbuf_update g s) = dev_ok s" "dev_bytes (readbuf_update g s) = dev_bytes s"
  "rx_inv (readbuf_update g s) = rx_inv s"
  by (simp_all add: net_ok_def net_bytes_def dev_ok_def dev_bytes_def rx_inv_def)

lemma emit_simps [simp]:
  "net_ok (emit e s) = net_ok s" "net_bytes (emit e s) = net_bytes s"
  "dev_ok (emit e s) = dev_ok s" "dev_bytes (emit e s) = dev_bytes s"
  "rx_inv (emit e s) = rx_inv s" "DeviceFd (emit e s) = DeviceFd s"
  "InSocketFd (emit e s) = InSocketFd s" "OutSocketFd (emit e s) = OutSocketFd s"
  "LSocketFd (emit e s) = LSocketFd s" "sizeof_long (emit e s) = sizeof_long s"
  "readbuf (emit e s) = readbuf s" "loop_inv (emit e s) = loop_inv s"
  "onward (emit e s) t = onward s t" "onward t (emit e s) = onward t s"
  "trace (emit e s) = trace s @ [e]" "ToDevBuf (emit e s) = ToDevBuf s"
  "ToNetBuf (emit e s) = ToNetBuf s" "port (emit e s) = port s" "tnstate (emit e s) = tnstate s"
  "EscWriteLast (emit e s) = EscWriteLast s" "InputFlow (emit e s) = InputFlow s"
  by (simp_all add: emit_def net_ok_def net_bytes_def dev_ok_def dev_bytes_def rx_inv_def
      loop_inv_def onward_def)

text \<open>What \<open>EscWriteChar\<close> makes of a whole run of bytes.\<close>

lemma SetSocketOptions_simps [simp]:
  "net_ok (SetSocketOptions i j s) = net_ok s" "net_bytes (SetSocketOptions i j s) = net_bytes s"
  "dev_ok (SetSocketOptions i j s) = dev_ok s" "rx_inv (SetSocketOptions i j s) = rx_inv s"
  "DeviceFd (SetSocketOptions i j s) = DeviceFd s" "ToNetBuf (SetSocketOptions i j s) = ToNetBuf s"
  "InSocketFd (SetSocketOptions i j s) = InSocketFd s"
  "OutSocketFd (SetSocketOptions i j s) = OutSocketFd s"
  "LSocketFd (SetSocketOptions i j s) = LSocketFd s" "InputFlow (SetSocketOptions i j s) = InputFlow s"
  "sizeof_long (SetSocketOptions i j s) = sizeof_long s"
  "trace (SetSocketOptions i j s) = trace s @
    [SocketOption i SO_KEEPALIVE, SocketOption i SO_OOBINLINE, SocketOption j SO_KEEPALIVE,
     SocketOption i IP_TOS_LOWDELAY, SocketOption j IP_TOS_LOWDELAY, SocketOption j FIONBIO,
     SocketOption i FIONBIO]"
  by (simp_all add: SetSocketOptions_def)

definition escaped :: "byte list \<Rightarrow> 'p sercd \<Rightarrow> 'p sercd" where
  "escaped bs s = (net_put (esc_bytes (sends_binary s) (EscWriteLast s) bs) s)\<lparr>
     EscWriteLast := esc_last (EscWriteLast s) bs\<rparr>"

lemma EscWriteChar_run:
  assumes "net_ok s" and "length (net_bytes s) + 2 * length bs \<le> 2047"
  shows "each_r EscWriteChar bs s = Inr (escaped bs s)"
  using assms length_esc_bytes [of "sends_binary s" "EscWriteLast s" bs]
  by (simp add: EscWriteChar_all_eq AddToNet_all set_last_def escaped_def)

lemma EscWriteChar_readbuf: "EscWriteChar c s = Inr t \<Longrightarrow> readbuf t = readbuf s"
  using arg_cong [OF esc_writer.send_only_net, of c s t readbuf] by simp

lemma device_in_data:
  assumes "DeviceFd s = Some fd" and "net_ok s"
    and "\<not> IOResultError (read_result (dev_read E) n) (read_would_block (dev_read E))"
    and "n = min readbuf_size (unat (BufferRoomLeft (ToNetBuf s)) div EscWriteChar_bytes)"
    and "\<not> blocked (sizeof_long s) (dev_read E)"
  shows "device_in T E s = Inr (Next (escaped (read_bytes (dev_read E) n)
    (emit (DevRead (read_bytes (dev_read E) n))
      (s\<lparr>readbuf := overlay (read_bytes (dev_read E) n) (readbuf s)\<rparr>))))"
proof -
  let ?bs = "read_bytes (dev_read E) n"
  let ?s1 = "emit (DevRead ?bs) (s\<lparr>readbuf := overlay ?bs (readbuf s)\<rparr>)"
  have len: "length ?bs \<le> readbuf_size" "length (net_bytes s) + 2 * length ?bs \<le> 2047"
    using length_read_bytes [of "dev_read E" n] net_len_le [of s]
    unfolding assms(4) BufferRoomLeft_nat net_bytes_def EscWriteChar_bytes_def by linarith+
  have "each_below (from_readbuf EscWriteChar) 0 (loop_bound (sizeof_long s)
      (read_result (dev_read E) n)) ?s1 = Inr (escaped ?bs ?s1)"
    using read_going_on [OF assms(3)]
  proof
    assume w: "dev_read E = ReadFailed True"
    then have "sizeof_long s = LP64"
      using assms(5) by (cases "sizeof_long s") (simp_all add: blocked_def)
    then show ?thesis
      using w by (simp add: read_result_def read_bytes_def loop_bound_minus_one escaped_def)
  next
    assume "\<exists>d. dev_read E = ReadData d \<and> ?bs \<noteq> [] \<and> read_result (dev_read E) n = int (length ?bs)"
    then show ?thesis
      using each_below_list [of EscWriteChar ?bs ?s1 0] EscWriteChar_run [of ?s1 ?bs] assms(2) len
      by (auto simp: loop_bound_count EscWriteChar_readbuf)
  qed
  then show ?thesis
    using assms(1,3) unfolding assms(4) [symmetric]
    by (simp add: device_in_def deref_def next_r_def assms(4) [symmetric] Let_def)
qed

lemma escaped_simps [simp]:
  "net_ok s \<Longrightarrow> net_ok (escaped bs s)" "dev_ok (escaped bs s) = dev_ok s"
  "dev_bytes (escaped bs s) = dev_bytes s" "rx_inv (escaped bs s) = rx_inv s"
  "DeviceFd (escaped bs s) = DeviceFd s" "InSocketFd (escaped bs s) = InSocketFd s"
  "OutSocketFd (escaped bs s) = OutSocketFd s" "LSocketFd (escaped bs s) = LSocketFd s"
  "sizeof_long (escaped bs s) = sizeof_long s" "trace (escaped bs s) = trace s"
  "ModemState (escaped bs s) = ModemState s" "port (escaped bs s) = port s"
  by (simp_all add: escaped_def net_ok_def net_put_def dev_ok_def dev_bytes_def rx_inv_def)

lemma blocked_bound:
  assumes "blocked a r"
  shows "loop_bound a (read_result r n) = 4294967295"
    and "\<not> IOResultError (read_result r n) (read_would_block r)"
  using assms
  by (auto simp: blocked_def read_result_def loop_bound_minus_one IOResultError_def
      read_would_block_def)

lemma device_in_blocked:
  assumes "blocked (sizeof_long s) (dev_read E)" and "DeviceFd s = Some fd"
  shows "\<exists>e. device_in T E s = Inl e"
proof -
  let ?n = "min readbuf_size (unat (BufferRoomLeft (ToNetBuf s)) div EscWriteChar_bytes)"
  let ?bs = "read_bytes (dev_read E) ?n"
  obtain e where "each_below (from_readbuf EscWriteChar) 0 4294967295
      (emit (DevRead ?bs) (s\<lparr>readbuf := overlay ?bs (readbuf s)\<rparr>)) = Inl e"
    using each_below_overrun [of 4294967295 0] by (auto simp: readbuf_size_def)
  then show ?thesis
    using assms blocked_bound [OF assms(1)]
    by (simp add: device_in_def Let_def deref_def next_r_def)
qed

lemma device_in_ok:
  assumes "loop_inv s" and "DeviceFd s \<noteq> None"
  shows "stage_ok (\<lambda>e. blocked (sizeof_long s) (dev_read E)) s (device_in T E s)"
proof -
  obtain fd where fd: "DeviceFd s = Some fd"
    using assms(2) by blast
  let ?n = "min readbuf_size (unat (BufferRoomLeft (ToNetBuf s)) div EscWriteChar_bytes)"
  have ok: "net_ok s" "dev_ok s" "rx_inv s"
    using assms by (auto simp: loop_inv_def)
  show ?thesis
  proof (cases "IOResultError (read_result (dev_read E) ?n) (read_would_block (dev_read E))")
    case True
    then show ?thesis
      using fd ok by (simp add: device_in_def Let_def deref_def stage_ok_def drop_client_inv)
  next
    case False
    show ?thesis
    proof (cases "blocked (sizeof_long s) (dev_read E)")
      case True
      then show ?thesis
        using device_in_blocked [OF True fd, of T] by (auto simp: stage_ok_def)
    next
      case nb: False
      show ?thesis
        using device_in_data [OF fd ok(1) False refl nb, of T] ok assms(1)
        by (simp add: stage_ok_def loop_inv_def onward_def)
    qed
  qed
qed

lemma rx_inv_buffers [simp]:
  "rx_inv (ToDevBuf_update g s) = rx_inv s" "rx_inv (ToNetBuf_update g s) = rx_inv s"
  by (simp_all add: rx_inv_def)

lemma pop_state:
  "loop_inv s \<Longrightarrow> loop_inv (s\<lparr>ToDevBuf := BufferPopBytes (ToDevBuf s) n\<rparr>)"
  "loop_inv s \<Longrightarrow> loop_inv (s\<lparr>ToNetBuf := BufferPopBytes (ToNetBuf s) n\<rparr>)"
  by (auto simp: loop_inv_def net_ok_def dev_ok_def)

lemma string_in_array:
  assumes "buf_ok B"
  shows "string_bytes B (nat (write_result r (unat (GetBufferString B)))) =
    Inr (buffer_bytes B (nat (write_result r (unat (GetBufferString B)))))"
proof -
  have "nat (write_result r (unat (GetBufferString B))) \<le> unat (GetBufferString B)"
    by (cases r) (simp_all add: write_result_def)
  then show ?thesis
    using GetBufferString_in_array [OF assms] by (simp add: string_bytes_def BufferSize_def)
qed

lemma inv_open:
  assumes "loop_inv s" and "DeviceFd s \<noteq> None"
  shows "net_ok s" and "dev_ok s" and "rx_inv s" and "InSocketFd s \<noteq> None"
  using assms by (auto simp: loop_inv_def)

lemma device_out_ok:
  assumes "loop_inv s" and "DeviceFd s \<noteq> None"
  shows "stage_ok (\<lambda>e. False) s (device_out T E s)"
proof -
  have "buf_ok (ToDevBuf s)"
    using inv_open(2) [OF assms] by (simp add: dev_ok_def)
  then show ?thesis
    using assms drop_client_inv [OF inv_open(3) [OF assms], of T] pop_state(1) [OF assms(1)]
    by (auto simp: device_out_def Let_def deref_def stage_ok_def string_in_array onward_def)
qed

lemma socket_out_ok:
  assumes "loop_inv s" and "OutSocketFd s \<noteq> None"
  shows "stage_ok (\<lambda>e. False) s (socket_out T E s)"
proof -
  have "buf_ok (ToNetBuf s)" "rx_inv s"
    using assms by (auto simp: loop_inv_def net_ok_def)
  then show ?thesis
    using assms drop_client_inv [of s T] pop_state(2) [OF assms(1)]
    by (auto simp: socket_out_def Let_def deref_def stage_ok_def string_in_array onward_def)
qed

text \<open>Taking a run of bytes from the network, with room for all of them.\<close>

definition receiving :: "'p sercd \<Rightarrow> nat \<Rightarrow> nat \<Rightarrow> 'p sercd \<Rightarrow> bool" where
  "receiving s0 n i s \<longleftrightarrow>
     bufs_ok s \<and> rx_inv s \<and> base_kept s0 s \<and>
     length (net_bytes s) + 516 * (n - i) \<le> 2047 \<and> length (dev_bytes s) + (n - i) \<le> 2047 \<and>
     (\<exists>bs ds. net_bytes s = net_bytes s0 @ bs \<and> dev_bytes s = dev_bytes s0 @ ds \<and> length ds \<le> i)"

lemma receiving_step:
  assumes "DeviceFd s0 \<noteq> None" and "n \<le> readbuf_size" and "i < n" and "receiving s0 n i s"
  shows "case from_readbuf (redirect T) i s of
      Inl e \<Rightarrow> e = OutOfBoundsRead | Inr t \<Rightarrow> receiving s0 n (i + 1) t"
proof -
  have d: "DeviceFd s \<noteq> None"
    using assms(1,4) by (simp add: receiving_def base_kept_def)
  then have r: "from_readbuf (redirect T) i s = EscRedirectChar T (readbuf s i) s"
    using assms(2,3) by (auto simp: from_readbuf_def redirect_def deref_def)
  have k: "516 * (n - i) = 516 + 516 * (n - (i + 1))" "n - i = 1 + (n - (i + 1))"
    using assms(3) by simp_all
  have "receives (sig_overrun s) s (EscRedirectChar T (readbuf s i) s)"
    by (rule EscRedirectChar_receives)
      (use assms(4) k in \<open>auto simp: receiving_def\<close>)
  then show ?thesis
    using assms(4) k unfolding r receiving_def receives_def
    by (auto split: sum.splits intro: base_kept_trans)
qed

lemma receiving_start:
  assumes "bufs_ok s" and "rx_inv s"
    and "n = min (min readbuf_size
      (unat (BufferRoomLeft (ToNetBuf s)) div EscRedirectChar_bytes_SockB (sizeof_long s)))
      (unat (BufferRoomLeft (ToDevBuf s)) div EscRedirectChar_bytes_DevB)"
    and "m \<le> n" and "s' = emit e (s\<lparr>readbuf := g\<rparr>)"
  shows "receiving s' m 0 s'"
proof -
  have "n \<le> (2047 - length (net_bytes s)) div 516" "n \<le> 2047 - length (dev_bytes s)"
    unfolding assms(3) BufferRoomLeft_nat net_bytes_def dev_bytes_def
      EscRedirectChar_bytes_SockB_def EscRedirectChar_bytes_DevB_def
    by simp_all
  then have "length (net_bytes s) + 516 * m \<le> 2047" "length (dev_bytes s) + m \<le> 2047"
    using assms(4) net_len_le [of s] dev_len_le [of s] by linarith+
  then show ?thesis
    using assms(1,2) unfolding assms(5) by (simp add: receiving_def bufs_ok_def)
qed

lemma socket_in_loop:
  assumes "InSocketFd s \<noteq> None"
    and "\<not> IOResultError (read_result (net_read E) n) (read_would_block (net_read E))"
    and "n = min (min readbuf_size
      (unat (BufferRoomLeft (ToNetBuf s)) div EscRedirectChar_bytes_SockB (sizeof_long s)))
      (unat (BufferRoomLeft (ToDevBuf s)) div EscRedirectChar_bytes_DevB)"
    and "\<not> blocked (sizeof_long s) (net_read E)"
    and "s1 = emit (NetRead (read_bytes (net_read E) n))
      (s\<lparr>readbuf := overlay (read_bytes (net_read E) n) (readbuf s)\<rparr>)"
  shows "length (read_bytes (net_read E) n) \<le> n \<and> length (read_bytes (net_read E) n) \<le> readbuf_size \<and>
    socket_in T E s =
      next_r (each_below (from_readbuf (redirect T)) 0 (length (read_bytes (net_read E) n)) s1)"
proof -
  let ?bs = "read_bytes (net_read E) n"
  have m: "length ?bs \<le> n" "length ?bs \<le> readbuf_size"
    using length_read_bytes [of "net_read E" n] unfolding assms(3) by linarith+
  have "loop_bound (sizeof_long s) (read_result (net_read E) n) = length ?bs"
    using read_going_on [OF assms(2)]
  proof
    assume w: "net_read E = ReadFailed True"
    then have "sizeof_long s = LP64"
      using assms(4) by (cases "sizeof_long s") (simp_all add: blocked_def)
    then show ?thesis
      using w by (simp add: read_result_def read_bytes_def loop_bound_minus_one)
  qed (use m(2) in \<open>auto simp: loop_bound_count\<close>)
  then show ?thesis
    using assms(1,2) m unfolding assms(5)
    by (auto simp: socket_in_def Let_def deref_def assms(3) [symmetric])
qed

lemma socket_in_data:
  assumes "InSocketFd s \<noteq> None" and "DeviceFd s \<noteq> None" and "bufs_ok s" and "rx_inv s"
    and "\<not> IOResultError (read_result (net_read E) n) (read_would_block (net_read E))"
    and "n = min (min readbuf_size
      (unat (BufferRoomLeft (ToNetBuf s)) div EscRedirectChar_bytes_SockB (sizeof_long s)))
      (unat (BufferRoomLeft (ToDevBuf s)) div EscRedirectChar_bytes_DevB)"
    and "\<not> blocked (sizeof_long s) (net_read E)"
    and "s1 = emit (NetRead (read_bytes (net_read E) n))
      (s\<lparr>readbuf := overlay (read_bytes (net_read E) n) (readbuf s)\<rparr>)"
  shows "case socket_in T E s of
      Inl e \<Rightarrow> e = OutOfBoundsRead
    | Inr x \<Rightarrow> \<exists>t. x = Next t \<and>
        receiving s1 (length (read_bytes (net_read E) n)) (length (read_bytes (net_read E) n)) t"
proof -
  let ?m = "length (read_bytes (net_read E) n)"
  note loop = socket_in_loop [OF assms(1,5-8), of T]
  have "case each_below (from_readbuf (redirect T)) 0 ?m s1 of
      Inl e \<Rightarrow> e = OutOfBoundsRead | Inr t \<Rightarrow> receiving s1 ?m ?m t"
    by (rule each_below_inv [of ?m "receiving s1 ?m"])
      (use receiving_step [of s1 ?m _ _ T] assms(2) loop
        receiving_start [OF assms(3,4,6) _ assms(8)] assms(8) in \<open>auto simp: emit_def\<close>)
  then show ?thesis
    using loop by (auto simp: next_r_def split: sum.splits)
qed

lemma receiving_inv:
  assumes "receiving s1 m m t" and "loop_inv s" and "s1 = emit e (s\<lparr>readbuf := g\<rparr>)"
  shows "loop_inv t \<and> onward s t"
  using assms(1,2) unfolding receiving_def base_kept_def assms(3)
  by (simp add: loop_inv_def onward_def bufs_ok_def emit_def)

lemma socket_in_blocked:
  assumes "blocked (sizeof_long s) (net_read E)" and "InSocketFd s \<noteq> None"
  shows "\<exists>e. socket_in T E s = Inl e"
proof -
  let ?n = "min (min readbuf_size
      (unat (BufferRoomLeft (ToNetBuf s)) div EscRedirectChar_bytes_SockB (sizeof_long s)))
      (unat (BufferRoomLeft (ToDevBuf s)) div EscRedirectChar_bytes_DevB)"
  let ?bs = "read_bytes (net_read E) ?n"
  obtain e where "each_below (from_readbuf (redirect T)) 0 4294967295
      (emit (NetRead ?bs) (s\<lparr>readbuf := overlay ?bs (readbuf s)\<rparr>)) = Inl e"
    using each_below_overrun [of 4294967295 0] by (auto simp: readbuf_size_def)
  then show ?thesis
    using assms blocked_bound [OF assms(1)]
    by (auto simp: socket_in_def Let_def deref_def next_r_def)
qed

lemma socket_in_ok:
  assumes "loop_inv s" and "DeviceFd s \<noteq> None"
  shows "stage_ok (\<lambda>e. blocked (sizeof_long s) (net_read E) \<or> e = OutOfBoundsRead) s
    (socket_in T E s)"
proof -
  note ok = inv_open [OF assms]
  let ?n = "min (min readbuf_size
      (unat (BufferRoomLeft (ToNetBuf s)) div EscRedirectChar_bytes_SockB (sizeof_long s)))
      (unat (BufferRoomLeft (ToDevBuf s)) div EscRedirectChar_bytes_DevB)"
  show ?thesis
  proof (cases "IOResultError (read_result (net_read E) ?n) (read_would_block (net_read E))")
    case True
    then show ?thesis
      using ok by (auto simp: socket_in_def Let_def deref_def stage_ok_def drop_client_inv)
  next
    case go: False
    let ?bs = "read_bytes (net_read E) ?n"
    let ?s1 = "emit (NetRead ?bs) (s\<lparr>readbuf := overlay ?bs (readbuf s)\<rparr>)"
    show ?thesis
    proof (cases "blocked (sizeof_long s) (net_read E)")
      case True
      then show ?thesis
        using socket_in_blocked [OF True ok(4), of T] by (auto simp: stage_ok_def)
    next
      case nb: False
      have bufs: "bufs_ok s"
        using ok by (simp add: bufs_ok_def)
      show ?thesis
        using socket_in_data [OF ok(4) assms(2) bufs ok(3) go refl nb refl, of T]
          receiving_inv [OF _ assms(1) refl]
        by (auto simp: stage_ok_def split: sum.splits)
    qed
  qed
qed

lemma initial_kept:
  assumes "net_ok s" and "length (net_bytes s) + 18 \<le> 2047"
  shows "\<exists>s'. SendTelnetInitialOptions s = Inr s' \<and> net_ok s' \<and> kept s s' \<and>
    net_bytes s' = net_bytes s @ initial_options"
  using assms
  by (simp add: SendTelnetInitialOptions_def option_sent net_bytes_put initial_options_def)
    (simp add: kept_def upd_tn_def net_put_def)

lemma rx_inv_kept: "kept s t \<Longrightarrow> rx_inv t = rx_inv s"
  by (simp add: kept_def rx_inv_def)

lemma coherent: "loop_inv s \<Longrightarrow> OutSocketFd s = InSocketFd s"
  by (simp add: loop_inv_def)

lemma socket_connect_ok:
  assumes "loop_inv s" and "LSocketFd s \<noteq> None"
  shows "stage_ok (\<lambda>e. False) s (socket_connect E s)"
proof (cases "accepted E < 0 \<or> InSocketFd s \<noteq> None")
  case True
  then show ?thesis
    using assms coherent [OF assms(1)]
    by (auto simp: socket_connect_def deref_def stage_ok_def Let_def)
next
  case False
  let ?s1 = "SetSocketOptions (accepted E) (accepted E) (emit (Accepted (accepted E))
    ((emit (ChangeState STATE_CONNECTED) s)\<lparr>
      InSocketFd := Some (accepted E), OutSocketFd := Some (accepted E)\<rparr>))"
  let ?s3 = "InitTelnetStateMachine (?s1\<lparr>ToNetBuf := InitBuffer (ToNetBuf ?s1)\<rparr>)"
  have s3: "net_ok ?s3" "net_bytes ?s3 = []" "DeviceFd ?s3 = DeviceFd s" "LSocketFd ?s3 = LSocketFd s"
      "InSocketFd ?s3 = Some (accepted E)" "OutSocketFd ?s3 = Some (accepted E)"
      "sizeof_long ?s3 = sizeof_long s" "rx_inv ?s3 = rx_inv s"
    by (simp_all add: SetSocketOptions_def InitTelnetStateMachine_def net_ok_def net_bytes_def emit_def rx_inv_def)
  obtain t where t: "SendTelnetInitialOptions ?s3 = Inr t" "net_ok t" "kept ?s3 t"
    using initial_kept [OF s3(1)] s3(2) by auto
  have none: "InSocketFd s = None" "DeviceFd s = None" "rx_inv s"
    using False assms(1) by (auto simp: loop_inv_def)
  have k: "DeviceFd t = None" "InSocketFd t = Some (accepted E)" "OutSocketFd t = Some (accepted E)"
      "LSocketFd t = LSocketFd s" "sizeof_long t = sizeof_long s"
    using t(3) s3(3-7) none(2) unfolding kept_def by simp_all
  then have "loop_inv t" "onward s t"
    using t(2) rx_inv_kept [OF t(3)] s3(8) none
    by (simp_all add: loop_inv_def onward_def)
  moreover have "socket_connect E s = Inr (Next t)"
    using False assms(2) none(1) t(1)
    by (auto simp: socket_connect_def deref_def Let_def next_r_def)
  ultimately show ?thesis
    by (simp add: stage_ok_def)
qed

lemma open_port_ok:
  assumes "loop_inv s"
  shows "stage_ok (\<lambda>e. False) s (open_port T E s)"
proof (cases "InSocketFd s \<noteq> None \<and> DeviceFd s = None")
  case False
  then show ?thesis
    using assms by (auto simp: open_port_def stage_ok_def loop_inv_def)
next
  case True
  have rx: "rx_inv s" "net_ok s" "OutSocketFd s = InSocketFd s"
    using assms True by (auto simp: loop_inv_def)
  then have "rx_inv (s\<lparr>DeviceFd := d, InitialPortSettings := i, port := p\<rparr>)" for d i p
    by (simp add: rx_inv_def)
  then show ?thesis
    using True rx
    by (auto simp: open_port_def stage_ok_def OpenPort_def Let_def set_port_def loop_inv_def
        onward_def DropConnection_def close_fd_def emit_def rx_inv_def net_ok_def dev_ok_def)
qed

lemma modem_state_ok:
  assumes "loop_inv s" and "DeviceFd s \<noteq> None"
  shows "stage_ok (\<lambda>e. e = AssertionFailure) s (modem_state T s)"
proof -
  let ?s1 = "s\<lparr>ModemState := GetModemState T (port s) (ModemState s)\<rparr>"
  have "net_ok ?s1"
    using inv_open(1) [OF assms] by (simp add: net_ok_def)
  note sent = cpc_sender.send_cases [OF this, of TNASC_NOTIFY_MODEMSTATE
      "ModemState ?s1 AND ModemStateMask ?s1"]
  have step: "stage_ok (\<lambda>e. e = AssertionFailure) s (Inr (Next t))"
    if "net_ok t" "kept ?s1 t" for t
    using that assms rx_inv_kept [OF that(2)] inv_open(2,3) [OF assms]
    by (auto simp: stage_ok_def loop_inv_def onward_def kept_def dev_ok_def rx_inv_def)
  have idle: "stage_ok (\<lambda>e. e = AssertionFailure) s (Inr (Next s))"
    using assms(1) by (simp add: stage_ok_def)
  show ?thesis
    using assms(2) sent step idle
    by (auto simp: modem_state_def deref_def Let_def next_r_def) (simp add: stage_ok_def)
qed

section \<open>Whole iterations\<close>

text \<open>
  The faults an iteration may end in, given the events and the answers: the assertion in the
  notification of the modem state, the over-read of a client's signature, and a read that would block
  where \<open>ssize_t\<close> has 32 bits.
\<close>

definition iteration_fault :: "abi \<Rightarrow> 'p env \<Rightarrow> sercd_ev set \<Rightarrow> fault \<Rightarrow> bool" where
  "iteration_fault a E selret e \<longleftrightarrow>
     e = AssertionFailure \<and> SERCD_EV_MODEMSTATE \<in> selret \<or>
     e = OutOfBoundsRead \<and> SERCD_EV_SOCKETIN \<in> selret \<or>
     SERCD_EV_DEVICEIN \<in> selret \<and> blocked a (dev_read E) \<or>
     SERCD_EV_SOCKETIN \<in> selret \<and> blocked a (net_read E)"

text \<open>The events \<open>SercdSelect\<close> may report in a state.\<close>

definition events_ok :: "sercd_ev set \<Rightarrow> 'p sercd \<Rightarrow> bool" where
  "events_ok selret s \<longleftrightarrow>
     (selret \<inter> {SERCD_EV_DEVICEIN, SERCD_EV_DEVICEOUT, SERCD_EV_SOCKETIN, SERCD_EV_MODEMSTATE} \<noteq> {}
        \<longrightarrow> DeviceFd s \<noteq> None) \<and>
     (SERCD_EV_SOCKETOUT \<in> selret \<longrightarrow> OutSocketFd s \<noteq> None) \<and>
     (SERCD_EV_SOCKETCONNECT \<in> selret \<longrightarrow> LSocketFd s \<noteq> None)"

lemma events_ok_onward: "events_ok selret s \<Longrightarrow> loop_inv s \<Longrightarrow> onward s t \<Longrightarrow> events_ok selret t"
  by (auto simp: events_ok_def onward_def loop_inv_def)

text \<open>
  A property of every stage, with what is known when it runs, that goes over to a sequence of stages
  holds of all of them in order.
\<close>

lemma handle_events_stages:
  assumes "loop_inv s" and "events_ok evs s"
    and skip: "\<And>t. loop_inv t \<Longrightarrow> K t (Inr (Next t))"
    and chain: "\<And>t r f. stage_ok (\<lambda>e. True) t r \<Longrightarrow> K t r \<Longrightarrow>
      (\<And>u. loop_inv u \<Longrightarrow> onward t u \<Longrightarrow> r = Inr (Next u) \<Longrightarrow> K u (f u)) \<Longrightarrow> K t (and_then r f)"
    and dev_in: "\<And>t. loop_inv t \<Longrightarrow> onward s t \<Longrightarrow> DeviceFd t \<noteq> None \<Longrightarrow>
      SERCD_EV_DEVICEIN \<in> evs \<Longrightarrow> t = s \<Longrightarrow> K t (device_in T E t)"
    and dev_out: "\<And>t. loop_inv t \<Longrightarrow> onward s t \<Longrightarrow> DeviceFd t \<noteq> None \<Longrightarrow> K t (device_out T E t)"
    and sock_out: "\<And>t. loop_inv t \<Longrightarrow> onward s t \<Longrightarrow> OutSocketFd t \<noteq> None \<Longrightarrow>
      K t (socket_out T E t)"
    and sock_in: "\<And>t. loop_inv t \<Longrightarrow> onward s t \<Longrightarrow> DeviceFd t \<noteq> None \<Longrightarrow>
      SERCD_EV_SOCKETIN \<in> evs \<Longrightarrow> K t (socket_in T E t)"
    and connect: "\<And>t. loop_inv t \<Longrightarrow> onward s t \<Longrightarrow> LSocketFd t \<noteq> None \<Longrightarrow>
      K t (socket_connect E t)"
    and opn: "\<And>t. loop_inv t \<Longrightarrow> onward s t \<Longrightarrow> K t (open_port T E t)"
    and modem: "\<And>t. loop_inv t \<Longrightarrow> onward s t \<Longrightarrow> DeviceFd t \<noteq> None \<Longrightarrow>
      SERCD_EV_MODEMSTATE \<in> evs \<Longrightarrow> K t (modem_state T t)"
  shows "K s (handle_events T E evs s)"
proof -
  let ?I = "\<lambda>t. loop_inv t \<and> onward s t"
  let ?J = "\<lambda>t r. K t r \<and> stage_ok (\<lambda>e. True) t r"
  have fds: "DeviceFd t \<noteq> None" if "?I t" "e \<in> evs" "e \<in> {SERCD_EV_DEVICEIN, SERCD_EV_DEVICEOUT,
      SERCD_EV_SOCKETIN, SERCD_EV_MODEMSTATE}" for t e
    using that events_ok_onward [OF assms(2,1), of t] by (auto simp: events_ok_def)
  have socks: "SERCD_EV_SOCKETOUT \<in> evs \<Longrightarrow> OutSocketFd t \<noteq> None"
      "SERCD_EV_SOCKETCONNECT \<in> evs \<Longrightarrow> LSocketFd t \<noteq> None" if "?I t" for t
    using that events_ok_onward [OF assms(2,1), of t] by (simp_all add: events_ok_def)
  have on: "?J t (on e evs f t)" if "?I t" "e \<in> evs \<Longrightarrow> ?J t (f t)" for e f t
    using that skip [of t] by (auto simp: on_def stage_ok_def)
  have 1: "?J s (on SERCD_EV_DEVICEIN evs (device_in T E) s)"
    by (rule on) (use assms(1) fds [of s] dev_in in \<open>auto intro: stage_ok_mono [OF device_in_ok]\<close>)
  have 2: "?I t \<Longrightarrow> ?J t (on SERCD_EV_DEVICEOUT evs (device_out T E) t)" for t
    by (rule on) (use fds [of t] dev_out in \<open>auto intro: stage_ok_mono [OF device_out_ok]\<close>)
  have 3: "?I t \<Longrightarrow> ?J t (on SERCD_EV_SOCKETOUT evs (socket_out T E) t)" for t
    by (rule on) (use socks [of t] sock_out in \<open>auto intro: stage_ok_mono [OF socket_out_ok]\<close>)
  have 4: "?I t \<Longrightarrow> ?J t (on SERCD_EV_SOCKETIN evs (socket_in T E) t)" for t
    by (rule on) (use fds [of t] sock_in in \<open>auto intro: stage_ok_mono [OF socket_in_ok]\<close>)
  have 5: "?I t \<Longrightarrow> ?J t (on SERCD_EV_SOCKETCONNECT evs (socket_connect E) t)" for t
    by (rule on) (use socks [of t] connect in \<open>auto intro: stage_ok_mono [OF socket_connect_ok]\<close>)
  have 6: "?I t \<Longrightarrow> ?J t (open_port T E t)" for t
    using opn [of t] stage_ok_mono [OF open_port_ok [of t T E]] by simp
  have 7: "?I t \<Longrightarrow> K t (on SERCD_EV_MODEMSTATE evs (modem_state T) t)" for t
    using modem [of t] skip [of t] fds [of t SERCD_EV_MODEMSTATE] by (simp add: on_def)
  have link: "K t (and_then r f)" if "?I t" "?J t r" "\<And>u. ?I u \<Longrightarrow> K u (f u)" for t r f
    using that onward_trans [of s t] by (intro chain) blast+
  have "?I s"
    using assms(1) by simp
  then show ?thesis
    unfolding handle_events_def by (intro link 1 2 3 4 5 6 7)
qed

lemma handle_events_ok:
  assumes "loop_inv s" and "events_ok selret s"
  shows "stage_ok (iteration_fault (sizeof_long s) E selret) s (handle_events T E selret s)"
  by (rule handle_events_stages [OF assms, where K = "stage_ok (iteration_fault (sizeof_long s) E selret)"])
    (auto simp: iteration_fault_def onward_def [of s] stage_ok_def [of _ _ "Inr (Next _)"]
      intro: stage_ok_then stage_ok_mono [OF device_in_ok] stage_ok_mono [OF device_out_ok]
        stage_ok_mono [OF socket_out_ok] stage_ok_mono [OF socket_in_ok]
        stage_ok_mono [OF socket_connect_ok] stage_ok_mono [OF open_port_ok]
        stage_ok_mono [OF modem_state_ok])

definition iteration_state :: "'p iteration \<Rightarrow> 'p sercd" where
  "iteration_state x = (case x of Again s \<Rightarrow> s | Return c s \<Rightarrow> s)"

lemma select_events_ok:
  assumes "loop_inv s" and "SercdSelect E (DeviceIn s) (DeviceOut s) (Modemstate s) (SocketOut s)
      (SocketIn s) (LSocketFd s) pi s = (Some evs, s1)"
  shows "events_ok evs s1" and "loop_inv s1" and "sizeof_long s1 = sizeof_long s"
proof -
  have s1: "s1 = s\<lparr>LastPoll := LastPoll s1\<rparr>"
    using SercdSelect_state [OF assms(2)] .
  have "DeviceFd s1 = DeviceFd s" "InSocketFd s1 = InSocketFd s" "OutSocketFd s1 = OutSocketFd s"
    "LSocketFd s1 = LSocketFd s" "sizeof_long s1 = sizeof_long s" "net_ok s1 = net_ok s"
    "dev_ok s1 = dev_ok s" "rx_inv s1 = rx_inv s"
    by (subst s1, simp add: net_ok_def dev_ok_def rx_inv_def)+
  then show "events_ok evs s1" "loop_inv s1" "sizeof_long s1 = sizeof_long s"
    using assms(1) SercdSelect_events [OF assms(2)]
    by (auto simp: events_ok_def loop_inv_def DeviceIn_def DeviceOut_def Modemstate_def
        SocketOut_def SocketIn_def split: if_splits)
qed

text \<open>The events of one iteration.\<close>

definition iteration_events :: "'p env \<Rightarrow> 'p sercd \<Rightarrow> sercd_ev set" where
  "iteration_events E s =
     (case fst (SercdSelect E (DeviceIn s) (DeviceOut s) (Modemstate s) (SocketOut s) (SocketIn s)
        (LSocketFd s) DEFAULT_POLL_INTERVAL s) of None \<Rightarrow> {} | Some evs \<Rightarrow> evs)"

lemma main_iteration_ok:
  assumes "loop_inv s"
  shows "case main_iteration T E s of
      Inl e \<Rightarrow> iteration_fault (sizeof_long s) E (iteration_events E s) e
    | Inr x \<Rightarrow> loop_inv (iteration_state x)"
proof (cases "DeviceIn s = None \<and> DeviceOut s = None \<and> SocketOut s = None \<and> SocketIn s = None \<and>
    LSocketFd s = None")
  case True
  then show ?thesis
    using assms by (simp add: main_iteration_def iteration_state_def)
next
  case False
  obtain r s1 where sel: "SercdSelect E (DeviceIn s) (DeviceOut s) (Modemstate s) (SocketOut s)
      (SocketIn s) (LSocketFd s) DEFAULT_POLL_INTERVAL s = (r, s1)"
    by fastforce
  show ?thesis
  proof (cases r)
    case None
    then have "s1 = s"
      using sel by (auto simp: SercdSelect_def Let_def split: option.splits if_splits prod.splits)
    then show ?thesis
      using assms False None sel by (simp add: main_iteration_def iteration_state_def)
  next
    case (Some evs)
    note ev = select_events_ok [OF assms sel [unfolded Some]]
    have evs: "iteration_events E s = evs"
      using sel Some by (simp add: iteration_events_def)
    have "main_iteration T E s = (if evs = {} then Inr (Again s1)
        else bind_r (handle_events T E evs s1)
          (\<lambda>x. case x of Next s2 \<Rightarrow> Inr (Again s2) | Continue s2 \<Rightarrow> Inr (Again s2)))"
      using False sel Some unfolding main_iteration_def by (simp del: split_paired_All) auto
    then show ?thesis
      using handle_events_ok [OF ev(2,1), of E T] ev(2,3) evs
      by (auto simp: stage_ok_def iteration_state_def split: sum.splits stage.splits)
  qed
qed

text \<open>How an iteration that does not fail ends.\<close>

lemma iteration_outcome:
  assumes "main_iteration T E s = Inr x" and "loop_inv s"
  obtains (idle) "iteration_state x = s\<lparr>LastPoll := LastPoll (iteration_state x)\<rparr>"
  | (handled) evs s1 t where "s1 = s\<lparr>LastPoll := LastPoll s1\<rparr>" "loop_inv s1" "events_ok evs s1"
      "x = Again t" "handle_events T E evs s1 \<in> {Inr (Next t), Inr (Continue t)}"
proof -
  define sel where "sel = SercdSelect E (DeviceIn s) (DeviceOut s) (Modemstate s) (SocketOut s)
      (SocketIn s) (LSocketFd s) DEFAULT_POLL_INTERVAL s"
  obtain r s1 where rs: "sel = (r, s1)"
    by fastforce
  have s1: "s1 = s\<lparr>LastPoll := LastPoll s1\<rparr>"
    using SercdSelect_state rs unfolding sel_def .
  define none where "none \<longleftrightarrow> DeviceIn s = None \<and> DeviceOut s = None \<and> SocketOut s = None \<and>
    SocketIn s = None \<and> LSocketFd s = None"
  have it: "main_iteration T E s = (if none then Inr (Return NoError s)
      else case r of None \<Rightarrow> Inr (Return Error s1)
        | Some evs \<Rightarrow> if evs = {} then Inr (Again s1)
            else bind_r (handle_events T E evs s1)
              (\<lambda>x. case x of Next s2 \<Rightarrow> Inr (Again s2) | Continue s2 \<Rightarrow> Inr (Again s2)))"
    unfolding main_iteration_def sel_def [symmetric] rs none_def by (cases r) simp_all
  consider "none" | "\<not> none" "r = None" | "\<not> none" "r = Some {}"
    | evs where "\<not> none" "r = Some evs" "evs \<noteq> {}"
    by (cases r) auto
  then show ?thesis
  proof cases
    case 1
    then have "iteration_state x = s"
      using assms(1) it by (auto simp: iteration_state_def)
    then show ?thesis
      using idle by simp
  next
    case 4
    note ev = select_events_ok [OF assms(2) rs [unfolded sel_def 4(2)]]
    have "bind_r (handle_events T E evs s1)
        (\<lambda>x. case x of Next s2 \<Rightarrow> Inr (Again s2) | Continue s2 \<Rightarrow> Inr (Again s2)) = Inr x"
      using assms(1) 4 unfolding it by simp
    then obtain y where "handle_events T E evs s1 = Inr y"
        "(case y of Next s2 \<Rightarrow> Inr (Again s2) | Continue s2 \<Rightarrow> Inr (Again s2)) = (Inr x :: fault + _)"
      unfolding bind_r_eq_Inr by blast
    then obtain t where "x = Again t" "handle_events T E evs s1 \<in> {Inr (Next t), Inr (Continue t)}"
      by (cases y) auto
    then show ?thesis
      using handled s1 ev by blast
  qed (use assms(1) it s1 idle in \<open>auto simp: iteration_state_def\<close>)
qed


definition quiet_env :: "'p env" where
  "quiet_env = \<lparr>line_change = (\<lambda>p. p), ready_fds = Some ({}, {}), times = ((0, 0), (0, 0)),
     dev_read = ReadFailed True, dev_write = WriteFailed True, net_write = WriteFailed True,
     net_read = ReadFailed True, accepted = 5, opened = 7\<rparr>"

lemma loop_inv_fresh [simp]: "loop_inv ((fresh_sercd a p)\<lparr>LSocketFd := l\<rparr>)"
  by (simp add: loop_inv_def fresh_sercd_def sercd_globals_def rx_inv_def)


section \<open>Reachable states\<close>

text \<open>Any number of iterations, with any answers, the lines of the port changing in between.\<close>

inductive runs :: "'p tty \<Rightarrow> 'p sercd \<Rightarrow> 'p sercd \<Rightarrow> bool" for T :: "'p tty" where
  runs_refl: "runs T s s"
| runs_step: "runs T s s1 \<Longrightarrow> main_iteration T E (set_port (line_change E) s1) = Inr (Again s2) \<Longrightarrow>
    runs T s s2"

inductive_cases runs_cases: "runs T s t"

lemma loop_inv_set_port [simp]: "loop_inv (set_port f s) = loop_inv s"
  by (simp add: loop_inv_def set_port_def net_ok_def dev_ok_def rx_inv_def)

lemma runs_inv: "runs T s t \<Longrightarrow> loop_inv s \<Longrightarrow> loop_inv t"
proof (induction rule: runs.induct)
  case (runs_step s s1 E s2)
  then have "loop_inv (set_port (line_change E) s1)"
    by simp
  then show ?case
    using main_iteration_ok [of "set_port (line_change E) s1" E T] runs_step.hyps(2)
    by (simp add: iteration_state_def)
qed

lemma runs_trans: "runs T s1 s2 \<Longrightarrow> runs T s s1 \<Longrightarrow> runs T s s2"
  by (induction rule: runs.induct) (auto intro: runs_step)

text \<open>
  A property of states that every stage keeps, whether it goes on or drops the client, is kept by an
  iteration; the answers of the system may be restricted.
\<close>

definition preserves :: "('p sercd \<Rightarrow> bool) \<Rightarrow> 'p sercd \<Rightarrow> fault + 'p stage \<Rightarrow> bool" where
  "preserves P s r \<longleftrightarrow>
     (P s \<longrightarrow> (case r of Inl e \<Rightarrow> True | Inr (Next t) \<Rightarrow> P t | Inr (Continue t) \<Rightarrow> P t))"

lemma preserves_Next [simp]: "preserves P s (Inr (Next s))"
  by (simp add: preserves_def)

lemma preserves_if:
  "(b \<Longrightarrow> preserves P s x) \<Longrightarrow> (\<not> b \<Longrightarrow> preserves P s y) \<Longrightarrow> preserves P s (if b then x else y)"
  by simp

lemma preserves_bind:
  "(\<And>x. r = Inr x \<Longrightarrow> preserves P s (f x)) \<Longrightarrow> preserves P s (bind_r r f)"
  by (cases r) (simp_all add: preserves_def)

lemma preserves_then:
  assumes "preserves P s r" and "\<And>t. r = Inr (Next t) \<Longrightarrow> preserves P t (f t)"
  shows "preserves P s (and_then r f)"
proof (cases r)
  case (Inr x)
  then show ?thesis
    using assms by (cases x) (auto simp: preserves_def)
qed (simp add: preserves_def)

locale stage_invariant =
  fixes T :: "'p tty" and P :: "'p sercd \<Rightarrow> bool" and allowed :: "'p env \<Rightarrow> bool"
  assumes polled: "P (s\<lparr>LastPoll := l\<rparr>) = P s"
    and dev_in: "loop_inv s \<Longrightarrow> DeviceFd s \<noteq> None \<Longrightarrow> preserves P s (device_in T E s)"
    and dev_out: "loop_inv s \<Longrightarrow> DeviceFd s \<noteq> None \<Longrightarrow> preserves P s (device_out T E s)"
    and sock_out: "loop_inv s \<Longrightarrow> OutSocketFd s \<noteq> None \<Longrightarrow> allowed E \<Longrightarrow>
      preserves P s (socket_out T E s)"
    and sock_in: "loop_inv s \<Longrightarrow> DeviceFd s \<noteq> None \<Longrightarrow> preserves P s (socket_in T E s)"
    and connect: "loop_inv s \<Longrightarrow> LSocketFd s \<noteq> None \<Longrightarrow> preserves P s (socket_connect E s)"
    and opn: "loop_inv s \<Longrightarrow> preserves P s (open_port T E s)"
    and modem: "loop_inv s \<Longrightarrow> DeviceFd s \<noteq> None \<Longrightarrow> preserves P s (modem_state T s)"
begin

lemma handle_events_keeps:
  assumes "loop_inv s" and "events_ok evs s" and "allowed E"
  shows "preserves P s (handle_events T E evs s)"
  by (rule handle_events_stages [OF assms(1,2), where K = "preserves P"])
    (use assms(3) in \<open>auto intro: dev_in dev_out sock_out sock_in connect opn modem preserves_then
      simp: stage_ok_def\<close>)

lemma iteration_keeps:
  assumes "loop_inv s" and "P s" and "allowed E" and "main_iteration T E s = Inr x"
  shows "P (iteration_state x)"
proof -
  have poll: "P t" if "t = s\<lparr>LastPoll := LastPoll t\<rparr>" for t
    using assms(2) by (subst that) (simp add: polled)
  from assms(4,1) show ?thesis
  proof (cases rule: iteration_outcome)
    case idle
    then show ?thesis
      by (rule poll)
  next
    case (handled evs s1 t)
    have "preserves P s1 (handle_events T E evs s1)"
      by (rule handle_events_keeps [OF handled(2,3) assms(3)])
    then show ?thesis
      using poll [OF handled(1)] handled(4,5) by (auto simp: preserves_def iteration_state_def)
  qed
qed

end

text \<open>
  C5. From the first start of the program on, the loop is always in one of three states: no client
  and no open port, a client whose port is not open, or a client with an open port. The two socket
  pointers agree, the buffers are in order as soon as they are in use, and the receiver's invariant
  holds.
\<close>

theorem three_states:
  assumes "SercdService_main name F l b r (sercd_globals a devb netb rb p) = Again s0"
    and "runs T s0 s"
  shows "OutSocketFd s = InSocketFd s \<and> rx_inv s \<and>
    (InSocketFd s = None \<and> DeviceFd s = None \<or>
     InSocketFd s \<noteq> None \<and> DeviceFd s = None \<and> net_ok s \<or>
     InSocketFd s \<noteq> None \<and> DeviceFd s \<noteq> None \<and> net_ok s \<and> dev_ok s)"
proof -
  have "loop_inv s0"
    using assms(1)
    by (auto simp: SercdService_main_def Let_def sercd_globals_def loop_inv_def emit_def rx_inv_def
        split: if_splits)
  then have "loop_inv s"
    using runs_inv [OF assms(2)] by simp
  then show ?thesis
    by (auto simp: loop_inv_def)
qed

theorem three_states_witness:
  "\<exists>s0. SercdService_main [] \<lparr>frame_devicefd = 0, frame_insocket = 0, frame_ToDevBuf = fresh_buffer,
      frame_ToNetBuf = fresh_buffer, frame_readbuf = (\<lambda>i. 0)\<rparr> 3 0 0
      (fresh_sercd LP64 sample_port) = Again s0 \<and> OutSocketFd s0 = InSocketFd s0"
proof -
  obtain s0 where s0: "SercdService_main [] \<lparr>frame_devicefd = 0, frame_insocket = 0,
      frame_ToDevBuf = fresh_buffer, frame_ToNetBuf = fresh_buffer, frame_readbuf = (\<lambda>i. 0)\<rparr> 3 0 0
      (sercd_globals LP64 fresh_buffer fresh_buffer (\<lambda>i. 0) sample_port) = Again s0"
    by (simp add: SercdService_main_def Let_def)
  then show ?thesis
    using three_states [OF s0 runs_refl] by (auto simp: fresh_sercd_def)
qed

end
