(* ===== verification/Loop_Behaviour.thy ===== *)
theory Loop_Behaviour
  imports Main_Loop Command_Replies
begin

text \<open>
  What the stages of the main loop do with the data, the connections and the notifications, and the
  situations in which they go wrong: data is passed on in order and without loss, and the exceptions
  are an assertion, a lost connection and state that outlives a client.
\<close>

section \<open>Data\<close>

lemma escaped_bytes:
  assumes "net_ok s" and "length (net_bytes s) + 2 * length bs \<le> 2047"
  shows "net_bytes (escaped bs s) =
    net_bytes s @ esc_bytes (sends_binary s) (EscWriteLast s) bs"
proof -
  have "length (net_bytes s) + length (esc_bytes (sends_binary s) (EscWriteLast s) bs) \<le> 2047"
    using assms(2) length_esc_bytes [of "sends_binary s" "EscWriteLast s" bs] by linarith
  then show ?thesis
    using net_bytes_put [OF assms(1)] by (simp add: escaped_def net_bytes_def)
qed

text \<open>What a reading of the port that neither fails nor drops the client has done.\<close>

lemma device_in_run:
  assumes "loop_inv s" and "DeviceFd s \<noteq> None" and "device_in T E s = Inr (Next t)"
  shows "\<exists>bs. length (net_bytes s) + 2 * length bs \<le> 2047 \<and>
    t = escaped bs (emit (DevRead bs) (s\<lparr>readbuf := overlay bs (readbuf s)\<rparr>))"
proof -
  let ?n = "min readbuf_size (unat (BufferRoomLeft (ToNetBuf s)) div EscWriteChar_bytes)"
  let ?bs = "read_bytes (dev_read E) ?n"
  obtain fd where fd: "DeviceFd s = Some fd"
    using assms(2) by blast
  have go: "\<not> IOResultError (read_result (dev_read E) ?n) (read_would_block (dev_read E))"
    using assms(3) fd by (auto simp: device_in_def Let_def deref_def)
  have nb: "\<not> blocked (sizeof_long s) (dev_read E)"
    using assms(3) device_in_blocked [OF _ fd, of E T] by fastforce
  have "length (net_bytes s) + 2 * length ?bs \<le> 2047"
    using length_read_bytes [of "dev_read E" ?n] net_len_le [of s]
    unfolding BufferRoomLeft_nat net_bytes_def EscWriteChar_bytes_def by linarith
  then show ?thesis
    using device_in_data [OF fd inv_open(1) [OF assms(1,2)] go refl nb, of T] assms(3) by auto
qed

text \<open>A client is connected and the port is open.\<close>

definition open_client :: "mem_port sercd" where
  "open_client = (fresh_sercd LP64 sample_port)\<lparr>
     LSocketFd := Some 3, InSocketFd := Some 5, OutSocketFd := Some 5, DeviceFd := Some 7\<rparr>"

lemma open_client_simps [simp]:
  "loop_inv open_client" "DeviceFd open_client = Some 7" "InSocketFd open_client = Some 5"
  "OutSocketFd open_client = Some 5" "LSocketFd open_client = Some 3"
  "net_bytes open_client = []" "dev_bytes open_client = []" "sizeof_long open_client = LP64"
  "EscWriteLast open_client = 0" "tnstate open_client = (\<lambda>i. tn_clear)" "trace open_client = []"
  "port open_client = sample_port" "ModemState open_client = 0"
  "ModemStateMask open_client = 255" "InputFlow open_client" "rx_inv open_client"
  "InitialPortSettings open_client = None"
  by (simp_all add: open_client_def loop_inv_def net_ok_def dev_ok_def rx_inv_def net_bytes_def
      dev_bytes_def fresh_sercd_def sercd_globals_def)

lemma device_in_fills:
  assumes "loop_inv s" and "DeviceFd s \<noteq> None"
    and "n = min readbuf_size (unat (BufferRoomLeft (ToNetBuf s)) div EscWriteChar_bytes)"
    and "dev_read E = ReadData d" and "take n d \<noteq> []"
  shows "\<exists>t. device_in T E s = Inr (Next t) \<and> loop_inv t \<and> onward s t \<and>
    net_bytes t = net_bytes s @ esc_bytes (sends_binary s) (EscWriteLast s) (take n d) \<and>
    dev_bytes t = dev_bytes s \<and> trace t = trace s @ [DevRead (take n d)] \<and>
    ModemState t = ModemState s \<and>
    ModemStateMask t = ModemStateMask s \<and> port t = port s"
proof -
  have nb: "\<not> blocked (sizeof_long s) (dev_read E)"
    and go: "\<not> IOResultError (read_result (dev_read E) n) (read_would_block (dev_read E))"
    and bs: "read_bytes (dev_read E) n = take n d"
    using assms(4,5) by (auto simp: blocked_def IOResultError_read read_bytes_def)
  obtain fd where fd: "DeviceFd s = Some fd"
    using assms(2) by blast
  note ok = inv_open [OF assms(1,2)]
  let ?s1 = "emit (DevRead (take n d)) (s\<lparr>readbuf := overlay (take n d) (readbuf s)\<rparr>)"
  have "device_in T E s = Inr (Next (escaped (take n d) ?s1))"
    using device_in_data [OF fd ok(1) go assms(3) nb, of T] unfolding bs .
  moreover have "length (take n d) \<le> n"
    by simp
  then have "length (net_bytes s) + 2 * length (take n d) \<le> 2047"
    using net_len_le [of s]
    unfolding assms(3) BufferRoomLeft_nat net_bytes_def EscWriteChar_bytes_def by linarith
  then have "net_bytes (escaped (take n d) ?s1) =
      net_bytes s @ esc_bytes (sends_binary s) (EscWriteLast s) (take n d)"
    using escaped_bytes [of ?s1 "take n d"] ok(1) by (simp add: sends_binary_def)
  ultimately show ?thesis
    using assms(1) ok
    by (simp add: loop_inv_def onward_def) (simp add: escaped_def emit_def net_put_def)
qed

text \<open>
  What the port delivers is appended to the network buffer in order, with Telnet's escapes, and
  without loss: the loop never reads more than it can escape into the room there is.
\<close>

theorem device_data_forwarded:
  assumes "loop_inv s" and "DeviceFd s \<noteq> None"
    and "n = min readbuf_size (unat (BufferRoomLeft (ToNetBuf s)) div EscWriteChar_bytes)"
    and "dev_read E = ReadData d" and "take n d \<noteq> []"
  shows "\<exists>t. device_in T E s = Inr (Next t) \<and>
    net_bytes t = net_bytes s @ esc_bytes (sends_binary s) (EscWriteLast s) (take n d) \<and>
    dev_bytes t = dev_bytes s \<and> trace t = trace s @ [DevRead (take n d)]"
  using device_in_fills [OF assms, of T] by blast

theorem device_data_forwarded_witness:
  "\<exists>t. device_in mem_tty (quiet_env\<lparr>dev_read := ReadData [65, 255]\<rparr>) open_client = Inr (Next t) \<and>
    net_bytes t = [65, 255, 255]"
proof -
  have "take 512 [65, 255 :: byte] = [65, 255]" "loop_inv open_client" "net_bytes open_client = []"
    by simp_all
  then show ?thesis
    using device_data_forwarded [OF \<open>loop_inv open_client\<close> _ refl,
        where E = "quiet_env\<lparr>dev_read := ReadData [65, 255]\<rparr>" and d = "[65, 255]" and T = mem_tty]
    by (auto simp: BufferRoomLeft_nat readbuf_size_def EscWriteChar_bytes_def esc_char_def
        simp flip: net_bytes_def)
qed

text \<open>What was written to the port, and to the network, according to the trace.\<close>

fun written_dev :: "event list \<Rightarrow> byte list" where
  "written_dev [] = []"
| "written_dev (DevWritten bs # es) = bs @ written_dev es"
| "written_dev (_ # es) = written_dev es"

fun written_net :: "event list \<Rightarrow> byte list" where
  "written_net [] = []"
| "written_net (NetWritten bs # es) = bs @ written_net es"
| "written_net (_ # es) = written_net es"

lemma written_append [simp]:
  "written_dev (xs @ ys) = written_dev xs @ written_dev ys"
  "written_net (xs @ ys) = written_net xs @ written_net ys"
  by (induction xs rule: written_dev.induct) simp_all


lemma write_progress:
  assumes "buf_ok B" and "contents B \<noteq> []" and "0 < j" and "n = min j (unat (GetBufferString B))"
  shows "write_result (WriteTakes j) (unat (GetBufferString B)) = int n"
    and "\<not> IOResultError (int n) w" and "string_bytes B n = Inr (take n (contents B))"
    and "contents (BufferPopBytes B (word_of_int (int n))) = drop n (contents B)"
    and "0 < n" and "n \<le> length (contents B)"
proof -
  have n: "0 < n" "n \<le> unat (GetBufferString B)" "n \<le> length (contents B)"
    using assms GetBufferString_pos [OF assms(1,2)] GetBufferString_le [OF assms(1)] by simp_all
  then have "n < 2048"
    using length_contents_less [of B] by linarith
  then have "n < 2 ^ LENGTH(32)"
    by simp
  then have "unat (word_of_int (int n) :: u32) = n"
    by (simp only: of_int_of_nat_eq unsigned_of_nat take_bit_nat_eq_self of_nat_id)
  then show "contents (BufferPopBytes B (word_of_int (int n))) = drop n (contents B)"
    using BufferPopBytes_drop [OF assms(1), of "word_of_int (int n)"] n(3) by simp
  show "string_bytes B n = Inr (take n (contents B))"
    using GetBufferString_in_array [OF assms(1)] n(2) buffer_bytes_take [OF assms(1) n(2)]
    by (simp add: string_bytes_def BufferSize_def)
  show "write_result (WriteTakes j) (unat (GetBufferString B)) = int n" "\<not> IOResultError (int n) w"
    using n(1) by (simp_all add: write_result_def assms(4) IOResultError_def)
  show "0 < n" "n \<le> length (contents B)"
    by (fact n)+
qed

text \<open>
  C33. What \<open>write\<close> takes is the front of the buffer and leaves the rest: the bytes written so far
  followed by those in the buffer stay the same sequence, and a write that takes any makes progress.
\<close>

theorem output_in_order:
  assumes "loop_inv s" and "DeviceFd s \<noteq> None" and "dev_write E = WriteTakes j" and "0 < j"
    and "net_write E = WriteTakes k" and "0 < k"
  shows "(dev_bytes s \<noteq> [] \<longrightarrow>
      (\<exists>t. device_out T E s = Inr (Next t) \<and>
        written_dev (trace t) @ dev_bytes t = written_dev (trace s) @ dev_bytes s \<and>
        length (dev_bytes t) < length (dev_bytes s))) \<and>
    (net_bytes s \<noteq> [] \<longrightarrow>
      (\<exists>t. socket_out T E s = Inr (Next t) \<and>
        written_net (trace t) @ net_bytes t = written_net (trace s) @ net_bytes s \<and>
        length (net_bytes t) < length (net_bytes s)))"
proof -
  note ok = inv_open [OF assms(1,2)]
  obtain fd nfd where fds: "DeviceFd s = Some fd" "OutSocketFd s = Some nfd"
    using assms(2) ok(4) coherent [OF assms(1)] by auto
  have bufs: "buf_ok (ToDevBuf s)" "buf_ok (ToNetBuf s)"
    using ok by (simp_all add: dev_ok_def net_ok_def)
  have dev: "\<exists>t. device_out T E s = Inr (Next t) \<and>
        written_dev (trace t) @ dev_bytes t = written_dev (trace s) @ dev_bytes s \<and>
        length (dev_bytes t) < length (dev_bytes s)" if "dev_bytes s \<noteq> []"
    using write_progress [OF bufs(1) _ assms(4) refl] that fds(1) assms(3)
    by (simp add: device_out_def Let_def deref_def dev_bytes_def)
  have net: "\<exists>t. socket_out T E s = Inr (Next t) \<and>
        written_net (trace t) @ net_bytes t = written_net (trace s) @ net_bytes s \<and>
        length (net_bytes t) < length (net_bytes s)" if "net_bytes s \<noteq> []"
    using write_progress [OF bufs(2) _ assms(6) refl] that fds(2) assms(5)
    by (simp add: socket_out_def Let_def deref_def net_bytes_def)
  show ?thesis
    using dev net by blast
qed

theorem output_in_order_witness:
  "\<exists>t. device_out mem_tty (quiet_env\<lparr>dev_write := WriteTakes 1, net_write := WriteTakes 1\<rparr>)
      (dev_put [65, 66] open_client) = Inr (Next t) \<and>
    written_dev (trace t) @ dev_bytes t = [65, 66]"
proof -
  let ?s = "dev_put [65, 66] open_client"
  have d: "dev_ok open_client" "bufs_ok open_client"
    using inv_open [of open_client] by (simp_all add: bufs_ok_def)
  have s: "loop_inv ?s" "DeviceFd ?s = Some 7" "dev_bytes ?s = [65, 66]" "trace ?s = []"
    using dev_bytes_put [of open_client "[65, 66]"] d
    by (simp_all add: loop_inv_def dev_put_def net_ok_def dev_ok_def bufs_ok_def)
  show ?thesis
    using output_in_order [of ?s "quiet_env\<lparr>dev_write := WriteTakes 1, net_write := WriteTakes 1\<rparr>"
        1 1 mem_tty] s by auto
qed


section \<open>Streams over an iteration\<close>

text \<open>
  Everything that has gone to the port, or to the network, and what is waiting to: as long as the
  connection lasts and no write would block, an iteration only adds to either stream.
\<close>

definition dev_stream :: "'p sercd \<Rightarrow> byte list" where
  "dev_stream s = written_dev (trace s) @ dev_bytes s"

definition net_stream :: "'p sercd \<Rightarrow> byte list" where
  "net_stream s = written_net (trace s) @ net_bytes s"

definition extends :: "'p sercd \<Rightarrow> 'p sercd \<Rightarrow> bool" where
  "extends s t \<longleftrightarrow> (\<exists>ds. dev_stream t = dev_stream s @ ds) \<and> (\<exists>bs. net_stream t = net_stream s @ bs)"

lemma extends_refl [simp]: "extends s s"
  by (simp add: extends_def)

lemma extends_trans: "extends s t \<Longrightarrow> extends t u \<Longrightarrow> extends s u"
  by (auto simp: extends_def)

definition unblocked :: "write_answer \<Rightarrow> bool" where
  "unblocked w \<longleftrightarrow> w \<noteq> WriteFailed True"

definition grows :: "'p sercd \<Rightarrow> fault + 'p stage \<Rightarrow> bool" where
  "grows s r \<longleftrightarrow> (case r of Inr (Next t) \<Rightarrow> extends s t | _ \<Rightarrow> True)"

lemma stream_simps [simp]:
  "dev_stream (emit (DevRead bs) s) = dev_stream s" "net_stream (emit (DevRead bs) s) = net_stream s"
  "dev_stream (emit (NetRead bs) s) = dev_stream s" "net_stream (emit (NetRead bs) s) = net_stream s"
  "dev_stream (readbuf_update g s) = dev_stream s" "net_stream (readbuf_update g s) = net_stream s"
  by (simp_all add: dev_stream_def net_stream_def)

lemma extends_put:
  "trace t = trace s \<Longrightarrow> dev_bytes t = dev_bytes s @ ds \<Longrightarrow> net_bytes t = net_bytes s @ bs \<Longrightarrow>
    extends s t"
  by (simp add: extends_def dev_stream_def net_stream_def)

lemma device_in_grows:
  assumes "loop_inv s" and "DeviceFd s \<noteq> None"
  shows "grows s (device_in T E s)"
proof -
  let ?n = "min readbuf_size (unat (BufferRoomLeft (ToNetBuf s)) div EscWriteChar_bytes)"
  let ?bs = "read_bytes (dev_read E) ?n"
  let ?s1 = "emit (DevRead ?bs) (s\<lparr>readbuf := overlay ?bs (readbuf s)\<rparr>)"
  obtain fd where fd: "DeviceFd s = Some fd"
    using assms(2) by blast
  note ok = inv_open [OF assms]
  consider "IOResultError (read_result (dev_read E) ?n) (read_would_block (dev_read E))"
    | "blocked (sizeof_long s) (dev_read E)"
    | "\<not> IOResultError (read_result (dev_read E) ?n) (read_would_block (dev_read E))"
      "\<not> blocked (sizeof_long s) (dev_read E)"
    by blast
  then show ?thesis
  proof cases
    case 1
    then show ?thesis
      using fd by (simp add: device_in_def Let_def deref_def grows_def)
  next
    case 2
    then show ?thesis
      using device_in_blocked [OF 2 fd, of T] by (auto simp: grows_def)
  next
    case 3
    have "length (net_bytes s) + 2 * length ?bs \<le> 2047"
      using length_read_bytes [of "dev_read E" ?n] net_len_le [of s]
      unfolding BufferRoomLeft_nat net_bytes_def EscWriteChar_bytes_def by linarith
    then have "extends ?s1 (escaped ?bs ?s1)"
      using escaped_bytes [of ?s1 ?bs] ok(1) by (intro extends_put [where ds = "[]"]) simp_all
    then have "extends s (escaped ?bs ?s1)"
      by (simp add: extends_def)
    then show ?thesis
      using device_in_data [OF fd ok(1) 3(1) refl 3(2), of T] by (simp add: grows_def)
  qed
qed

lemma popped:
  assumes "buf_ok B" and "unblocked w"
    and "\<not> IOResultError (write_result w (unat (GetBufferString B))) (write_would_block w)"
  shows "\<exists>n. string_bytes B (nat (write_result w (unat (GetBufferString B))))
      = Inr (take n (contents B)) \<and>
    contents (BufferPopBytes B (word_of_int (write_result w (unat (GetBufferString B))))) =
      drop n (contents B)"
proof (cases w)
  case (WriteFailed b)
  then show ?thesis
    using assms(2,3) by (simp add: unblocked_def write_result_def write_would_block_def
        IOResultError_def)
next
  case (WriteTakes j)
  then have "0 < j" "unat (GetBufferString B) \<noteq> 0"
    using assms(3) by (auto simp: write_result_def IOResultError_def)
  moreover from this have "contents B \<noteq> []"
    using GetBufferString_le [OF assms(1)] by auto
  ultimately show ?thesis
    using write_progress [OF assms(1) _ _ refl, of j] WriteTakes by auto
qed

lemma output_grows:
  assumes "loop_inv s"
  shows "DeviceFd s \<noteq> None \<Longrightarrow> unblocked (dev_write E) \<Longrightarrow> grows s (device_out T E s)"
    and "OutSocketFd s \<noteq> None \<Longrightarrow> unblocked (net_write E) \<Longrightarrow> grows s (socket_out T E s)"
proof -
  assume dev: "DeviceFd s \<noteq> None" "unblocked (dev_write E)"
  have "buf_ok (ToDevBuf s)"
    using inv_open(2) [OF assms dev(1)] by (simp add: dev_ok_def)
  note pop = popped [OF this dev(2)]
  show "grows s (device_out T E s)"
    using dev(1) pop
    by (auto simp: device_out_def Let_def deref_def grows_def extends_def dev_stream_def
        net_stream_def dev_bytes_def net_bytes_def bind_r_def split: sum.splits)
next
  assume net: "OutSocketFd s \<noteq> None" "unblocked (net_write E)"
  have "buf_ok (ToNetBuf s)"
    using assms net(1) by (auto simp: loop_inv_def net_ok_def)
  note pop = popped [OF this net(2)]
  show "grows s (socket_out T E s)"
    using net(1) pop
    by (auto simp: socket_out_def Let_def deref_def grows_def extends_def dev_stream_def
        net_stream_def dev_bytes_def net_bytes_def bind_r_def split: sum.splits)
qed

lemma socket_in_grows:
  assumes "loop_inv s" and "DeviceFd s \<noteq> None"
  shows "grows s (socket_in T E s)"
proof -
  let ?n = "min (min readbuf_size
      (unat (BufferRoomLeft (ToNetBuf s)) div EscRedirectChar_bytes_SockB (sizeof_long s)))
      (unat (BufferRoomLeft (ToDevBuf s)) div EscRedirectChar_bytes_DevB)"
  let ?bs = "read_bytes (net_read E) ?n"
  let ?s1 = "emit (NetRead ?bs) (s\<lparr>readbuf := overlay ?bs (readbuf s)\<rparr>)"
  note ok = inv_open [OF assms]
  have bufs: "bufs_ok s"
    using ok by (simp add: bufs_ok_def)
  consider "IOResultError (read_result (net_read E) ?n) (read_would_block (net_read E))"
    | "blocked (sizeof_long s) (net_read E)"
    | "\<not> IOResultError (read_result (net_read E) ?n) (read_would_block (net_read E))"
      "\<not> blocked (sizeof_long s) (net_read E)"
    by blast
  then show ?thesis
  proof cases
    case 1
    then show ?thesis
      using ok(4) by (auto simp: socket_in_def Let_def deref_def grows_def)
  next
    case 2
    then show ?thesis
      using socket_in_blocked [OF 2 ok(4), of T] by (auto simp: grows_def)
  next
    case 3
    have "extends s t" if "receiving ?s1 m m t" for m t
    proof -
      have "extends ?s1 t"
        using that by (auto simp: receiving_def base_kept_def intro: extends_put)
      then show ?thesis
        by (simp add: extends_def)
    qed
    then show ?thesis
      using socket_in_data [OF ok(4) assms(2) bufs ok(3) 3(1) refl 3(2) refl, of T]
      by (auto simp: grows_def split: sum.splits)
  qed
qed

lemma connected_idle:
  assumes "loop_inv s" and "DeviceFd s \<noteq> None"
  shows "grows s (open_port T E s)"
    and "LSocketFd s \<noteq> None \<Longrightarrow> grows s (socket_connect E s)"
  using inv_open(4) [OF assms] assms(2) coherent [OF assms(1)]
  by (auto simp: open_port_def socket_connect_def deref_def Let_def grows_def extends_def
      dev_stream_def net_stream_def)

lemma modem_state_grows:
  assumes "loop_inv s" and "DeviceFd s \<noteq> None"
  shows "grows s (modem_state T s)"
proof -
  have "extends s t" if "SendCPCByteCommand c v (s\<lparr>ModemState := m\<rparr>) = Inr t" for c v m t
  proof -
    let ?s1 = "s\<lparr>ModemState := m\<rparr>"
    let ?o = "[TNIAC, TNSB, TNCOM_PORT_OPTION, c] @ esc_char (sends_binary ?s1) (EscWriteLast ?s1) v @
       [TNIAC, TNSE]"
    have ok: "net_ok ?s1"
      using inv_open(1) [OF assms] by (simp add: net_ok_def)
    then have fits: "length (net_bytes ?s1) + length ?o \<le> 2047"
      using cpc_sender.send_full [OF ok, of c v] that by fastforce
    then have "t = (net_put ?o ?s1)\<lparr>EscWriteLast := v\<rparr>"
      using cpc_sender.send_fits [OF ok fits] that by simp
    then have "trace t = trace s" "dev_bytes t = dev_bytes s @ []" "net_bytes t = net_bytes s @ ?o"
      using net_bytes_put [OF ok fits] by (simp_all add: net_put_def dev_bytes_def net_bytes_def)
    then show ?thesis
      by (rule extends_put)
  qed
  then show ?thesis
    using assms(2)
    by (auto simp: modem_state_def deref_def Let_def next_r_def grows_def bind_r_def
        split: sum.splits)
qed

lemma grows_then:
  assumes "stage_ok Q s r" and "grows s r"
    and "\<And>t. loop_inv t \<Longrightarrow> onward s t \<Longrightarrow> r = Inr (Next t) \<Longrightarrow> grows t (f t)"
  shows "grows s (and_then r f)"
proof (cases r)
  case (Inr x)
  show ?thesis
  proof (cases x)
    case (Next t)
    then have "loop_inv t" "onward s t" "extends s t"
      using assms(1,2) Inr by (simp_all add: stage_ok_def grows_def)
    then show ?thesis
      using assms(3) [of t] Inr Next extends_trans [of s t]
      by (auto simp: grows_def split: sum.splits stage.splits)
  qed (use Inr in \<open>simp add: grows_def\<close>)
qed (simp add: grows_def)

lemma handle_events_grows:
  assumes "loop_inv s" and "DeviceFd s \<noteq> None" and "events_ok selret s"
    and "unblocked (dev_write E)" and "unblocked (net_write E)"
  shows "grows s (handle_events T E selret s)"
proof -
  have open_after: "DeviceFd t \<noteq> None" if "onward s t" for t
    using that assms(2) by (auto simp: onward_def)
  show ?thesis
  proof (rule handle_events_stages [OF assms(1,3), where K = grows])
    show "grows t (and_then r f)" if "stage_ok (\<lambda>e. True) t r" "grows t r"
        "\<And>u. loop_inv u \<Longrightarrow> onward t u \<Longrightarrow> r = Inr (Next u) \<Longrightarrow> grows u (f u)" for t r f
      using that by (rule grows_then)
  qed (use assms(4,5) open_after in \<open>auto intro: device_in_grows output_grows socket_in_grows
      connected_idle modem_state_grows simp: grows_def [of _ "Inr (Next _)"]\<close>)
qed

text \<open>
  While a connection lasts, an iteration in which no write would block loses and reorders
  nothing: what has been written to the port followed by what waits for it is a prefix of the same
  after the iteration, and so it is for the network.
\<close>

theorem streams_only_extended:
  assumes "loop_inv s" and "DeviceFd s \<noteq> None" and "events_ok selret s"
    and "unblocked (dev_write E)" and "unblocked (net_write E)"
    and "handle_events T E selret s = Inr (Next t)"
  shows "(\<exists>ds. written_dev (trace t) @ dev_bytes t = (written_dev (trace s) @ dev_bytes s) @ ds) \<and>
    (\<exists>bs. written_net (trace t) @ net_bytes t = (written_net (trace s) @ net_bytes s) @ bs)"
  using handle_events_grows [OF assms(1-5), of T] assms(6)
  unfolding grows_def extends_def dev_stream_def net_stream_def by simp

theorem streams_only_extended_witness:
  "\<exists>t. handle_events mem_tty (quiet_env\<lparr>dev_read := ReadData [65], dev_write := WriteTakes 1,
      net_write := WriteTakes 1\<rparr>) {SERCD_EV_DEVICEIN} open_client = Inr (Next t) \<and>
    (\<exists>bs. written_net (trace t) @ net_bytes t =
      (written_net (trace open_client) @ net_bytes open_client) @ bs)"
proof -
  let ?E = "quiet_env\<lparr>dev_read := ReadData [65], dev_write := WriteTakes 1,
      net_write := WriteTakes 1\<rparr> :: mem_port env"
  have "\<not> IOResultError (read_result (dev_read ?E) n) (read_would_block (dev_read ?E))"
    if "n = min readbuf_size (unat (BufferRoomLeft (ToNetBuf open_client)) div EscWriteChar_bytes)"
    for n
    unfolding that
    by (simp add: IOResultError_read BufferRoomLeft_nat readbuf_size_def EscWriteChar_bytes_def
        flip: net_bytes_def)
  then obtain u where "device_in mem_tty ?E open_client = Inr (Next u)" "DeviceFd u = Some 7"
    using device_in_data [of open_client 7 ?E _ mem_tty] inv_open(1) [of open_client]
    by (simp add: blocked_def)
  then have "\<exists>t. handle_events mem_tty ?E {SERCD_EV_DEVICEIN} open_client = Inr (Next t)"
    by (simp add: handle_events_def on_def open_port_def)
  moreover have "events_ok {SERCD_EV_DEVICEIN} open_client"
    by (simp add: events_ok_def)
  ultimately show ?thesis
    using streams_only_extended [of open_client "{SERCD_EV_DEVICEIN}" ?E mem_tty]
    by (auto simp: unblocked_def)
qed

section \<open>Where the loop goes wrong\<close>

lemma notification_full:
  assumes "net_ok s" and "2047 < length (net_bytes s) + 7"
  shows "SendCPCByteCommand c v s = Inl AssertionFailure"
  by (rule cpc_sender.send_full) (use assms in \<open>simp_all add: esc_char_def\<close>)

lemma net_put_simps [simp]:
  "DeviceFd (net_put bs s) = DeviceFd s" "InSocketFd (net_put bs s) = InSocketFd s"
  "OutSocketFd (net_put bs s) = OutSocketFd s" "EscWriteLast (net_put bs s) = EscWriteLast s"
  "ModemState (net_put bs s) = ModemState s" "ModemStateMask (net_put bs s) = ModemStateMask s"
  "port (net_put bs s) = port s" "rx_inv (net_put bs s) = rx_inv s"
  "dev_ok (net_put bs s) = dev_ok s" "sends_binary (net_put bs s) = sends_binary s"
  by (simp_all add: net_put_def dev_ok_def sends_binary_def)

lemma net_filled:
  assumes "loop_inv s" and "DeviceFd s \<noteq> None" and "net_bytes s = []" and "length bs \<le> 2047"
  shows "loop_inv (net_put bs s)" and "net_bytes (net_put bs s) = bs"
proof -
  note ok = inv_open [OF assms(1,2)]
  show "loop_inv (net_put bs s)"
    using assms(1) ok by (simp add: loop_inv_def)
  show "net_bytes (net_put bs s) = bs"
    using net_bytes_put [OF ok(1), of bs] assms(3,4) by simp
qed

text \<open>The same client, with the ring line raised at the port.\<close>

definition rung_client :: "mem_port sercd" where
  "rung_client = open_client\<lparr>port := sample_port\<lparr>mp_lines := 0x80\<rparr>\<rparr>"

lemma rung_client_simps [simp]:
  "loop_inv rung_client" "DeviceFd rung_client = Some 7" "net_bytes rung_client = []"
  "EscWriteLast rung_client = 0" "ModemState rung_client = 0" "ModemStateMask rung_client = 255"
  "mp_lines (port rung_client) = 0x80" "sends_binary rung_client = False"
  by (simp_all add: rung_client_def open_client_def loop_inv_def net_ok_def dev_ok_def rx_inv_def
      net_bytes_def sends_binary_def tn_clear_def fresh_sercd_def sercd_globals_def)

text \<open>
  The room for a notification of the modem state is checked before the port is read, and not
  again: when both fall into one iteration and the bytes read leave less than seven, the assertion in
  \<open>AddToBuffer\<close> fails and ends the program.
\<close>

theorem modem_notification_asserts:
  assumes "loop_inv s" and "DeviceFd s \<noteq> None"
    and "n = min readbuf_size (unat (BufferRoomLeft (ToNetBuf s)) div EscWriteChar_bytes)"
    and "dev_read E = ReadData d" and "take n d \<noteq> []"
    and "2047 < length (net_bytes s) +
      length (esc_bytes (sends_binary s) (EscWriteLast s) (take n d)) + 7"
    and "GetModemState T (port s) (ModemState s) AND ModemStateMask s AND TNCOM_MODMASK_NODELTA \<noteq>
      ModemState s AND ModemStateMask s AND TNCOM_MODMASK_NODELTA"
  shows "handle_events T E {SERCD_EV_DEVICEIN, SERCD_EV_MODEMSTATE} s = Inl AssertionFailure"
proof -
  obtain t where t: "device_in T E s = Inr (Next t)" "loop_inv t" "onward s t"
      "net_bytes t = net_bytes s @ esc_bytes (sends_binary s) (EscWriteLast s) (take n d)"
      "ModemState t = ModemState s" "ModemStateMask t = ModemStateMask s" "port t = port s"
    using device_in_fills [OF assms(1-5), of T] by blast
  have dev: "DeviceFd t \<noteq> None"
    using t(3) assms(2) by (auto simp: onward_def)
  have "modem_state T t = Inl AssertionFailure"
    using dev assms(6,7) t(4-7) notification_full [of "t\<lparr>ModemState := m\<rparr>" for m]
      inv_open(1) [OF t(2) dev]
    by (auto simp: modem_state_def deref_def Let_def next_r_def net_ok_def net_bytes_def)
  then show ?thesis
    using t(1) dev by (auto simp: handle_events_def on_def open_port_def)
qed

theorem modem_notification_asserts_witness:
  "handle_events mem_tty (quiet_env\<lparr>dev_read := ReadData [1, 2, 3, 4, 5]\<rparr>)
     {SERCD_EV_DEVICEIN, SERCD_EV_MODEMSTATE} (net_put (replicate 2037 0) rung_client)
   = Inl AssertionFailure"
proof -
  let ?s = "net_put (replicate 2037 0) rung_client"
  have s: "loop_inv ?s" "DeviceFd ?s = Some 7" "length (net_bytes ?s) = 2037"
      "sends_binary ?s = False" "EscWriteLast ?s = 0" "ModemState ?s = 0" "ModemStateMask ?s = 255"
      "mp_lines (port ?s) = 0x80"
    using net_filled [of rung_client "replicate 2037 0"] by simp_all
  have "GetModemState mem_tty (port ?s) 0 = 64 + 4"
    using s(8) by (simp add: GetModemState_def mem_tty_def termios_bits Let_def)
  moreover have "min readbuf_size (unat (BufferRoomLeft (ToNetBuf ?s)) div EscWriteChar_bytes) = 5"
    using s(3) by (simp add: BufferRoomLeft_nat readbuf_size_def EscWriteChar_bytes_def net_bytes_def)
  ultimately show ?thesis
    using modem_notification_asserts [OF s(1) _ refl,
        of "quiet_env\<lparr>dev_read := ReadData [1, 2, 3, 4, 5]\<rparr>" "[1, 2, 3, 4, 5]" mem_tty] s(2-7)
    by (simp add: NODELTA_eq esc_char_def)
qed

text \<open>
  The room for network input is computed again after the port was read, and may then be less
  than one byte needs. The program asks for no bytes, takes the answer for the end of the stream, and
  drops a client that had data to send.
\<close>

theorem busy_port_drops_client:
  assumes "loop_inv s" and "DeviceFd s \<noteq> None"
    and "n = min readbuf_size (unat (BufferRoomLeft (ToNetBuf s)) div EscWriteChar_bytes)"
    and "dev_read E = ReadData d" and "take n d \<noteq> []"
    and "2047 < length (net_bytes s) +
      length (esc_bytes (sends_binary s) (EscWriteLast s) (take n d)) + 516"
    and "net_read E = ReadData m"
  shows "\<exists>t. handle_events T E {SERCD_EV_DEVICEIN, SERCD_EV_SOCKETIN} s = Inr (Continue t) \<and>
    InSocketFd t = None \<and> DeviceFd t = None"
proof -
  obtain t where t: "device_in T E s = Inr (Next t)" "loop_inv t" "onward s t"
      "net_bytes t = net_bytes s @ esc_bytes (sends_binary s) (EscWriteLast s) (take n d)"
    using device_in_fills [OF assms(1-5), of T] by blast
  have dev: "DeviceFd t \<noteq> None"
    using t(3) assms(2) by (auto simp: onward_def)
  have "unat (BufferRoomLeft (ToNetBuf t)) div EscRedirectChar_bytes_SockB a = 0" for a
    using assms(6) t(4)
    by (simp add: BufferRoomLeft_nat EscRedirectChar_bytes_SockB_def flip: net_bytes_def)
  then have "\<exists>u. socket_in T E t = Inr (Continue (drop_client T u))"
    using inv_open(4) [OF t(2) dev] assms(7)
    by (auto simp: socket_in_def Let_def deref_def read_result_def read_bytes_def
        read_would_block_def IOResultError_def)
  then obtain u where "socket_in T E t = Inr (Continue (drop_client T u))" ..
  then show ?thesis
    using t(1) by (simp add: handle_events_def on_def) (simp add: drop_client_def)
qed

theorem busy_port_drops_client_witness:
  "\<exists>t. handle_events mem_tty
      (quiet_env\<lparr>dev_read := ReadData [1, 2, 3], net_read := ReadData [65]\<rparr>)
      {SERCD_EV_DEVICEIN, SERCD_EV_SOCKETIN} (net_put (replicate 1531 0) open_client)
    = Inr (Continue t) \<and> InSocketFd t = None"
proof -
  let ?s = "net_put (replicate 1531 0) open_client"
  have s: "loop_inv ?s" "DeviceFd ?s = Some 7" "length (net_bytes ?s) = 1531"
      "sends_binary ?s = False" "EscWriteLast ?s = 0"
    using net_filled [of open_client "replicate 1531 0"]
    by (simp_all add: sends_binary_def tn_clear_def)
  have "min readbuf_size (unat (BufferRoomLeft (ToNetBuf ?s)) div EscWriteChar_bytes) = 258"
    using s(3) by (simp add: BufferRoomLeft_nat readbuf_size_def EscWriteChar_bytes_def net_bytes_def)
  then show ?thesis
    using busy_port_drops_client [OF s(1) _ refl,
        of "quiet_env\<lparr>dev_read := ReadData [1, 2, 3], net_read := ReadData [65]\<rparr>" "[1, 2, 3]" "[65]"
        mem_tty] s(2-5)
    by (auto simp: esc_char_def)
qed

text \<open>
  A read of the port that would block is harmless where \<open>ssize_t\<close> has 64 bits. Where it has 32,
  -1 is compared as an unsigned number, the loop over the read buffer has more than four thousand
  million rounds, and the program fails.
\<close>

theorem blocked_read_by_word_size:
  assumes "loop_inv s" and "DeviceFd s \<noteq> None" and "dev_read E = ReadFailed True"
  shows "if sizeof_long s = ILP32 then \<exists>e. device_in T E s = Inl e
    else \<exists>t. device_in T E s = Inr (Next t) \<and> net_bytes t = net_bytes s \<and>
      dev_bytes t = dev_bytes s \<and> trace t = trace s @ [DevRead []]"
proof -
  obtain fd where fd: "DeviceFd s = Some fd"
    using assms(2) by blast
  note ok = inv_open [OF assms(1,2)]
  have go: "\<not> IOResultError (read_result (dev_read E) n) (read_would_block (dev_read E))" for n
    using assms(3) by (simp add: IOResultError_def read_result_def read_would_block_def)
  have bs: "read_bytes (dev_read E) n = []" for n
    using assms(3) by (simp add: read_bytes_def)
  show ?thesis
  proof (cases "sizeof_long s")
    case ILP32
    then show ?thesis
      using device_in_blocked [OF _ fd, of E T] assms(3) by (simp add: blocked_def)
  next
    case LP64
    then have "\<not> blocked (sizeof_long s) (dev_read E)"
      by (simp add: blocked_def)
    then show ?thesis
      using device_in_data [OF fd ok(1) go refl, of T] LP64
        escaped_bytes [of "emit (DevRead []) (s\<lparr>readbuf := overlay [] (readbuf s)\<rparr>)" "[]"] ok(1)
      by (simp add: bs)
  qed
qed

theorem blocked_read_by_word_size_witness:
  "\<exists>e. device_in mem_tty quiet_env (open_client\<lparr>sizeof_long := ILP32\<rparr>) = Inl e"
proof -
  have "loop_inv (open_client\<lparr>sizeof_long := ILP32\<rparr>)"
    using open_client_simps(1)
    unfolding loop_inv_def net_ok_def dev_ok_def rx_inv_def by simp
  then show ?thesis
    using blocked_read_by_word_size [of "open_client\<lparr>sizeof_long := ILP32\<rparr>" quiet_env mem_tty]
    by (simp add: quiet_env_def)
qed

text \<open>
  A write to the port that would block moves the read position back by one: a byte that was
  written before is put in front of the buffer again, and a full buffer is emptied.
\<close>

theorem blocked_write_moves_back:
  assumes "loop_inv s" and "DeviceFd s \<noteq> None" and "dev_write E = WriteFailed True"
  shows "\<exists>t. device_out T E s = Inr (Next t) \<and>
    dev_bytes t = (if length (dev_bytes s) = 2047 then []
      else Buffer (ToDevBuf s) ((unat (RdPos (ToDevBuf s)) + 2047) mod 2048) # dev_bytes s)"
proof -
  have ok: "buf_ok (ToDevBuf s)"
    using inv_open(2) [OF assms(1,2)] by (simp add: dev_ok_def)
  have res: "write_result (dev_write E) n = -1" "write_would_block (dev_write E)" for n
    using assms(3) by (simp_all add: write_result_def write_would_block_def)
  have "string_bytes (ToDevBuf s) 0 = Inr []"
    using ok by (simp add: string_bytes_def buffer_bytes_def buf_ok_nat BufferSize_def)
  then show ?thesis
    using assms(2) pop_minus_one_contents [OF ok] res
    by (auto simp: device_out_def Let_def deref_def IOResultError_def dev_bytes_def)
qed

theorem blocked_write_moves_back_witness:
  "\<exists>t. device_out mem_tty quiet_env open_client = Inr (Next t) \<and> length (dev_bytes t) = 1"
  using blocked_write_moves_back [of open_client quiet_env mem_tty] by (auto simp: quiet_env_def)

definition same_client_state :: "'p sercd \<Rightarrow> 'p sercd \<Rightarrow> bool" where
  "same_client_state s t \<longleftrightarrow> InputFlow t = InputFlow s \<and> ModemStateMask t = ModemStateMask s \<and>
     LineStateMask t = LineStateMask s \<and> BreakSignaled t = BreakSignaled s"

lemma initial_client_state:
  assumes "net_ok s" and "length (net_bytes s) + 18 \<le> 2047"
  shows "\<exists>s'. SendTelnetInitialOptions s = Inr s' \<and> kept s s' \<and> same_client_state s s' \<and>
    net_bytes s' = net_bytes s @ initial_options"
  using assms
  by (simp add: SendTelnetInitialOptions_def option_sent net_bytes_put initial_options_def)
    (simp add: kept_def same_client_state_def upd_tn_def net_put_def)

text \<open>
  A new client is announced, its socket made non-blocking and given its options, and the opening
  negotiation is put into the emptied network buffer. Only the Telnet options and that buffer are
  reset. What the client before asked for stays: a suspended input, so that the new client gets no
  data and no notification, the masks, and a command it left unfinished.
\<close>

theorem state_outlives_client:
  assumes "LSocketFd s \<noteq> None" and "InSocketFd s = None" and "0 \<le> accepted E"
  shows "\<exists>t. socket_connect E s = Inr (Next t) \<and> InSocketFd t = Some (accepted E) \<and>
    net_bytes t = initial_options \<and>
    trace t = trace s @ [ChangeState STATE_CONNECTED, Accepted (accepted E)] @
      map (SocketOption (accepted E)) [SO_KEEPALIVE, SO_OOBINLINE, SO_KEEPALIVE, IP_TOS_LOWDELAY,
        IP_TOS_LOWDELAY, FIONBIO, FIONBIO] \<and>
    InputFlow t = InputFlow s \<and> (\<not> InputFlow s \<longrightarrow> DeviceIn t = None \<and> Modemstate t = None) \<and>
    ModemStateMask t = ModemStateMask s \<and> LineStateMask t = LineStateMask s \<and>
    BreakSignaled t = BreakSignaled s \<and> ModemState t = ModemState s \<and>
    IACEscape t = IACEscape s \<and> IACCommand t = IACCommand s \<and> IACPos t = IACPos s"
proof -
  let ?s1 = "SetSocketOptions (accepted E) (accepted E) (emit (Accepted (accepted E))
    ((emit (ChangeState STATE_CONNECTED) s)\<lparr>
      InSocketFd := Some (accepted E), OutSocketFd := Some (accepted E)\<rparr>))"
  let ?s3 = "InitTelnetStateMachine (?s1\<lparr>ToNetBuf := InitBuffer (ToNetBuf ?s1)\<rparr>)"
  have s3: "net_ok ?s3" "net_bytes ?s3 = []" "InSocketFd ?s3 = Some (accepted E)"
      "InputFlow ?s3 = InputFlow s" "ModemStateMask ?s3 = ModemStateMask s"
      "LineStateMask ?s3 = LineStateMask s" "BreakSignaled ?s3 = BreakSignaled s"
      "ModemState ?s3 = ModemState s" "IACEscape ?s3 = IACEscape s"
      "IACCommand ?s3 = IACCommand s" "IACPos ?s3 = IACPos s"
      "trace ?s3 = trace s @ [ChangeState STATE_CONNECTED, Accepted (accepted E)] @
        map (SocketOption (accepted E)) [SO_KEEPALIVE, SO_OOBINLINE, SO_KEEPALIVE, IP_TOS_LOWDELAY,
          IP_TOS_LOWDELAY, FIONBIO, FIONBIO]"
    by (simp_all add: SetSocketOptions_def InitTelnetStateMachine_def net_ok_def net_bytes_def emit_def)
  obtain t where t: "SendTelnetInitialOptions ?s3 = Inr t" "net_bytes t = initial_options"
      "kept ?s3 t" "same_client_state ?s3 t"
    using initial_client_state [OF s3(1)] s3(2) by auto
  have "socket_connect E s = Inr (Next t)"
    using assms t(1) by (auto simp: socket_connect_def deref_def Let_def next_r_def)
  then show ?thesis
    using t(2-4) s3(3-12)
    by (simp add: kept_def same_client_state_def DeviceIn_def Modemstate_def)
qed

theorem state_outlives_client_witness:
  "\<exists>t. socket_connect quiet_env
      ((fresh_sercd LP64 sample_port)\<lparr>LSocketFd := Some 3, InputFlow := False\<rparr>) = Inr (Next t) \<and>
    InSocketFd t = Some 5 \<and> \<not> InputFlow t"
  using state_outlives_client [of
      "(fresh_sercd LP64 sample_port)\<lparr>LSocketFd := Some 3, InputFlow := False\<rparr>" quiet_env]
  by (auto simp: fresh_sercd_def sercd_globals_def quiet_env_def)

section \<open>Notifications, closing and restarting\<close>

text \<open>
  C34. The client is told of the modem lines exactly when a line it asked about has changed, apart
  from the bits that only record a change; it gets the state under its mask, and the change counts
  as told. With room for the notification nothing fails.
\<close>

theorem modem_state_notified_on_change:
  assumes "loop_inv s" and "DeviceFd s \<noteq> None" and "length (net_bytes s) + 8 \<le> 2047"
    and "m = GetModemState T (port s) (ModemState s)"
  shows "\<exists>t. modem_state T s = Inr (Next t) \<and> dev_bytes t = dev_bytes s \<and>
    (if m AND ModemStateMask s AND TNCOM_MODMASK_NODELTA \<noteq>
        ModemState s AND ModemStateMask s AND TNCOM_MODMASK_NODELTA
     then ModemState t = m \<and> net_bytes t = net_bytes s @
       cpc_reply s TNASC_NOTIFY_MODEMSTATE (m AND ModemStateMask s)
     else t = s)"
proof -
  let ?s1 = "s\<lparr>ModemState := m\<rparr>"
  have ok: "net_ok ?s1" "length (net_bytes ?s1) + 8 \<le> 2047"
    using inv_open(1) [OF assms(1,2)] assms(3) by (simp_all add: net_ok_def net_bytes_def)
  have "cpc_reply ?s1 k v = cpc_reply s k v" for k v
    by (simp add: cpc_reply_def sends_binary_def)
  then have "\<exists>t. SendCPCByteCommand TNASC_NOTIFY_MODEMSTATE (m AND ModemStateMask s) ?s1 = Inr t \<and>
      ModemState t = m \<and> dev_bytes t = dev_bytes s \<and> net_bytes t = net_bytes s @
        cpc_reply s TNASC_NOTIFY_MODEMSTATE (m AND ModemStateMask s)"
    using cpc_sent [OF ok, of TNASC_NOTIFY_MODEMSTATE "m AND ModemStateMask s"]
    by (simp add: dev_bytes_def net_bytes_def net_put_def)
  then show ?thesis
    using assms(2) unfolding assms(4)
    by (auto simp: modem_state_def deref_def Let_def next_r_def)
qed

theorem modem_state_notified_on_change_witness:
  "\<exists>t. modem_state mem_tty rung_client = Inr (Next t) \<and>
    net_bytes t = [255, 250, 44, 107, 68, 255, 240]"
proof -
  have m: "GetModemState mem_tty (port rung_client) (ModemState rung_client) = 68"
    by (simp add: GetModemState_def mem_tty_def termios_bits Let_def)
  show ?thesis
    using modem_state_notified_on_change [of rung_client 68 mem_tty] m
    by (auto simp: NODELTA_eq cpc_reply_def esc_char_def)
qed

text \<open>
  Dropping a client tells the service, restores and closes the port, and closes the client's
  descriptor twice: both pointers lead to the one socket that was accepted.
\<close>

theorem drop_closes_socket_twice:
  assumes "loop_inv s" and "InSocketFd s = Some c"
  shows "trace (drop_client T s) = trace s @ [ChangeState STATE_READY] @
      (case DeviceFd s of None \<Rightarrow> [] | Some d \<Rightarrow> [Closed d]) @ [Closed c, Closed c] \<and>
    InSocketFd (drop_client T s) = None \<and> OutSocketFd (drop_client T s) = None \<and>
    DeviceFd (drop_client T s) = None"
proof -
  have "OutSocketFd s = Some c"
    using coherent [OF assms(1)] assms(2) by simp
  then show ?thesis
    using assms(2)
    by (auto simp: drop_client_def DropConnection_def ClosePort_def close_fd_def set_port_def
        emit_def split: option.split)
qed

theorem drop_closes_socket_twice_witness:
  "trace (drop_client mem_tty open_client) =
    [ChangeState STATE_READY, Closed 7, Closed 5, Closed 5]"
  using drop_closes_socket_twice [of open_client 5 mem_tty] by simp

text \<open>
  Stopping the service while a client is connected and starting it again leaves the socket
  pointers set: the first client after the restart is refused, as if another one were connected.
\<close>

theorem restart_refuses_clients:
  assumes "loop_inv s" and "InSocketFd s \<noteq> None" and "SercdService_exit T s = Inr s1"
    and "SercdService_main name F l b r s1 = Again s2" and "0 \<le> accepted E"
  shows "InSocketFd s2 \<noteq> None \<and>
    socket_connect E s2 = Inr (Next (emit (Closed (accepted E)) s2))"
proof -
  have "InSocketFd s1 = InSocketFd s" "OutSocketFd s1 = OutSocketFd s"
    using assms(3)
    by (auto simp: SercdService_exit_def Let_def deref_def DropConnection_def ClosePort_def
        close_fd_def emit_def set_port_def bind_r_def split: option.splits sum.splits)
  then have set: "InSocketFd s2 \<noteq> None" "OutSocketFd s2 \<noteq> None" "LSocketFd s2 = Some l"
    using assms(2,4) coherent [OF assms(1)]
    by (auto simp: SercdService_main_def Let_def emit_def split: if_splits)
  then show ?thesis
    using assms(5) by (auto simp: socket_connect_def deref_def Let_def)
qed

definition some_frame :: frame where
  "some_frame = \<lparr>frame_devicefd = 0, frame_insocket = 0, frame_ToDevBuf = fresh_buffer,
     frame_ToNetBuf = fresh_buffer, frame_readbuf = (\<lambda>i. 0)\<rparr>"

theorem restart_refuses_clients_witness:
  "\<exists>s1 s2. SercdService_exit mem_tty open_client = Inr s1 \<and>
    SercdService_main [] some_frame 3 0 0 s1 = Again s2 \<and> InSocketFd s2 \<noteq> None \<and>
    socket_connect quiet_env s2 = Inr (Next (emit (Closed 5) s2))"
proof -
  obtain s1 where s1: "SercdService_exit mem_tty open_client = Inr s1"
    by (auto simp: SercdService_exit_def Let_def deref_def DropConnection_def ClosePort_def
        close_fd_def emit_def set_port_def split: option.split)
  obtain s2 where s2: "SercdService_main [] some_frame 3 0 0 s1 = Again s2"
    by (simp add: SercdService_main_def Let_def)
  show ?thesis
    using restart_refuses_clients [OF _ _ s1 s2, of quiet_env] s1 s2
    by (auto simp: quiet_env_def)
qed

text \<open>
  A listening program goes on for ever: the loop returns only when \<open>select\<close> fails, and then with
  an error.
\<close>

theorem loop_returns_only_on_select_error:
  assumes "LSocketFd s \<noteq> None"
  shows "main_iteration T E s = Inr (Return c t) \<longleftrightarrow> ready_fds E = None \<and> c = Error \<and> t = s"
proof (cases "ready_fds E")
  case None
  then show ?thesis
    using assms by (auto simp: main_iteration_def SercdSelect_def)
next
  case (Some rw)
  then have "fst (SercdSelect E di d m so si l pi s) \<noteq> None" for di d m so si l pi
    by (cases rw) (simp add: SercdSelect_def Let_def split: prod.split)
  then show ?thesis
    using assms Some
    by (auto simp: main_iteration_def bind_r_eq_Inr split: prod.splits option.splits if_splits
        stage.splits) (metis fst_conv option.distinct(1))+
qed

theorem loop_returns_only_on_select_error_witness:
  "main_iteration mem_tty (quiet_env\<lparr>ready_fds := None\<rparr>) open_client = Inr (Return 1 open_client)"
  using loop_returns_only_on_select_error [of open_client mem_tty "quiet_env\<lparr>ready_fds := None\<rparr>"
      1 open_client]
  by (simp add: Error_def)

end
