(* ===== verification/Telnet_Stream.thy ===== *)
theory Telnet_Stream
  imports Loop_Behaviour
begin

text \<open>
  The type of what the program sends. A grammar of Telnet with the Com Port Control suboptions, as
  inductive predicates; every sender and every handler utters complete units of it, whatever the
  client and the port send; so what goes to a client, from its connection on, is always a word of
  the grammar.
\<close>

section \<open>The grammar\<close>

text \<open>Text in which every IAC is doubled.\<close>

inductive escaped_text :: "byte list \<Rightarrow> bool" where
  text_Nil: "escaped_text []"
| text_byte: "c \<noteq> TNIAC \<Longrightarrow> escaped_text cs \<Longrightarrow> escaped_text (c # cs)"
| text_iac: "escaped_text cs \<Longrightarrow> escaped_text (TNIAC # TNIAC # cs)"

text \<open>One unit: a byte of data, a negotiation of an option, or a suboption of Com Port Control.\<close>

inductive telnet_unit :: "byte list \<Rightarrow> bool" where
  unit_data: "c \<noteq> TNIAC \<Longrightarrow> telnet_unit [c]"
| unit_iac: "telnet_unit [TNIAC, TNIAC]"
| unit_option: "c \<in> {TNWILL, TNWONT, TNDO, TNDONT} \<Longrightarrow> telnet_unit [TNIAC, c, opt]"
| unit_suboption: "k \<noteq> TNIAC \<Longrightarrow> escaped_text ps \<Longrightarrow>
    telnet_unit ([TNIAC, TNSB, TNCOM_PORT_OPTION, k] @ ps @ [TNIAC, TNSE])"

inductive telnet :: "byte list \<Rightarrow> bool" where
  telnet_Nil: "telnet []"
| telnet_unit: "telnet_unit u \<Longrightarrow> telnet us \<Longrightarrow> telnet (u @ us)"

inductive_cases escaped_text_cases: "escaped_text (c # cs)"
inductive_simps telnet_unit_simps: "telnet_unit [c]" "telnet_unit [c, d, e]"

lemma escaped_text_append: "escaped_text xs \<Longrightarrow> escaped_text ys \<Longrightarrow> escaped_text (xs @ ys)"
  by (induction rule: escaped_text.induct) (auto intro: escaped_text.intros)

lemma telnet_append: "telnet xs \<Longrightarrow> telnet ys \<Longrightarrow> telnet (xs @ ys)"
  by (induction rule: telnet.induct) (auto intro: telnet.intros)

lemma telnet_single: "telnet_unit u \<Longrightarrow> telnet u"
  using telnet_unit [OF _ telnet_Nil] by simp

text \<open>A lone IAC ends no word of the grammar.\<close>

lemma escaped_text_telnet: "escaped_text cs \<Longrightarrow> telnet cs"
proof (induction rule: escaped_text.induct)
  case (text_byte c cs)
  then show ?case
    using telnet_unit [OF unit_data [of c] text_byte.IH] by simp
next
  case (text_iac cs)
  then show ?case
    using telnet_unit [OF unit_iac text_iac.IH] by simp
qed (rule telnet_Nil)

lemma esc_char_text: "escaped_text (esc_char bin l c)"
  using text_iac [OF text_Nil] by (auto simp: esc_char_def intro!: text_byte text_Nil)

lemma esc_bytes_text: "escaped_text (esc_bytes bin l cs)"
  by (induction bin l cs rule: esc_bytes.induct)
    (simp_all add: text_Nil escaped_text_append esc_char_text)

lemma telnet_suboption:
  "k \<noteq> TNIAC \<Longrightarrow> escaped_text ps \<Longrightarrow>
    telnet ([TNIAC, TNSB, TNCOM_PORT_OPTION, k] @ ps @ [TNIAC, TNSE])"
  by (rule telnet_single [OF unit_suboption])

section \<open>What a client hears\<close>

text \<open>
  A client's side of RFC 854, byte by byte: what it takes for data, and where in a command it is.
\<close>

datatype ear = Plain | AfterIac | AfterVerb | InSub | InSubIac

fun hear :: "ear \<Rightarrow> byte \<Rightarrow> byte list \<times> ear" where
  "hear Plain c = (if c = TNIAC then ([], AfterIac) else ([c], Plain))"
| "hear AfterIac c =
     (if c = TNIAC then ([c], Plain)
      else if c = TNSB then ([], InSub)
      else if c = TNWILL \<or> c = TNWONT \<or> c = TNDO \<or> c = TNDONT then ([], AfterVerb)
      else ([], Plain))"
| "hear AfterVerb c = ([], Plain)"
| "hear InSub c = ([], if c = TNIAC then InSubIac else InSub)"
| "hear InSubIac c = ([], if c = TNSE then Plain else InSub)"

fun heard :: "ear \<Rightarrow> byte list \<Rightarrow> byte list \<times> ear" where
  "heard e [] = ([], e)"
| "heard e (c # cs) =
     (let (x, e1) = hear e c; (y, e2) = heard e1 cs in (x @ y, e2))"

lemma heard_append:
  "heard e (xs @ ys) =
    (fst (heard e xs) @ fst (heard (snd (heard e xs)) ys), snd (heard (snd (heard e xs)) ys))"
  by (induction xs arbitrary: e) (simp_all add: Let_def case_prod_beta)

lemma heard_in_sub: "escaped_text ps \<Longrightarrow> heard InSub (ps @ ws) = heard InSub ws"
  by (induction rule: escaped_text.induct) simp_all

lemma heard_commands:
  "c \<in> {TNWILL, TNWONT, TNDO, TNDONT} \<Longrightarrow> heard Plain [TNIAC, c, opt] = ([], Plain)"
  "k \<noteq> TNIAC \<Longrightarrow> escaped_text ps \<Longrightarrow>
    heard Plain ([TNIAC, TNSB, TNCOM_PORT_OPTION, k] @ ps @ [TNIAC, TNSE]) = ([], Plain)"
  by (auto simp: heard_in_sub)

text \<open>A client is between commands again at the end of every word of the grammar.\<close>

lemma heard_unit: "telnet_unit u \<Longrightarrow> snd (heard Plain u) = Plain"
  by (induction rule: telnet_unit.induct) (auto simp: heard_in_sub)

lemma heard_telnet: "telnet us \<Longrightarrow> snd (heard Plain us) = Plain"
  by (induction rule: telnet.induct) (simp_all add: heard_append heard_unit)

lemma heard_telnet_append:
  "telnet us \<Longrightarrow> fst (heard Plain (us @ vs)) = fst (heard Plain us) @ fst (heard Plain vs)"
  by (simp add: heard_append heard_telnet)

definition silent :: "byte list \<Rightarrow> bool" where
  "silent bs \<longleftrightarrow> telnet bs \<and> fst (heard Plain bs) = []"

section \<open>Senders and handlers\<close>

text \<open>
  Started in \<open>s\<close>, an operation that does not fail adds a word of \<open>L\<close> to the network buffer.
\<close>

definition utters :: "(byte list \<Rightarrow> bool) \<Rightarrow> 'p sercd \<Rightarrow> fault + 'p sercd \<Rightarrow> bool" where
  "utters L s r \<longleftrightarrow>
     (net_ok s \<longrightarrow>
       (case r of
          Inl e \<Rightarrow> True
        | Inr t \<Rightarrow> net_ok t \<and> InSocketFd t = InSocketFd s \<and> trace t = trace s \<and>
            (\<exists>bs. L bs \<and> net_bytes t = net_bytes s @ bs)))"

definition mute :: "'p sercd \<Rightarrow> 'p sercd \<Rightarrow> bool" where
  "mute s t \<longleftrightarrow> ToNetBuf t = ToNetBuf s \<and> InSocketFd t = InSocketFd s \<and> trace t = trace s"

lemma mute_simps [simp]:
  "mute s s" "mute s (upd_tn i f t) = mute s t" "mute s (PortControlEnable_update b t) = mute s t"
  "mute s (LineStateMask_update m t) = mute s t" "mute s (ModemStateMask_update m t) = mute s t"
  "mute s (InputFlow_update b t) = mute s t" "mute s (BreakSignaled_update b t) = mute s t"
  "mute s (ModemState_update m t) = mute s t" "mute s (set_port h t) = mute s t"
  "mute s (IACEscape_update x t) = mute s t" "mute s (IACSigEscape_update x t) = mute s t"
  "mute s (IACCommand_update y t) = mute s t" "mute s (IACPos_update z t) = mute s t"
  "mute s (EscRedirectLast_update c t) = mute s t" "mute s (ToDevBuf_update B t) = mute s t"
  "mute s (EscWriteLast_update c t) = mute s t" "mute s (readbuf_update g t) = mute s t"
  by (simp_all add: mute_def upd_tn_def set_port_def)

text \<open>
  The interface of a language the commands of the program belong to. Whatever it is, the handlers and
  the receiver speak it.
\<close>

locale speech =
  fixes L :: "byte list \<Rightarrow> bool"
  assumes L_Nil: "L []"
    and L_append: "L xs \<Longrightarrow> L ys \<Longrightarrow> L (xs @ ys)"
    and L_option: "c \<in> {TNWILL, TNWONT, TNDO, TNDONT} \<Longrightarrow> L [TNIAC, c, opt]"
    and L_suboption: "k \<noteq> TNIAC \<Longrightarrow> escaped_text ps \<Longrightarrow>
      L ([TNIAC, TNSB, TNCOM_PORT_OPTION, k] @ ps @ [TNIAC, TNSE])"
begin

lemma utters_Inl [simp]: "utters L s (Inl e)"
  by (simp add: utters_def)

lemma utters_mute [intro]: "mute s t \<Longrightarrow> utters L s (Inr t)"
  by (auto simp: mute_def utters_def net_ok_def net_bytes_def intro: L_Nil)

lemma utters_pre: "mute s t \<Longrightarrow> utters L t r \<Longrightarrow> utters L s r"
  by (cases r) (simp_all add: mute_def utters_def net_ok_def net_bytes_def)

lemma utters_bind:
  assumes "utters L s r" and "\<And>t. r = Inr t \<Longrightarrow> utters L t (f t)"
  shows "utters L s (bind_r r f)"
proof (cases r)
  case (Inr t)
  then show ?thesis
    using assms(1) assms(2) [of t]
    by (cases "f t") (auto simp: utters_def intro: L_append)
qed simp

lemma utters_if: "(b \<Longrightarrow> utters L s x) \<Longrightarrow> (\<not> b \<Longrightarrow> utters L s y) \<Longrightarrow> utters L s (if b then x else y)"
  by simp

lemma utters_sent:
  assumes "send = bind_r (each_r AddToNet bs s) (set_last l)" and "L bs"
  shows "utters L s send"
proof (cases "net_ok s \<and> length (net_bytes s) + length bs \<le> 2047")
  case True
  then have "send = Inr ((net_put bs s)\<lparr>EscWriteLast := l\<rparr>)"
    using assms(1) by (simp add: AddToNet_all set_last_def)
  then show ?thesis
    using True assms(2) net_bytes_put [of s bs] net_ok_put [of s bs]
    by (auto simp: utters_def) (auto simp: net_put_def net_bytes_def net_ok_def)
next
  case False
  then show ?thesis
    using assms(1) by (auto simp: utters_def AddToNet_all)
qed

lemma SendTelnetOption_utters:
  "c \<in> {TNWILL, TNWONT, TNDO, TNDONT} \<Longrightarrow> utters L s (SendTelnetOption c opt s)"
  by (rule utters_sent [OF option_sender.send_eq]) (rule L_option)

lemma SendCPCByteCommand_utters: "c \<noteq> TNIAC \<Longrightarrow> utters L s (SendCPCByteCommand c v s)"
  by (rule utters_sent [OF cpc_sender.send_eq]) (rule L_suboption [OF _ esc_char_text])

lemma SendBaudRate_utters: "utters L s (SendBaudRate b s)"
  by (rule utters_sent [OF baud_sender.send_eq]) (rule L_suboption [OF _ esc_bytes_text], simp)

lemma SendSignature_utters: "utters L s (SendSignature (server_signature s) s)"
  by (rule utters_sent [OF signature_sender.send_eq])
    (rule L_suboption [OF _ esc_bytes_text], simp)

lemma SendTelnetInitialOptions_utters: "utters L s (SendTelnetInitialOptions s)"
proof -
  have "utters L t (SendTelnetOption c opt (upd_tn i f t))"
    if "c \<in> {TNWILL, TNWONT, TNDO, TNDONT}" for c opt i f and t :: "'a sercd"
    using that by (intro utters_pre [OF _ SendTelnetOption_utters]) simp_all
  then show ?thesis
    unfolding SendTelnetInitialOptions_def
    by (intro utters_bind SendTelnetOption_utters) auto
qed

lemma set_then_utters:
  "c \<noteq> TNIAC \<Longrightarrow> utters L s (SendCPCByteCommand c v (if b then s else set_port f s))"
  "utters L s (SendBaudRate w (if b then s else set_port f s))"
  "c \<noteq> TNIAC \<Longrightarrow> mute s t \<Longrightarrow> utters L s (SendCPCByteCommand c v t)"
  by (auto intro: utters_pre [OF _ SendCPCByteCommand_utters] utters_pre [OF _ SendBaudRate_utters])

lemma HandleSetControl_utters: "utters L s (HandleSetControl T c s)"
  unfolding HandleSetControl_def Let_def
  by (intro utters_if set_then_utters) simp_all

lemma HandleCPCCommand_utters: "utters L s (HandleCPCCommand T C n s)"
  unfolding HandleCPCCommand_def HandleMasksAndFlow_def Let_def
  by (intro utters_if set_then_utters HandleSetControl_utters SendSignature_utters utters_mute)
    (auto simp: bind_r_def split: sum.split)

lemma negotiation_utters:
  "utters L s (HandleWill opt s)" "utters L s (HandleDo opt s)" "utters L s (HandleDont opt s)"
  "utters L s (HandleWont opt s)"
proof -
  have acc: "utters L t (accept_will i t)" "utters L t (accept_do i t)" for t :: "'a sercd" and i
    unfolding accept_will_def accept_do_def
    by (auto intro!: utters_bind utters_if SendTelnetOption_utters)
  note en = acc [THEN utters_pre [of s "s\<lparr>PortControlEnable := True\<rparr>", rotated]]
  show "utters L s (HandleWill opt s)" "utters L s (HandleDo opt s)" "utters L s (HandleDont opt s)"
    "utters L s (HandleWont opt s)"
    unfolding HandleWill_def HandleDo_def HandleDont_def HandleWont_def
    by (intro utters_bind utters_if acc en SendTelnetOption_utters; auto)+
qed

lemma HandleIACCommand_utters: "utters L s (HandleIACCommand T C n s)"
  unfolding HandleIACCommand_def
  by (intro utters_if HandleCPCCommand_utters negotiation_utters) auto

text \<open>The receiver.\<close>

lemma AddToDev_utters: "utters L s (AddToDev c s)"
  by (auto simp: AddToDev_def bind_r_def split: sum.split)

lemma put_cmd_utters: "utters L s (put_cmd C s)"
  by (auto simp: put_cmd_def)

lemma put_sig_utters: "utters L s (put_sig C s)"
  by (auto simp: put_sig_def put_cmd_utters)

lemma finish_command_utters: "utters L s (finish_command T s)"
  unfolding finish_command_def by (intro utters_bind HandleIACCommand_utters) auto

lemmas receiver_utters = AddToDev_utters put_cmd_utters put_sig_utters finish_command_utters

lemma EscRedirectChar_utters: "utters L s (EscRedirectChar T C s)"
proof -
  have "utters L s (receive_normal C s)"
    unfolding receive_normal_def by (intro utters_if receiver_utters) auto
  moreover have "utters L s (receive_iac C s)"
    unfolding receive_iac_def by (intro utters_if utters_bind receiver_utters) auto
  moreover have until: "utters L s (receive_until n T C s)" for n
    unfolding receive_until_def by (intro utters_bind utters_if receiver_utters) auto
  moreover have "utters L s (receive_signature T C s)"
    unfolding receive_signature_def
    by (cases "IACSigEscape s")
      (auto intro!: utters_if utters_bind receiver_utters simp del: bind_r_simps)
  ultimately show ?thesis
    unfolding EscRedirectChar_def receive_command_def
    by (intro utters_bind) (auto split: IACState.split simp: put_cmd_utters)
qed

lemma each_below_utters:
  assumes "\<And>i t. utters L t (f i t)"
  shows "utters L s (each_below f i n s)"
  using assms
proof (induction f i n s rule: each_below.induct)
  case (1 f i n s)
  show ?case
  proof (cases "i < n")
    case True
    show ?thesis
      unfolding each_below_step [OF True] by (rule utters_bind) (use 1 True in simp_all)
  qed auto
qed

end

interpretation telnet: speech telnet
  by unfold_locales
    (rule telnet_Nil telnet_append telnet_suboption telnet_single [OF unit_option]; assumption)+

interpretation silent: speech silent
proof
  show "silent [TNIAC, c, opt]" if "c \<in> {TNWILL, TNWONT, TNDO, TNDONT}" for c opt
    unfolding silent_def using that heard_commands(1) [OF that] telnet.L_option [OF that] by simp
  show "silent ([TNIAC, TNSB, TNCOM_PORT_OPTION, k] @ ps @ [TNIAC, TNSE])"
    if "k \<noteq> TNIAC" "escaped_text ps" for k ps
    unfolding silent_def heard_commands(2) [OF that] using telnet.L_suboption [OF that] by simp
qed (auto simp: silent_def heard_telnet_append intro: telnet_Nil telnet_append)

lemma EscWriteChar_utters: "utters telnet s (EscWriteChar c s)"
  by (rule telnet.utters_sent [OF esc_writer.send_eq]) (rule escaped_text_telnet [OF esc_char_text])

section \<open>The stream of a connection\<close>

text \<open>What has been written to the network since the last client was accepted, and what waits.\<close>

fun since_accepted :: "event \<Rightarrow> byte list \<Rightarrow> byte list" where
  "since_accepted (Accepted c) w = []"
| "since_accepted (NetWritten bs) w = w @ bs"
| "since_accepted e w = w"

definition sent_to_client :: "'p sercd \<Rightarrow> byte list" where
  "sent_to_client s = fold since_accepted (trace s) []"

definition client_stream :: "'p sercd \<Rightarrow> byte list" where
  "client_stream s = sent_to_client s @ net_bytes s"

definition well_typed :: "'p sercd \<Rightarrow> bool" where
  "well_typed s \<longleftrightarrow> (InSocketFd s \<noteq> None \<longrightarrow> telnet (client_stream s))"

lemma client_stream_emit [simp]:
  "client_stream (emit (DevRead bs) s) = client_stream s"
  "client_stream (emit (NetRead bs) s) = client_stream s"
  "client_stream (emit (DevWritten bs) s) = client_stream s"
  "client_stream (emit (ChangeState p) s) = client_stream s"
  "client_stream (emit (Closed c) s) = client_stream s"
  "client_stream (emit (Opened c) s) = client_stream s"
  by (simp_all add: client_stream_def sent_to_client_def)

lemma client_stream_update [simp]:
  "client_stream (readbuf_update g s) = client_stream s"
  "client_stream (ToDevBuf_update h s) = client_stream s"
  by (simp_all add: client_stream_def sent_to_client_def net_bytes_def)

lemma utters_typed:
  assumes "utters telnet s (Inr t)" and "net_ok s" and "well_typed s"
  shows "well_typed t"
  using assms telnet_append
  by (auto simp: utters_def well_typed_def client_stream_def sent_to_client_def
      simp flip: append_assoc)

lemma dropped_typed: "InSocketFd t = None \<Longrightarrow> well_typed t"
  by (simp add: well_typed_def)

lemma drop_client_typed: "well_typed (drop_client T s)"
  by (rule dropped_typed) (simp add: drop_client_def)

lemma typed_next:
  assumes "utters telnet s r" and "InSocketFd s \<noteq> None \<Longrightarrow> net_ok s" and "InSocketFd s \<noteq> None"
  shows "preserves well_typed s (next_r r)"
  using assms utters_typed [of s]
  by (cases r) (auto simp: preserves_def next_r_def)

lemma typed_from:
  assumes "client_stream t = client_stream s" and "InSocketFd t = InSocketFd s" and "preserves well_typed t r"
  shows "preserves well_typed s r"
  using assms by (simp add: preserves_def well_typed_def)

lemma typed_drop: "preserves well_typed s (Inr (Continue (drop_client T t)))"
  by (simp add: preserves_def drop_client_typed)

text \<open>The stages, one by one.\<close>

lemma device_in_typed:
  assumes "loop_inv s" and "DeviceFd s \<noteq> None"
  shows "preserves well_typed s (device_in T E s)"
proof -
  let ?n = "min readbuf_size (unat (BufferRoomLeft (ToNetBuf s)) div EscWriteChar_bytes)"
  let ?bs = "read_bytes (dev_read E) ?n"
  let ?s1 = "emit (DevRead ?bs) (s\<lparr>readbuf := overlay ?bs (readbuf s)\<rparr>)"
  note ok = inv_open [OF assms]
  have "utters telnet ?s1 (each_below (from_readbuf EscWriteChar) 0 n ?s1)" for n
    by (rule telnet.each_below_utters) (simp add: from_readbuf_def EscWriteChar_utters)
  then have "preserves well_typed ?s1 (next_r (each_below (from_readbuf EscWriteChar) 0 n ?s1))" for n
    by (rule typed_next) (use ok in simp_all)
  then have "preserves well_typed s (next_r (each_below (from_readbuf EscWriteChar) 0 n ?s1))" for n
    by (rule typed_from [rotated 2]) simp_all
  moreover obtain fd where "DeviceFd s = Some fd"
    using assms(2) by blast
  ultimately show ?thesis
    by (simp only: device_in_def Let_def deref_def option.case bind_r_simps)
      (intro preserves_if typed_drop)
qed

lemma socket_in_typed:
  assumes "loop_inv s" and "DeviceFd s \<noteq> None"
  shows "preserves well_typed s (socket_in T E s)"
proof -
  let ?n = "min (min readbuf_size
      (unat (BufferRoomLeft (ToNetBuf s)) div EscRedirectChar_bytes_SockB (sizeof_long s)))
      (unat (BufferRoomLeft (ToDevBuf s)) div EscRedirectChar_bytes_DevB)"
  let ?bs = "read_bytes (net_read E) ?n"
  let ?s1 = "emit (NetRead ?bs) (s\<lparr>readbuf := overlay ?bs (readbuf s)\<rparr>)"
  note ok = inv_open [OF assms]
  have "utters telnet t (redirect T c t)" for t c
    by (simp add: redirect_def deref_def telnet.EscRedirectChar_utters split: option.split)
  then have "utters telnet ?s1 (each_below (from_readbuf (redirect T)) 0 n ?s1)" for n
    by (intro telnet.each_below_utters) (simp add: from_readbuf_def)
  then have "preserves well_typed ?s1 (next_r (each_below (from_readbuf (redirect T)) 0 n ?s1))" for n
    by (rule typed_next) (use ok in simp_all)
  then have "preserves well_typed s (next_r (each_below (from_readbuf (redirect T)) 0 n ?s1))" for n
    by (rule typed_from [rotated 2]) simp_all
  moreover obtain c where "InSocketFd s = Some c"
    using ok(4) by blast
  ultimately show ?thesis
    by (simp only: socket_in_def Let_def deref_def option.case bind_r_simps)
      (intro preserves_if typed_drop)
qed

lemma device_out_typed: "preserves well_typed s (device_out T E s)"
proof -
  have "preserves well_typed s (Inr (Next (emit (DevWritten bs) (s\<lparr>ToDevBuf := B\<rparr>))))" for bs B
    by (simp add: preserves_def well_typed_def)
  then show ?thesis
    unfolding device_out_def Let_def by (intro preserves_bind preserves_if typed_drop)
qed

lemma socket_out_typed:
  assumes "loop_inv s" and "OutSocketFd s \<noteq> None" and "unblocked (net_write E)"
  shows "preserves well_typed s (socket_out T E s)"
proof -
  have "buf_ok (ToNetBuf s)"
    using assms(1,2) by (auto simp: loop_inv_def net_ok_def)
  note pop = popped [OF this assms(3)]
  let ?x = "write_result (net_write E) (unat (GetBufferString (ToNetBuf s)))"
  have "preserves well_typed s (Inr (Next (emit (NetWritten bs)
      (s\<lparr>ToNetBuf := BufferPopBytes (ToNetBuf s) (word_of_int ?x)\<rparr>))))"
    if "string_bytes (ToNetBuf s) (nat ?x) = Inr bs"
      "\<not> IOResultError ?x (write_would_block (net_write E))" for bs
    using pop that
    by (auto simp: preserves_def well_typed_def client_stream_def sent_to_client_def
        net_bytes_def)
  then show ?thesis
    unfolding socket_out_def Let_def by (intro preserves_bind preserves_if typed_drop)
qed

lemma socket_connect_typed:
  assumes "loop_inv s" and "LSocketFd s \<noteq> None"
  shows "preserves well_typed s (socket_connect E s)"
proof -
  let ?s1 = "SetSocketOptions (accepted E) (accepted E) (emit (Accepted (accepted E))
    ((emit (ChangeState STATE_CONNECTED) s)\<lparr>
      InSocketFd := Some (accepted E), OutSocketFd := Some (accepted E)\<rparr>))"
  let ?s3 = "InitTelnetStateMachine (?s1\<lparr>ToNetBuf := InitBuffer (ToNetBuf ?s1)\<rparr>)"
  have "client_stream ?s3 = []" "net_ok ?s3"
    by (simp_all add: client_stream_def sent_to_client_def InitTelnetStateMachine_def net_bytes_def
        net_ok_def)
  then have "well_typed t" if "SendTelnetInitialOptions ?s3 = Inr t" for t
    using utters_typed [of ?s3 t] telnet.SendTelnetInitialOptions_utters [of ?s3] that
    by (simp add: well_typed_def telnet_Nil)
  then show ?thesis
    using assms(2)
    by (auto simp: socket_connect_def deref_def Let_def next_r_def preserves_def bind_r_def
        split: sum.splits) (simp_all add: well_typed_def)
qed

lemma open_port_typed: "preserves well_typed s (open_port T E s)"
  by (auto simp: open_port_def preserves_def OpenPort_def Let_def well_typed_def
      client_stream_def sent_to_client_def net_bytes_def set_port_def)

lemma modem_state_typed:
  assumes "loop_inv s" and "DeviceFd s \<noteq> None"
  shows "preserves well_typed s (modem_state T s)"
proof -
  note ok = inv_open [OF assms]
  have "utters telnet s (SendCPCByteCommand TNASC_NOTIFY_MODEMSTATE v (s\<lparr>ModemState := m\<rparr>))" for v m
    by (rule telnet.set_then_utters(3)) simp_all
  then have "preserves well_typed s (next_r
      (SendCPCByteCommand TNASC_NOTIFY_MODEMSTATE v (s\<lparr>ModemState := m\<rparr>)))" for v m
    by (rule typed_next) (use ok in simp_all)
  then show ?thesis
    using assms(2) by (auto simp: modem_state_def deref_def Let_def preserves_def)
qed

section \<open>The type is kept\<close>

interpretation typed: stage_invariant T well_typed "\<lambda>E. unblocked (net_write E)" for T
  by unfold_locales
    (simp_all add: device_in_typed device_out_typed socket_out_typed socket_in_typed
      socket_connect_typed open_port_typed modem_state_typed, simp add: well_typed_def
      client_stream_def sent_to_client_def net_bytes_def)

text \<open>Runs in which no write to the network would block.\<close>

inductive flows :: "'p tty \<Rightarrow> 'p sercd \<Rightarrow> 'p sercd \<Rightarrow> bool" for T :: "'p tty" where
  flows_refl: "flows T s s"
| flows_step: "flows T s s1 \<Longrightarrow> unblocked (net_write E) \<Longrightarrow>
    main_iteration T E (set_port (line_change E) s1) = Inr (Again s2) \<Longrightarrow> flows T s s2"

lemma flows_runs: "flows T s t \<Longrightarrow> runs T s t"
  by (induction rule: flows.induct) (auto intro: runs.intros)

lemma well_typed_set_port [simp]: "well_typed (set_port f s) = well_typed s"
  by (simp add: well_typed_def client_stream_def sent_to_client_def net_bytes_def set_port_def)

lemma flows_typed: "flows T s t \<Longrightarrow> loop_inv s \<Longrightarrow> well_typed s \<Longrightarrow> well_typed t"
proof (induction rule: flows.induct)
  case (flows_step s s1 E s2)
  then have "loop_inv (set_port (line_change E) s1)"
    using runs_inv [OF flows_runs [OF flows_step.hyps(1)]] by simp
  then show ?case
    using typed.iteration_keeps [of "set_port (line_change E) s1" E T] flows_step
    by (simp add: iteration_state_def)
qed

text \<open>
  C6. From the first start on, whatever the client, the port and the system do as long as no write to
  the network would block: what has been written to a client since it was accepted, followed by what
  waits to be written, is a well-formed Telnet stream. Every IAC of the data is doubled, and every
  negotiation and every suboption is complete before anything else is sent.
\<close>

theorem client_stream_is_telnet:
  assumes "SercdService_main name F l b r (sercd_globals a devb netb rb p) = Again s0"
    and "flows T s0 s" and "InSocketFd s \<noteq> None"
  shows "telnet (fold since_accepted (trace s) [] @ net_bytes s)"
proof -
  have "loop_inv s0" "well_typed s0"
    using assms(1)
    by (auto simp: SercdService_main_def Let_def sercd_globals_def loop_inv_def emit_def rx_inv_def
        well_typed_def split: if_splits)
  then have "well_typed s"
    using flows_typed [OF assms(2)] by blast
  then show ?thesis
    using assms(3) by (simp add: well_typed_def client_stream_def sent_to_client_def)
qed

lemma first_client:
  fixes E :: "'p env"
  assumes "LSocketFd s = Some l" and "InSocketFd s = None" and "loop_inv s"
    and "ready_fds E = Some ({l}, {})" and "0 \<le> accepted E" and "opened E \<noteq> -1"
  shows "\<exists>t. main_iteration T E s = Inr (Again t) \<and> InSocketFd t = Some (accepted E) \<and>
    DeviceFd t = Some (opened E)"
proof -
  have no: "DeviceFd s = None" "OutSocketFd s = None"
    using assms(2,3) by (auto simp: loop_inv_def)
  then have fds: "DeviceIn s = None" "DeviceOut s = None" "SocketOut s = None" "SocketIn s = None"
      "Modemstate s = None"
    by (simp_all add: DeviceIn_def DeviceOut_def SocketOut_def SocketIn_def Modemstate_def)
  have sel: "SercdSelect E None None None None None (Some l) pi s = (Some {SERCD_EV_SOCKETCONNECT}, s)"
    for pi
    using assms(4) by (simp add: SercdSelect_def Let_def event_if_def FD_ISSET_def FD_SET_def)
  let ?s1 = "SetSocketOptions (accepted E) (accepted E) (emit (Accepted (accepted E))
    ((emit (ChangeState STATE_CONNECTED) s)\<lparr>
      InSocketFd := Some (accepted E), OutSocketFd := Some (accepted E)\<rparr>))"
  let ?s3 = "InitTelnetStateMachine (?s1\<lparr>ToNetBuf := InitBuffer (ToNetBuf ?s1)\<rparr>)"
  have s3: "net_ok ?s3" "net_bytes ?s3 = []" "InSocketFd ?s3 = Some (accepted E)"
      "OutSocketFd ?s3 = Some (accepted E)" "DeviceFd ?s3 = None"
    using no by (simp_all add: SetSocketOptions_def InitTelnetStateMachine_def net_ok_def net_bytes_def emit_def)
  obtain u where u: "SendTelnetInitialOptions ?s3 = Inr u" "kept ?s3 u"
    using initial_client_state [OF s3(1)] s3(2) by auto
  have fd: "InSocketFd u = Some (accepted E)" "OutSocketFd u = Some (accepted E)" "DeviceFd u = None"
    using u(2) s3(3-5) by (simp_all add: kept_def)
  have "socket_connect E s = Inr (Next u)"
    using assms(1,2,5) u(1) by (auto simp: socket_connect_def deref_def Let_def next_r_def)
  moreover have "\<exists>t. open_port T E u = Inr (Next t) \<and> InSocketFd t = Some (accepted E) \<and>
      DeviceFd t = Some (opened E)"
    using fd assms(6)
    by (simp add: open_port_def OpenPort_def Let_def set_port_def)
  ultimately have "\<exists>t. handle_events T E {SERCD_EV_SOCKETCONNECT} s = Inr (Next t) \<and>
      InSocketFd t = Some (accepted E) \<and> DeviceFd t = Some (opened E)"
    by (auto simp: handle_events_def on_def)
  then show ?thesis
    using assms(1) fds sel by (auto simp: main_iteration_def)
qed

theorem client_stream_is_telnet_witness:
  "\<exists>s. flows mem_tty ((fresh_sercd LP64 sample_port)\<lparr>LSocketFd := Some 3,
      trace := [SocketOption 3 SO_REUSEADDR, ChangeState STATE_READY]\<rparr>) s \<and> InSocketFd s = Some 5 \<and>
    telnet (fold since_accepted (trace s) [] @ net_bytes s)"
proof -
  let ?s0 = "(fresh_sercd LP64 sample_port)\<lparr>LSocketFd := Some 3, trace := [SocketOption 3 SO_REUSEADDR, ChangeState STATE_READY]\<rparr>"
  let ?E = "quiet_env\<lparr>ready_fds := Some ({3}, {}), net_write := WriteTakes 1\<rparr> :: mem_port env"
  have main: "SercdService_main [] some_frame 3 0 0
      (sercd_globals LP64 fresh_buffer fresh_buffer (\<lambda>i. 0) sample_port) = Again ?s0"
    by (simp add: SercdService_main_def Let_def fresh_sercd_def sercd_globals_def emit_def
        some_frame_def)
  have set: "set_port (line_change ?E) ?s0 = ?s0"
    by (simp add: set_port_def quiet_env_def)
  have "loop_inv ?s0"
    by (simp add: loop_inv_def fresh_sercd_def sercd_globals_def rx_inv_def)
  then obtain s where "main_iteration mem_tty ?E ?s0 = Inr (Again s)" "InSocketFd s = Some 5"
    using first_client [of ?s0 3 ?E mem_tty]
    by (auto simp: fresh_sercd_def sercd_globals_def quiet_env_def)
  then have "flows mem_tty ?s0 s"
    using flows_step [OF flows_refl, of ?E mem_tty ?s0 s] set by (simp add: unblocked_def)
  then show ?thesis
    using client_stream_is_telnet [OF main, of mem_tty s] \<open>InSocketFd s = Some 5\<close> by auto
qed

end
