(* ===== verification/Telnet_Decoder.thy ===== *)
theory Telnet_Decoder
  imports Telnet_Receive Command_Replies
begin

text \<open>
  What the receiver is meant to do, without its array, its positions and its escape flags: a decoder of
  Telnet that gathers commands in lists, delivers data and executes commands. \<open>EscRedirectChar\<close> is shown
  to refine it, and a stream of well-formed items to be executed item by item.
\<close>

section \<open>The decoder\<close>

text \<open>Between items, after an IAC, or inside a command with the bytes so far; the flag says that the
  last byte of a signature was an IAC that may be doubled.\<close>

datatype decoder = Text | Escape | Gather "byte list" bool

datatype token = Deliver byte | Execute "byte list"

fun decode :: "bool \<Rightarrow> byte \<Rightarrow> byte \<Rightarrow> decoder \<Rightarrow> token option \<times> decoder" where
  "decode bin l C Text =
     (if C = TNIAC then (None, Escape)
      else if \<not> bin \<and> C = 0x00 \<and> l = 0x0D then (None, Text)
      else (Some (Deliver C), Text))"
| "decode bin l C Escape =
     (if C = TNIAC then (Some (Deliver C), Text) else (None, Gather [TNIAC, C] False))"
| "decode bin l C (Gather bs iac) =
     (if bs ! 1 \<noteq> TNSB then (Some (Execute (bs @ [C])), Text)
      else if length bs < 4 then (None, Gather (bs @ [C]) iac)
      else if bs ! 3 = TNCAS_SIGNATURE then
        (if iac \<and> C \<noteq> TNIAC then (Some (Execute (take 255 (bs @ [TNIAC, C]))), Text)
         else if \<not> iac \<and> C = TNIAC then (None, Gather bs True)
         else (None, Gather (take 255 (bs @ [C])) False))
      else if length bs + 1 = frame_length (bs ! 3) then (Some (Execute (bs @ [C])), Text)
      else (None, Gather (bs @ [C]) iac))"

definition perform :: "'p tty \<Rightarrow> token option \<Rightarrow> 'p sercd \<Rightarrow> fault + 'p sercd" where
  "perform T k s =
     (case k of
        None \<Rightarrow> Inr s
      | Some (Deliver c) \<Rightarrow> AddToDev c s
      | Some (Execute bs) \<Rightarrow> HandleIACCommand T (command_of bs) (length bs) s)"

definition spec_char :: "'p tty \<Rightarrow> byte \<Rightarrow> decoder \<times> 'p sercd \<Rightarrow> fault + (decoder \<times> 'p sercd)" where
  "spec_char T C ds =
     (let (k, d) = decode (is_do (tnstate (snd ds) TN_TRANSMIT_BINARY)) (EscRedirectLast (snd ds)) C
           (fst ds)
      in bind_r (perform T k (snd ds)) (\<lambda>s. Inr (d, s\<lparr>EscRedirectLast := C\<rparr>)))"

text \<open>The decoder a state stands for, and the state without the receiver's own variables.\<close>

definition decoder_of :: "'p sercd \<Rightarrow> decoder" where
  "decoder_of s =
     (case IACEscape s of
        IACNormal \<Rightarrow> Text
      | IACReceived \<Rightarrow> Escape
      | IACComReceiving \<Rightarrow> Gather (map (IACCommand s) [0..<IACPos s]) (IACSigEscape s = IACReceived))"

definition behind :: "'p sercd \<Rightarrow> 'p sercd" where
  "behind s = s\<lparr>IACEscape := IACNormal, IACSigEscape := IACNormal, IACCommand := (\<lambda>i. 0),
     IACPos := 0\<rparr>"

definition spec_state :: "'p sercd \<Rightarrow> decoder \<times> 'p sercd" where
  "spec_state s = (decoder_of s, behind s)"

text \<open>Two commands that agree on their first \<open>n\<close> bytes, of which the second one is zero after them.\<close>

definition same_command :: "(nat \<Rightarrow> byte) \<Rightarrow> (nat \<Rightarrow> byte) \<Rightarrow> nat \<Rightarrow> bool" where
  "same_command C D n \<longleftrightarrow> 3 \<le> n \<and> n \<le> 255 \<and> (\<forall>i<n. D i = C i) \<and> (\<forall>i\<ge>n. D i = 0) \<and>
     (C 1 = TNSB \<longrightarrow> 6 \<le> n \<and> (C 3 = TNCAS_SET_BAUDRATE \<longrightarrow> 10 \<le> n))"

lemma same_bytes:
  assumes "same_command C D n"
  shows "D 1 = C 1" and "D 2 = C 2" and "C 1 = TNSB \<Longrightarrow> D 3 = C 3 \<and> D 4 = C 4"
  using assms by (simp_all add: same_command_def)

lemma same_signature:
  assumes "same_command C D n" and "C 1 = TNSB" and "client_signature a C n = Inr x"
  shows "\<exists>y. client_signature a D n = Inr y"
proof (cases "client_signature a D n")
  case (Inl e)
  have n: "6 \<le> n" "n \<le> 255"
    using assms(1,2) by (simp_all add: same_command_def)
  then have D: "\<forall>j. 4 \<le> j \<longrightarrow> j < 255 \<longrightarrow> D j \<noteq> 0"
    using client_signature_Inl [of n a D e] Inl by blast
  have "n = 255"
  proof (rule ccontr)
    assume "n \<noteq> 255"
    then have "D n \<noteq> 0"
      using D n by simp
    then show False
      using assms(1) by (simp add: same_command_def)
  qed
  then have "\<forall>j. 4 \<le> j \<longrightarrow> j < 255 \<longrightarrow> C j \<noteq> 0"
    using D assms(1) by (simp add: same_command_def)
  then have "client_signature a C n = Inl OutOfBoundsRead"
    using client_signature_Inl [of n a C OutOfBoundsRead] n by blast
  then show ?thesis
    using assms(3) by simp
qed simp

section \<open>The handlers do not look at the receiver\<close>

text \<open>
  The interface of a part of the state that the handlers neither read nor write: \<open>veil\<close> replaces it and
  commutes with everything they do.
\<close>

definition blind ::
  "('p sercd \<Rightarrow> 'p sercd) \<Rightarrow> fault + 'p sercd \<Rightarrow> fault + 'p sercd \<Rightarrow> bool" where
  "blind veil m m' \<longleftrightarrow> m' = map_sum id veil m"

locale unseen =
  fixes veil :: "'p sercd \<Rightarrow> 'p sercd"
  assumes veil_sees:
    "sizeof_long (veil s) = sizeof_long s" "CiscoIOSCompatible (veil s) = CiscoIOSCompatible s"
    "DeviceName (veil s) = DeviceName s" "BreakSignaled (veil s) = BreakSignaled s"
    "LineStateMask (veil s) = LineStateMask s" "ModemStateMask (veil s) = ModemStateMask s"
    "tnstate (veil s) = tnstate s" "EscWriteLast (veil s) = EscWriteLast s"
    "ToDevBuf (veil s) = ToDevBuf s" "ToNetBuf (veil s) = ToNetBuf s" "port (veil s) = port s"
  and veil_updates:
    "(veil s)\<lparr>ToNetBuf := B\<rparr> = veil (s\<lparr>ToNetBuf := B\<rparr>)"
    "(veil s)\<lparr>ToDevBuf := B\<rparr> = veil (s\<lparr>ToDevBuf := B\<rparr>)"
    "(veil s)\<lparr>EscWriteLast := l\<rparr> = veil (s\<lparr>EscWriteLast := l\<rparr>)"
    "(veil s)\<lparr>BreakSignaled := b\<rparr> = veil (s\<lparr>BreakSignaled := b\<rparr>)"
    "(veil s)\<lparr>InputFlow := b\<rparr> = veil (s\<lparr>InputFlow := b\<rparr>)"
    "(veil s)\<lparr>LineStateMask := m\<rparr> = veil (s\<lparr>LineStateMask := m\<rparr>)"
    "(veil s)\<lparr>ModemStateMask := m\<rparr> = veil (s\<lparr>ModemStateMask := m\<rparr>)"
    "(veil s)\<lparr>PortControlEnable := b\<rparr> = veil (s\<lparr>PortControlEnable := b\<rparr>)"
    "upd_tn i f (veil s) = veil (upd_tn i f s)"
    "set_port h (veil s) = veil (set_port h s)"
begin

lemma veil_simps [simp]: "server_signature (veil s) = server_signature s"
  by (simp add: server_signature_def veil_sees)

declare veil_sees [simp]

lemma blind_Inr: "blind veil (Inr s) (Inr (veil s))"
  by (simp add: blind_def)

lemma blind_bind:
  "blind veil m m' \<Longrightarrow> (\<And>t. blind veil (f t) (f' (veil t))) \<Longrightarrow> blind veil (bind_r m f) (bind_r m' f')"
  by (cases m) (simp_all add: blind_def)

lemma blind_if: "(b \<Longrightarrow> blind veil x x') \<Longrightarrow> (\<not> b \<Longrightarrow> blind veil y y') \<Longrightarrow>
    blind veil (if b then x else y) (if b then x' else y')"
  by simp

lemma blind_AddToNet: "blind veil (AddToNet c s) (AddToNet c (veil s))"
  by (cases "AddToBuffer (ToNetBuf s) c") (simp_all add: blind_def AddToNet_def veil_updates)

lemma blind_AddToDev: "blind veil (AddToDev c s) (AddToDev c (veil s))"
  by (cases "AddToBuffer (ToDevBuf s) c") (simp_all add: blind_def AddToDev_def veil_updates)

lemma blind_each: "blind veil (each_r AddToNet bs s) (each_r AddToNet bs (veil s))"
  by (induction bs arbitrary: s) (auto intro: blind_Inr blind_bind blind_AddToNet)

lemma blind_sent:
  assumes "\<And>s. send s = bind_r (each_r AddToNet (out s) s) (set_last (lst s))"
    and "out (veil s) = out s" and "lst (veil s) = lst s"
  shows "blind veil (send s) (send (veil s))"
  unfolding assms(1) assms(2,3)
  by (intro blind_bind blind_each) (simp add: set_last_def blind_def veil_updates)

lemma blind_senders:
  "blind veil (SendTelnetOption c opt s) (SendTelnetOption c opt (veil s))"
  "blind veil (SendCPCByteCommand c v s) (SendCPCByteCommand c v (veil s))"
  "blind veil (SendBaudRate b s) (SendBaudRate b (veil s))"
  "blind veil (SendSignature (server_signature s) s)
    (SendSignature (server_signature (veil s)) (veil s))"
  by (rule blind_sent [OF option_sender.send_eq] blind_sent [OF cpc_sender.send_eq]
      blind_sent [OF baud_sender.send_eq] blind_sent [OF signature_sender.send_eq];
      simp add: sends_binary_def)+

lemma blind_set_unless:
  "blind veil (SendCPCByteCommand c v (if b then s else set_port f s))
    (SendCPCByteCommand c v (if b then veil s else set_port f (veil s)))"
  "blind veil (SendBaudRate w (if b then s else set_port f s))
    (SendBaudRate w (if b then veil s else set_port f (veil s)))"
  by (simp_all add: veil_updates blind_senders)

lemma port_unless [simp]:
  "port (if b then veil s else set_port f (veil s)) = port (if b then s else set_port f s)"
  by (simp add: veil_updates)

lemma blind_SetControl: "blind veil (HandleSetControl T c s) (HandleSetControl T c (veil s))"
  unfolding HandleSetControl_def Let_def veil_updates veil_sees
  by (intro blind_if blind_senders)

lemma blind_CPC:
  assumes "same_command C D n" and "C 1 = TNSB"
  shows "HandleCPCCommand T C n s = Inl OutOfBoundsRead \<or>
    blind veil (HandleCPCCommand T C n s) (HandleCPCCommand T D n (veil s))"
proof -
  note bytes = same_bytes(3) [OF assms]
  have baud: "ntohl (ucast (load_ulong a D 4)) = ntohl (ucast (load_ulong a C 4))"
    if "C 3 = TNCAS_SET_BAUDRATE" for a
    using assms that unfolding load_ulong_be by (simp add: same_command_def)
  show ?thesis
  proof (cases "C 3 = TNCAS_SIGNATURE \<and> n \<noteq> 6")
    case True
    have bound: "6 \<le> n" "n \<le> 255"
      using assms by (simp_all add: same_command_def)
    show ?thesis
    proof (cases "client_signature (sizeof_long s) C n")
      case (Inl e)
      then have "e = OutOfBoundsRead"
        using client_signature_Inl [OF bound] by blast
      then show ?thesis
        using True Inl by (simp add: HandleCPCCommand_def HandleMasksAndFlow_def)
    next
      case (Inr x)
      then obtain y where "client_signature (sizeof_long s) D n = Inr y"
        using same_signature [OF assms] by blast
      then show ?thesis
        using True Inr bytes by (simp add: HandleCPCCommand_def HandleMasksAndFlow_def blind_Inr)
    qed
  next
    case False
    then have "blind veil (HandleCPCCommand T C n s) (HandleCPCCommand T D n (veil s))"
      unfolding HandleCPCCommand_def HandleMasksAndFlow_def Let_def bytes [THEN conjunct1] bytes [THEN conjunct2]
        veil_sees port_unless veil_updates
      by (intro blind_if; simp add: blind_senders blind_senders(4) [simplified] blind_set_unless blind_SetControl blind_Inr baud)
    then show ?thesis ..
  qed
qed

lemma blind_negotiation:
  "blind veil (HandleWill opt s) (HandleWill opt (veil s))"
  "blind veil (HandleDo opt s) (HandleDo opt (veil s))"
  "blind veil (HandleDont opt s) (HandleDont opt (veil s))"
  "blind veil (HandleWont opt s) (HandleWont opt (veil s))"
proof -
  have acc: "blind veil (accept_will i t) (accept_will i (veil t))"
      "blind veil (accept_do i t) (accept_do i (veil t))" for i t
    unfolding accept_will_def accept_do_def veil_sees
    by (intro blind_bind blind_if blind_senders blind_Inr; simp add: veil_updates blind_Inr)+
  show "blind veil (HandleWill opt s) (HandleWill opt (veil s))"
    "blind veil (HandleDo opt s) (HandleDo opt (veil s))"
    "blind veil (HandleDont opt s) (HandleDont opt (veil s))"
    "blind veil (HandleWont opt s) (HandleWont opt (veil s))"
    unfolding HandleWill_def HandleDo_def HandleDont_def HandleWont_def veil_sees veil_updates
    by (intro blind_bind blind_if blind_senders blind_Inr acc; simp add: veil_updates blind_Inr)+
qed

lemma blind_IAC:
  assumes "same_command C D n"
  shows "HandleIACCommand T C n s = Inl OutOfBoundsRead \<or>
    blind veil (HandleIACCommand T C n s) (HandleIACCommand T D n (veil s))"
proof (cases "C 1 = TNSB")
  case True
  then show ?thesis
    using blind_CPC [OF assms True, of T s] same_bytes [OF assms]
    by (auto simp: HandleIACCommand_def blind_Inr)
next
  case False
  then have "blind veil (HandleIACCommand T C n s) (HandleIACCommand T D n (veil s))"
    unfolding HandleIACCommand_def same_bytes [OF assms]
    by (simp add: blind_negotiation blind_Inr)
  then show ?thesis ..
qed

text \<open>The same command, with and without the veil.\<close>

lemma blind_same: "blind veil (HandleIACCommand T C n s) (HandleIACCommand T C n (veil s))"
proof -
  have sig: "blind veil (bind_r x (\<lambda>y. Inr s)) (bind_r x (\<lambda>y. Inr (veil s)))"
    for x :: "fault + byte list"
    by (cases x) (simp_all add: blind_def)
  have "blind veil (HandleCPCCommand T C n s) (HandleCPCCommand T C n (veil s))"
    unfolding HandleCPCCommand_def HandleMasksAndFlow_def Let_def veil_sees port_unless veil_updates
    by (intro blind_if; simp add: blind_senders blind_senders(4) [simplified] blind_set_unless
        blind_SetControl blind_Inr sig)
  then show ?thesis
    unfolding HandleIACCommand_def veil_sees
    by (intro blind_if blind_negotiation blind_Inr)
qed

lemma blind_perform: "blind veil (perform T k s) (perform T k (veil s))"
  by (auto simp: perform_def blind_Inr blind_AddToDev blind_same split: option.split token.split)

end

lemma behind_simps [simp]:
  "tnstate (behind s) = tnstate s" "EscRedirectLast (behind s) = EscRedirectLast s"
  "ToDevBuf (behind s) = ToDevBuf s"
  by (simp_all add: behind_def)

lemma behind_last: "(behind s)\<lparr>EscRedirectLast := l\<rparr> = behind (s\<lparr>EscRedirectLast := l\<rparr>)"
  by (simp add: behind_def)

interpretation rest: unseen behind
  by unfold_locales (simp_all add: behind_def upd_tn_def set_port_def)

interpretation char: unseen "EscRedirectLast_update (\<lambda>l. c)"
  by unfold_locales (simp_all add: upd_tn_def set_port_def)

section \<open>The receiver refines the decoder\<close>

lemma behind_stored [simp]:
  "behind (stored c s) = behind s" "behind (IACEscape_update f s) = behind s"
  "behind (IACSigEscape_update f s) = behind s" "behind (IACCommand_update g s) = behind s"
  "behind (IACPos_update h s) = behind s"
  by (simp_all add: behind_def stored_def)

lemma gathered_stored:
  "map (IACCommand (stored c s)) [0..<IACPos (stored c s)] = map (IACCommand s) [0..<IACPos s] @ [c]"
  by simp

text \<open>A command that is complete is executed, and the decoder is between items again.\<close>

lemma finish_refines:
  assumes "bs = map (IACCommand s) [0..<IACPos s]" and "3 \<le> IACPos s" and "IACPos s \<le> 255"
    and "IACCommand s 1 = TNSB \<Longrightarrow> 6 \<le> IACPos s"
    and "IACCommand s 1 = TNSB \<Longrightarrow> IACCommand s 3 = TNCAS_SET_BAUDRATE \<Longrightarrow> 10 \<le> IACPos s"
  shows "finish_command T s = Inl OutOfBoundsRead \<or>
    map_sum id spec_state (finish_command T s) =
      map_sum id (Pair Text) (perform T (Some (Execute bs)) (behind s))"
proof -
  have len: "length bs = IACPos s"
    using assms(1) by simp
  have "same_command (IACCommand s) (command_of bs) (IACPos s)"
    using assms by (auto simp: same_command_def command_of_def)
  from rest.blind_IAC [OF this, of T s] show ?thesis
    by (cases "HandleIACCommand T (IACCommand s) (IACPos s) s")
      (auto simp: finish_command_def perform_def len blind_def spec_state_def decoder_of_def)
qed

text \<open>
  One operation of the receiver against the outcome of the decoder; the one exception is the over-read
  of a signature that has no end.
\<close>

definition refines :: "fault + 'p sercd \<Rightarrow> fault + (decoder \<times> 'p sercd) \<Rightarrow> bool" where
  "refines r r' \<longleftrightarrow> r = Inl OutOfBoundsRead \<or> map_sum id spec_state r = r'"

lemma decoder_of_last [simp]: "decoder_of (EscRedirectLast_update f s) = decoder_of s"
  by (simp add: decoder_of_def split: IACState.split)

lemma refines_last:
  "refines m (map_sum id (Pair d) m') \<Longrightarrow>
    refines (bind_r m (\<lambda>s. Inr (s\<lparr>EscRedirectLast := C\<rparr>)))
      (bind_r m' (\<lambda>s. Inr (d, s\<lparr>EscRedirectLast := C\<rparr>)))"
  by (cases m; cases m') (auto simp: refines_def spec_state_def behind_last)

lemma refines_silent:
  "decoder_of t = d \<Longrightarrow> behind t = s \<Longrightarrow> refines (Inr t) (map_sum id (Pair d) (perform T None s))"
  by (simp add: refines_def spec_state_def perform_def)

lemma refines_deliver:
  assumes "d = Text" and "\<And>t. AddToDev c s = Inr t \<Longrightarrow> decoder_of (f t) = Text \<and> behind (f t) = behind t"
  shows "refines (bind_r (AddToDev c s) (\<lambda>t. Inr (f t)))
    (map_sum id (Pair d) (perform T (Some (Deliver c)) (behind s)))"
  using rest.blind_AddToDev [of c s] assms
  by (cases "AddToDev c s") (auto simp: refines_def perform_def blind_def spec_state_def)

lemma normal_refines:
  assumes "IACEscape s = IACNormal"
    and "decode (is_do (tnstate s TN_TRANSMIT_BINARY)) (EscRedirectLast s) C Text = (k, d)"
  shows "refines (receive_normal C s) (map_sum id (Pair d) (perform T k (behind s)))"
proof -
  have "IACEscape t = IACNormal" if "AddToDev C s = Inr t" for t
    using that assms(1) by (auto simp: AddToDev_def bind_r_eq_Inr)
  then have "refines (AddToDev C s) (map_sum id (Pair Text) (perform T (Some (Deliver C)) (behind s)))"
    using refines_deliver [of Text C s "\<lambda>t. t" T] by (simp add: decoder_of_def)
  then show ?thesis
    using assms by (auto simp: receive_normal_def decoder_of_def intro: refines_silent split: if_splits)
qed

lemma iac_refines:
  assumes "decode b l C Escape = (k, d)"
  shows "refines (receive_iac C s) (map_sum id (Pair d) (perform T k (behind s)))"
  using assms refines_deliver [of Text C s "\<lambda>s. s\<lparr>IACEscape := IACNormal\<rparr>" T]
  by (auto simp: receive_iac_def decoder_of_def numeral_2_eq_2 intro!: refines_silent split: if_splits)

lemma until_refines:
  assumes "IACEscape s = IACComReceiving" and "bs = map (IACCommand s) [0..<IACPos s]"
    and "IACPos s < n" and "3 \<le> n" and "n \<le> 10"
    and "IACCommand s 1 = TNSB \<Longrightarrow> 4 \<le> IACPos s \<and> n = frame_length (IACCommand s 3)"
    and "2 \<le> IACPos s"
    and "(k, d) = (if IACPos s + 1 = n then (Some (Execute (bs @ [C])), Text)
      else (None, Gather (bs @ [C]) (IACSigEscape s = IACReceived)))"
  shows "refines (receive_until n T C s) (map_sum id (Pair d) (perform T k (behind s)))"
proof -
  have put: "put_cmd C s = Inr (stored C s)"
    using assms(3,5) by (intro put_cmd_stored) simp
  have bs: "bs @ [C] = map (IACCommand (stored C s)) [0..<IACPos (stored C s)]"
    using assms(2) by simp
  show ?thesis
  proof (cases "IACPos s + 1 = n")
    case True
    have "refines (finish_command T (stored C s))
        (map_sum id (Pair Text) (perform T (Some (Execute (bs @ [C]))) (behind (stored C s))))"
      unfolding refines_def
      by (rule finish_refines [OF bs])
        (use assms(4-7) True frame_length_bounds(1) [of "IACCommand s 3"] in
          \<open>auto simp: frame_length_def split: if_splits\<close>)
    then show ?thesis
      using True assms(8) by (simp add: receive_until_def put)
  next
    case False
    have "refines (Inr (stored C s)) (map_sum id (Pair (Gather (bs @ [C]) (IACSigEscape s = IACReceived)))
        (perform T None (behind s)))"
      using assms(1,2) by (intro refines_silent) (simp_all add: decoder_of_def)
    then show ?thesis
      using False assms(8) by (simp add: receive_until_def put)
  qed
qed

lemma clipped:
  "map (IACCommand s) [0..<IACPos s] = bs \<Longrightarrow> IACPos s \<le> 255 \<Longrightarrow>
    map (IACCommand (if IACPos s < 255 then stored c s else s))
      [0..<IACPos (if IACPos s < 255 then stored c s else s)] = take 255 (bs @ [c])"
  by auto

lemma signature_refines:
  assumes "rx_inv s" and "IACEscape s = IACComReceiving"
    and "bs = map (IACCommand s) [0..<IACPos s]" and "4 \<le> IACPos s"
    and "IACCommand s 1 = TNSB" and "IACCommand s 3 = TNCAS_SIGNATURE"
    and "decode b l C (Gather bs (IACSigEscape s = IACReceived)) = (k, d)"
  shows "refines (receive_signature T C s) (map_sum id (Pair d) (perform T k (behind s)))"
proof -
  have pos: "IACPos s \<le> 255" "IACSigEscape s \<noteq> IACComReceiving"
    using assms(1,2,4-6) by (simp_all add: rx_inv_def IACCommand_size_def)
  have bs: "bs ! 1 = TNSB" "bs ! 3 = TNCAS_SIGNATURE" "\<not> length bs < 4"
    using assms(3-6) by simp_all
  define s1 where "s1 c = (if IACPos s < 255 then stored c s else s)" for c
  define s2 where "s2 = (if IACPos (s1 TNIAC) < 255 then stored C (s1 TNIAC) else s1 TNIAC)"
  have s1: "put_sig c s = Inr (s1 c)" "map (IACCommand (s1 c)) [0..<IACPos (s1 c)] = take 255 (bs @ [c])"
      "IACEscape (s1 c) = IACComReceiving" "IACSigEscape (s1 c) = IACSigEscape s"
      "behind (s1 c) = behind s" "IACPos (s1 c) \<le> 255" for c
    using clipped [OF assms(3) [symmetric] pos(1), of c] assms(2) pos(1)
    by (simp_all add: s1_def put_sig_stored)
  have s2: "put_sig C (s1 TNIAC) = Inr s2" "behind s2 = behind s" "IACPos s2 \<le> 255"
    using s1(5,6) [of TNIAC] by (simp_all add: s2_def put_sig_stored)
  have bs2: "map (IACCommand s2) [0..<IACPos s2] = take 255 (bs @ [TNIAC, C])"
    using clipped [OF s1(2,6), of TNIAC C]
    by (simp only: s2_def take_take_append append_assoc append.simps)
  have len: "IACPos s2 = min 255 (IACPos s + 2)"
    using arg_cong [OF bs2, of length] assms(3) by simp
  have old: "IACCommand s2 i = IACCommand s i" if "i < 4" for i
    using that assms(4) by (simp add: s2_def s1_def)
  have fin: "refines (finish_command T s2)
      (map_sum id (Pair Text) (perform T (Some (Execute (take 255 (bs @ [TNIAC, C])))) (behind s)))"
    unfolding refines_def s2(2) [symmetric]
    by (rule finish_refines [OF bs2 [symmetric]])
      (use len s2(3) assms(4,6) old [of 3] in simp_all)
  have put: "refines (Inr ((s1 C)\<lparr>IACSigEscape := IACNormal\<rparr>)) (map_sum id
      (Pair (Gather (take 255 (bs @ [C])) False)) (perform T None (behind s)))"
    using s1 [of C] by (intro refines_silent) (simp_all add: decoder_of_def)
  have mark: "refines (Inr (s\<lparr>IACSigEscape := IACReceived\<rparr>)) (map_sum id
      (Pair (Gather bs True)) (perform T None (behind s)))"
    using assms(2,3) by (intro refines_silent) (simp_all add: decoder_of_def)
  show ?thesis
  proof (cases "IACSigEscape s")
    case IACNormal
    moreover have "(s1 C)\<lparr>IACSigEscape := IACNormal\<rparr> = s1 C"
      using IACNormal s1(4) [of C] by (cases "s1 C") simp
    ultimately show ?thesis
      using put mark assms(7) bs by (auto simp: receive_signature_def s1(1))
  next
    case IACReceived
    then show ?thesis
      using put fin assms(7) bs by (auto simp: receive_signature_def s1(1) s2(1))
  qed (use pos(2) in simp)
qed

lemma command_refines:
  assumes "rx_inv s" and "IACEscape s = IACComReceiving"
    and "decode b l C (decoder_of s) = (k, d)"
  shows "refines (receive_command T C s) (map_sum id (Pair d) (perform T k (behind s)))"
proof -
  define bs where "bs = map (IACCommand s) [0..<IACPos s]"
  have two: "2 \<le> IACPos s"
    using assms(1,2) by (simp add: rx_inv_def)
  have dec: "decode b l C (Gather bs (IACSigEscape s = IACReceived)) = (k, d)"
    using assms(2,3) by (simp add: decoder_of_def bs_def)
  have bs: "length bs = IACPos s" "bs ! 1 = IACCommand s 1"
      "4 \<le> IACPos s \<Longrightarrow> bs ! 3 = IACCommand s 3"
    using two by (simp_all add: bs_def)
  consider "IACCommand s 1 \<noteq> TNSB" | "IACCommand s 1 = TNSB" "IACPos s < 4"
    | "IACCommand s 1 = TNSB" "4 \<le> IACPos s" "IACCommand s 3 = TNCAS_SIGNATURE"
    | "IACCommand s 1 = TNSB" "4 \<le> IACPos s" "IACCommand s 3 \<noteq> TNCAS_SIGNATURE"
    by linarith
  then show ?thesis
  proof cases
    case 1
    then have "IACPos s = 2"
      using assms(1,2) by (simp add: rx_inv_def)
    then have "refines (receive_until 3 T C s) (map_sum id (Pair d) (perform T k (behind s)))"
      using assms(2) 1 dec bs by (intro until_refines [OF _ bs_def]) simp_all
    then show ?thesis
      using 1 by (simp add: receive_command_eq)
  next
    case 2
    have "put_cmd C s = Inr (stored C s)"
      using 2 by (intro put_cmd_stored) simp
    moreover have "refines (Inr (stored C s)) (map_sum id (Pair (Gather (bs @ [C])
        (IACSigEscape s = IACReceived))) (perform T None (behind s)))"
      using assms(2) by (intro refines_silent) (simp_all add: decoder_of_def bs_def)
    ultimately show ?thesis
      using 2 dec bs by (auto simp: receive_command_eq)
  next
    case 3
    have "refines (receive_signature T C s) (map_sum id (Pair d) (perform T k (behind s)))"
      using assms(1,2) 3 dec by (intro signature_refines [OF _ _ bs_def]) simp_all
    then show ?thesis
      using 3 by (simp add: receive_command_eq)
  next
    case 4
    have "IACPos s < frame_length (IACCommand s 3)"
      using assms(1,2) 4 by (simp add: rx_inv_def split: if_splits)
    then have "refines (receive_until (frame_length (IACCommand s 3)) T C s)
        (map_sum id (Pair d) (perform T k (behind s)))"
      using assms(2) 4 dec bs frame_length_bounds [of "IACCommand s 3"]
      by (intro until_refines [OF _ bs_def]) (auto split: if_splits)
    then show ?thesis
      using 4 by (simp add: receive_command_eq)
  qed
qed

lemma char_refines:
  assumes "rx_inv s"
  shows "refines (EscRedirectChar T C s) (spec_char T C (spec_state s))"
proof -
  obtain k d where kd: "decode (is_do (tnstate s TN_TRANSMIT_BINARY)) (EscRedirectLast s) C
      (decoder_of s) = (k, d)"
    by fastforce
  have "refines (case IACEscape s of IACNormal \<Rightarrow> receive_normal C s | IACReceived \<Rightarrow> receive_iac C s
      | IACComReceiving \<Rightarrow> receive_command T C s) (map_sum id (Pair d) (perform T k (behind s)))"
    using kd normal_refines [of s C k d T] iac_refines [of _ _ C k d s T]
      command_refines [OF assms, of _ _ C k d T]
    by (cases "IACEscape s") (simp_all add: decoder_of_def)
  then show ?thesis
    using refines_last kd
    by (simp add: EscRedirectChar_def spec_char_def spec_state_def)
qed

section \<open>Streams\<close>

lemma finish_normal: "finish_command T s = Inr t \<Longrightarrow> IACEscape t = IACNormal"
  by (auto simp: finish_command_def bind_r_eq_Inr)

lemma put_cmd_escapes:
  "put_cmd C s = Inr t \<Longrightarrow> t = stored C s" "put_sig C s = Inr t \<Longrightarrow> t \<in> {s, stored C s}"
  by (auto simp: put_cmd_def put_sig_def stored_def split: if_splits)

text \<open>The invariant of the receiver does not depend on the room in the buffers.\<close>

lemma rx_inv_idle: "IACEscape t \<noteq> IACComReceiving \<Longrightarrow> rx_inv t"
  by (simp add: rx_inv_def)

lemma command_keeps_inv:
  assumes "rx_inv s" and "IACEscape s = IACComReceiving" and "receive_command T C s = Inr t"
  shows "rx_inv t"
proof -
  have fin: "rx_inv u" if "finish_command T v = Inr u" for u v
    using finish_normal [OF that] by (simp add: rx_inv_idle)
  have until: "rx_inv u" if "receive_until n T C s = Inr u" "IACPos s + 1 \<noteq> n \<Longrightarrow> rx_inv (stored C s)"
    for n u
    using that fin
    by (auto simp: receive_until_def bind_r_eq_Inr dest!: put_cmd_escapes split: if_splits)
  consider "IACCommand s 1 \<noteq> TNSB" | "IACCommand s 1 = TNSB" "IACPos s < 4"
    | "IACCommand s 1 = TNSB" "4 \<le> IACPos s" "IACCommand s 3 = TNCAS_SIGNATURE"
    | "IACCommand s 1 = TNSB" "4 \<le> IACPos s" "IACCommand s 3 \<noteq> TNCAS_SIGNATURE"
    by linarith
  then show ?thesis
  proof cases
    case 1
    then have "IACPos s = 2" "receive_until 3 T C s = Inr t"
      using assms by (simp_all add: rx_inv_def receive_command_eq)
    then show ?thesis
      using until [of 3 t] by simp
  next
    case 2
    then have "t = stored C s"
      using assms(3) by (auto simp: receive_command_eq dest: put_cmd_escapes)
    then show ?thesis
      using assms(1,2) 2 frame_length_bounds(1) [of C] frame_length_bounds(1) [of "IACCommand s 3"]
      by (auto simp: rx_inv_def IACCommand_size_def)
  next
    case 3
    have sig: "rx_inv (u\<lparr>IACSigEscape := IACNormal\<rparr>)" "rx_inv u" if "put_sig c s = Inr u" for u c
      using that assms(1,2) 3
      by (auto simp: rx_inv_def IACCommand_size_def put_sig_stored split: if_splits)
    have "rx_inv (s\<lparr>IACSigEscape := IACReceived\<rparr>)" "IACSigEscape s \<noteq> IACComReceiving"
      using assms(1,2) 3 by (simp_all add: rx_inv_def)
    moreover have "receive_signature T C s = Inr t"
      using assms(3) 3 by (simp add: receive_command_eq)
    ultimately show ?thesis
      using sig fin
      by (auto simp: receive_signature_def bind_r_eq_Inr split: IACState.splits if_splits)
  next
    case 4
    let ?n = "frame_length (IACCommand s 3)"
    have "IACPos s < ?n"
      using assms(1,2) 4 by (simp add: rx_inv_def split: if_splits)
    then have "rx_inv (stored C s)" if "IACPos s + 1 \<noteq> ?n"
      using that assms(2) 4 assms(1) by (simp add: rx_inv_def)
    moreover have "receive_until ?n T C s = Inr t"
      using assms(3) 4 by (simp add: receive_command_eq)
    ultimately show ?thesis
      using until by blast
  qed
qed

lemma char_keeps_inv:
  assumes "rx_inv s" and "EscRedirectChar T C s = Inr t"
  shows "rx_inv t"
proof -
  have last: "rx_inv (u\<lparr>EscRedirectLast := C\<rparr>) = rx_inv u" for u :: "'a sercd"
    by (simp add: rx_inv_def)
  obtain u where u: "(case IACEscape s of IACNormal \<Rightarrow> receive_normal C s
      | IACReceived \<Rightarrow> receive_iac C s | IACComReceiving \<Rightarrow> receive_command T C s) = Inr u"
      "t = u\<lparr>EscRedirectLast := C\<rparr>"
    using assms(2) by (auto simp: EscRedirectChar_def bind_r_eq_Inr)
  have "rx_inv u"
  proof (cases "IACEscape s")
    case IACNormal
    then have "IACEscape u \<noteq> IACComReceiving"
      using u(1) by (auto simp: receive_normal_def AddToDev_def bind_r_eq_Inr split: if_splits)
    then show ?thesis
      by (rule rx_inv_idle)
  next
    case IACReceived
    then show ?thesis
      using u(1) by (auto simp: receive_iac_def bind_r_eq_Inr rx_inv_def split: if_splits)
  next
    case IACComReceiving
    then show ?thesis
      using u(1) command_keeps_inv [OF assms(1)] by simp
  qed
  then show ?thesis
    using u(2) last by simp
qed

interpretation receiver: simulation "EscRedirectChar T" "spec_char T" spec_state rx_inv
    "\<lambda>e. e = OutOfBoundsRead"
proof
  fix x and s :: "'a sercd"
  assume "rx_inv s"
  then show "case EscRedirectChar T x s of
      Inl e \<Rightarrow> e = OutOfBoundsRead \<or> spec_char T x (spec_state s) = Inl e
    | Inr s' \<Rightarrow> rx_inv s' \<and> spec_char T x (spec_state s) = Inr (spec_state s')"
    using char_refines [of s T x] char_keeps_inv [of s T x]
    by (auto simp: refines_def split: sum.split)
qed

text \<open>
  C3. The receiver refines the decoder: for any bytes in any number, the state it ends in is the one
  the decoder ends in, with the same data delivered and the same commands executed with the same
  results, and it fails where the decoder fails. The only exception is the over-read of a signature.
\<close>

theorem receiver_refines_decoder:
  assumes "rx_inv s"
  shows "case each_r (EscRedirectChar T) bs s of
      Inl e \<Rightarrow> e = OutOfBoundsRead \<or> each_r (spec_char T) bs (spec_state s) = Inl e
    | Inr t \<Rightarrow> rx_inv t \<and> each_r (spec_char T) bs (spec_state s) = Inr (spec_state t)"
  using assms by (rule receiver.run)

section \<open>Items\<close>

text \<open>
  What a client sends, item by item: a byte of data, a negotiation, a suboption whose parameters have
  the length its kind asks for, or a signature.
\<close>

datatype item =
    Data byte
  | Negotiate byte byte
  | Suboption byte byte "byte list"
  | Signature byte "byte list"

definition doubled :: "byte list \<Rightarrow> byte list" where
  "doubled cs = concat (map (\<lambda>c. if c = TNIAC then [TNIAC, TNIAC] else [c]) cs)"

fun encode :: "item \<Rightarrow> byte list" where
  "encode (Data c) = (if c = TNIAC then [TNIAC, TNIAC] else [c])"
| "encode (Negotiate c opt) = [TNIAC, c, opt]"
| "encode (Suboption opt k ps) = [TNIAC, TNSB, opt, k] @ ps @ [TNIAC, TNSE]"
| "encode (Signature opt cs) = [TNIAC, TNSB, opt, TNCAS_SIGNATURE] @ doubled cs @ [TNIAC, TNSE]"

fun wf_item :: "item \<Rightarrow> bool" where
  "wf_item (Data c) \<longleftrightarrow> True"
| "wf_item (Negotiate c opt) \<longleftrightarrow> c \<noteq> TNIAC \<and> c \<noteq> TNSB"
| "wf_item (Suboption opt k ps) \<longleftrightarrow> k \<noteq> TNCAS_SIGNATURE \<and> length ps + 6 = frame_length k"
| "wf_item (Signature opt cs) \<longleftrightarrow> True"

fun meaning :: "item \<Rightarrow> token" where
  "meaning (Data c) = Deliver c"
| "meaning (Negotiate c opt) = Execute [TNIAC, c, opt]"
| "meaning (Suboption opt k ps) = Execute ([TNIAC, TNSB, opt, k] @ ps @ [TNIAC, TNSE])"
| "meaning (Signature opt cs) =
     Execute (take 255 ([TNIAC, TNSB, opt, TNCAS_SIGNATURE] @ cs @ [TNIAC, TNSE]))"

text \<open>Serving an item: a NUL after a carriage return is dropped outside binary mode.\<close>

definition serve :: "'p tty \<Rightarrow> item \<Rightarrow> 'p sercd \<Rightarrow> fault + 'p sercd" where
  "serve T x s =
     bind_r
       (if x = Data 0x00 \<and> \<not> is_do (tnstate s TN_TRANSMIT_BINARY) \<and> EscRedirectLast s = 0x0D
        then Inr s else perform T (Some (meaning x)) s)
       (\<lambda>t. Inr (t\<lparr>EscRedirectLast := last (encode x)\<rparr>))"

lemma perform_last:
  "bind_r (perform T k (s\<lparr>EscRedirectLast := l\<rparr>)) (\<lambda>t. Inr (d, t\<lparr>EscRedirectLast := c\<rparr>)) =
   bind_r (perform T k s) (\<lambda>t. Inr (d, t\<lparr>EscRedirectLast := c\<rparr>))"
  using char.blind_perform [of l T k s]
  by (cases "perform T k s") (simp_all add: blind_def)

lemma spec_silent:
  "(\<And>b l. decode b l C d = (None, d')) \<Longrightarrow>
    spec_char T C (d, s) = Inr (d', s\<lparr>EscRedirectLast := C\<rparr>)"
  by (simp add: spec_char_def perform_def)

lemma spec_execute:
  "(\<And>b l. decode b l C d = (Some k, Text)) \<Longrightarrow>
    spec_char T C (d, s\<lparr>EscRedirectLast := l\<rparr>) =
      bind_r (perform T (Some k) s) (\<lambda>t. Inr (Text, t\<lparr>EscRedirectLast := C\<rparr>))"
  using perform_last [of T "Some k" l s Text C] by (simp add: spec_char_def)

lemma frame_gathered:
  assumes "ws ! 1 = TNSB" and "ws ! 3 \<noteq> TNCAS_SIGNATURE" and "4 \<le> length ws"
    and "length ws < frame_length (ws ! 3)" and "2 \<le> m" and "m \<le> length ws"
  shows "\<exists>l. each_r (spec_char T) (drop m ws) (Gather (take m ws) False, s) =
    Inr (Gather ws False, s\<lparr>EscRedirectLast := l\<rparr>)"
  using assms(5,6)
proof (induction "length ws - m" arbitrary: m s)
  case 0
  then have "m = length ws"
    by simp
  then show ?case
    by (intro exI [of _ "EscRedirectLast s"]) simp
next
  case (Suc k)
  then have m: "m < length ws"
    by simp
  have "take m ws ! 1 = TNSB" "\<not> m < 4 \<Longrightarrow> take m ws ! 3 = ws ! 3"
    using assms(1) Suc.prems by simp_all
  then have "decode b l (ws ! m) (Gather (take m ws) False) = (None, Gather (take (m + 1) ws) False)"
    for b l
    using assms(2,4) m by (auto simp: take_Suc_conv_app_nth)
  then have "spec_char T (ws ! m) (Gather (take m ws) False, s) =
      Inr (Gather (take (m + 1) ws) False, s\<lparr>EscRedirectLast := ws ! m\<rparr>)"
    by (rule spec_silent)
  moreover have "drop m ws = ws ! m # drop (m + 1) ws"
    using m by (simp add: Cons_nth_drop_Suc)
  ultimately show ?case
    using Suc.hyps(1) [of "m + 1" "s\<lparr>EscRedirectLast := ws ! m\<rparr>"] Suc.hyps(2) Suc.prems m by auto
qed

lemma text_gathered:
  assumes "bs ! 1 = TNSB" and "bs ! 3 = TNCAS_SIGNATURE" and "4 \<le> length bs" and "length bs \<le> 255"
  shows "\<exists>l. each_r (spec_char T) (doubled cs) (Gather bs False, s) =
    Inr (Gather (take 255 (bs @ cs)) False, s\<lparr>EscRedirectLast := l\<rparr>)"
  using assms
proof (induction cs arbitrary: bs s)
  case Nil
  then show ?case
    by (intro exI [of _ "EscRedirectLast s"]) (simp add: doubled_def)
next
  case (Cons c cs)
  define bs' where "bs' = take 255 (bs @ [c])"
  have bs': "bs' ! 1 = TNSB" "bs' ! 3 = TNCAS_SIGNATURE" "4 \<le> length bs'" "length bs' \<le> 255"
    using Cons.prems by (simp_all add: bs'_def nth_append del: take_append)
  have "\<exists>l. each_r (spec_char T) (if c = TNIAC then [TNIAC, TNIAC] else [c]) (Gather bs False, s) =
      Inr (Gather bs' False, s\<lparr>EscRedirectLast := l\<rparr>)"
  proof (cases "c = TNIAC")
    case True
    have "decode b l TNIAC (Gather bs False) = (None, Gather bs True)"
        "decode b l TNIAC (Gather bs True) = (None, Gather bs' False)" for b l
      using Cons.prems True by (simp_all add: bs'_def del: take_append)
    then show ?thesis
      using True by (simp add: spec_silent) blast
  next
    case False
    then have "decode b l c (Gather bs False) = (None, Gather bs' False)" for b l
      using Cons.prems by (simp add: bs'_def del: take_append)
    then show ?thesis
      using False by (simp add: spec_silent) blast
  qed
  then obtain l where first: "each_r (spec_char T) (if c = TNIAC then [TNIAC, TNIAC] else [c])
      (Gather bs False, s) = Inr (Gather bs' False, s\<lparr>EscRedirectLast := l\<rparr>)" ..
  have "doubled (c # cs) = (if c = TNIAC then [TNIAC, TNIAC] else [c]) @ doubled cs"
    by (simp add: doubled_def)
  moreover have "take 255 (bs' @ cs) = take 255 (bs @ c # cs)"
    using take_take_append [of 255 "bs @ [c]" cs] by (simp add: bs'_def del: take_append)
  ultimately show ?case
    using first Cons.IH [OF bs', of "s\<lparr>EscRedirectLast := l\<rparr>"] by (auto simp: each_r_append)
qed

lemma command_started:
  assumes "c \<noteq> TNIAC"
  shows "each_r (spec_char T) [TNIAC, c] (Text, s) =
    Inr (Gather [TNIAC, c] False, s\<lparr>EscRedirectLast := c\<rparr>)"
  using assms by (simp add: spec_silent)

lemma data_spec:
  assumes "x = Data c"
  shows "each_r (spec_char T) (encode x) (Text, s) = bind_r (serve T x s) (\<lambda>t. Inr (Text, t))"
proof (cases "c = TNIAC")
  case True
  have "spec_char T TNIAC (Text, s) = Inr (Escape, s\<lparr>EscRedirectLast := TNIAC\<rparr>)"
    by (rule spec_silent) simp
  moreover have "spec_char T TNIAC (Escape, s\<lparr>EscRedirectLast := TNIAC\<rparr>) =
      bind_r (perform T (Some (Deliver TNIAC)) s) (\<lambda>t. Inr (Text, t\<lparr>EscRedirectLast := TNIAC\<rparr>))"
    by (rule spec_execute) simp
  ultimately show ?thesis
    using assms True by (simp add: serve_def bind_r_assoc)
next
  case False
  then show ?thesis
    using assms by (simp add: serve_def spec_char_def perform_def bind_r_assoc)
qed

lemma suboption_spec:
  assumes "x = Suboption opt k ps" and "wf_item x"
  shows "each_r (spec_char T) (encode x) (Text, s) = bind_r (serve T x s) (\<lambda>t. Inr (Text, t))"
proof -
  define ws where "ws = [TNIAC, TNSB, opt, k] @ ps @ [TNIAC]"
  have ws: "encode x = [TNIAC, TNSB] @ drop 2 ws @ [TNSE]" "take 2 ws = [TNIAC, TNSB]"
      "ws ! 1 = TNSB" "ws ! 3 = k" "length ws + 1 = frame_length k" "4 \<le> length ws"
    using assms by (simp_all add: ws_def numeral_2_eq_2)
  obtain l where l: "each_r (spec_char T) (drop 2 ws) (Gather [TNIAC, TNSB] False,
      s\<lparr>EscRedirectLast := TNSB\<rparr>) = Inr (Gather ws False, s\<lparr>EscRedirectLast := l\<rparr>)"
    using frame_gathered [of ws 2 T "s\<lparr>EscRedirectLast := TNSB\<rparr>"] assms ws by auto
  define start where "start = [TNIAC, TNSB]"
  have two: "encode x = start @ drop 2 ws @ [TNSE]" "each_r (spec_char T) start (Text, s) =
      Inr (Gather [TNIAC, TNSB] False, s\<lparr>EscRedirectLast := TNSB\<rparr>)"
    using command_started [of TNSB T s] ws(1) by (simp_all add: start_def)
  have "spec_char T TNSE (Gather ws False, s\<lparr>EscRedirectLast := l\<rparr>) =
      bind_r (perform T (Some (Execute (ws @ [TNSE]))) s)
        (\<lambda>t. Inr (Text, t\<lparr>EscRedirectLast := TNSE\<rparr>))"
    by (rule spec_execute) (use assms ws(3-6) in simp)
  moreover have "Execute (ws @ [TNSE]) = meaning x" "last (encode x) = TNSE" "x \<noteq> Data 0"
    using assms(1) by (simp_all add: ws_def)
  ultimately show ?thesis
    using two l by (simp add: each_r_append serve_def bind_r_assoc)
qed

lemma signature_spec:
  assumes "x = Signature opt cs"
  shows "each_r (spec_char T) (encode x) (Text, s) = bind_r (serve T x s) (\<lambda>t. Inr (Text, t))"
proof -
  define bs where "bs = [TNIAC, TNSB, opt, TNCAS_SIGNATURE]"
  define ts where "ts = take 255 (bs @ cs)"
  have start: "each_r (spec_char T) [opt, TNCAS_SIGNATURE] (Gather [TNIAC, TNSB] False,
      s\<lparr>EscRedirectLast := TNSB\<rparr>) = Inr (Gather bs False, s\<lparr>EscRedirectLast := TNCAS_SIGNATURE\<rparr>)"
    by (simp add: spec_silent bs_def)
  obtain l where l: "each_r (spec_char T) (doubled cs) (Gather bs False,
      s\<lparr>EscRedirectLast := TNCAS_SIGNATURE\<rparr>) = Inr (Gather ts False, s\<lparr>EscRedirectLast := l\<rparr>)"
    using text_gathered [of bs T cs "s\<lparr>EscRedirectLast := TNCAS_SIGNATURE\<rparr>"]
    by (auto simp: bs_def ts_def)
  have ts: "ts ! 1 = TNSB" "ts ! 3 = TNCAS_SIGNATURE" "\<not> length ts < 4"
    by (simp_all add: ts_def bs_def)
  have "spec_char T TNIAC (Gather ts False, s\<lparr>EscRedirectLast := l\<rparr>) =
      Inr (Gather ts True, s\<lparr>EscRedirectLast := TNIAC\<rparr>)"
    using spec_silent [of TNIAC "Gather ts False" "Gather ts True" T "s\<lparr>EscRedirectLast := l\<rparr>"] ts
    by simp
  moreover have "take 255 (ts @ [TNIAC, TNSE]) = take 255 (bs @ cs @ [TNIAC, TNSE])"
    using take_take_append [of 255 "bs @ cs" "[TNIAC, TNSE]"] by (simp add: ts_def del: take_append)
  then have "spec_char T TNSE (Gather ts True, s\<lparr>EscRedirectLast := TNIAC\<rparr>) =
      bind_r (perform T (Some (Execute (take 255 (bs @ cs @ [TNIAC, TNSE])))) s)
        (\<lambda>t. Inr (Text, t\<lparr>EscRedirectLast := TNSE\<rparr>))"
    by (intro spec_execute) (use ts in \<open>simp del: take_append\<close>)
  moreover define init where "init = [TNIAC, TNSB] @ [opt, TNCAS_SIGNATURE]"
  have "each_r (spec_char T) init (Text, s) =
      Inr (Gather bs False, s\<lparr>EscRedirectLast := TNCAS_SIGNATURE\<rparr>)"
    unfolding init_def each_r_append
    using command_started [of TNSB T s] start by (simp del: each_r.simps)
  moreover have "encode x = init @ doubled cs @ [TNIAC, TNSE]"
      "Execute (take 255 (bs @ cs @ [TNIAC, TNSE])) = meaning x" "last (encode x) = TNSE"
      "x \<noteq> Data 0"
    using assms by (simp_all add: bs_def init_def)
  ultimately show ?thesis
    using l by (simp add: each_r_append serve_def bind_r_assoc del: take_append)
qed

lemma item_spec:
  assumes "wf_item x"
  shows "each_r (spec_char T) (encode x) (Text, s) = bind_r (serve T x s) (\<lambda>t. Inr (Text, t))"
proof (cases x)
  case (Negotiate c opt)
  have "spec_char T opt (Gather [TNIAC, c] False, s\<lparr>EscRedirectLast := c\<rparr>) =
      bind_r (perform T (Some (Execute [TNIAC, c, opt])) s) (\<lambda>t. Inr (Text, t\<lparr>EscRedirectLast := opt\<rparr>))"
    by (rule spec_execute) (use assms Negotiate in simp)
  then show ?thesis
    using assms Negotiate command_started [of c T s]
    by (simp add: each_r_append [of _ "[TNIAC, c]" "[opt]", simplified] serve_def bind_r_assoc)
next
  case (Data c)
  then show ?thesis
    by (rule data_spec)
next
  case (Suboption opt k ps)
  then show ?thesis
    using assms by (rule suboption_spec)
next
  case (Signature opt cs)
  then show ?thesis
    by (rule signature_spec)
qed

lemma items_spec:
  "\<forall>x\<in>set xs. wf_item x \<Longrightarrow>
    each_r (spec_char T) (concat (map encode xs)) (Text, s) =
      bind_r (each_r (serve T) xs s) (\<lambda>t. Inr (Text, t))"
proof (induction xs arbitrary: s)
  case (Cons x xs)
  then show ?case
    by (cases "serve T x s") (simp_all add: each_r_append item_spec)
qed simp

lemma serve_behind: "blind behind (serve T x s) (serve T x (behind s))"
  unfolding serve_def behind_simps
  by (intro rest.blind_bind rest.blind_if rest.blind_perform rest.blind_Inr)
    (simp add: blind_def behind_last)

lemma items_behind: "each_r (serve T) xs (behind s) = map_sum id behind (each_r (serve T) xs s)"
proof (induction xs arbitrary: s)
  case (Cons x xs)
  then show ?case
    using serve_behind [of T x s] by (cases "serve T x s") (simp_all add: blind_def)
qed simp


text \<open>A byte that the client doubles, a negotiation and a request for the parity.\<close>

definition sample_items :: "item list" where
  "sample_items = [Data 255, Negotiate 253 31, Suboption 44 3 [0]]"

theorem receiver_refines_decoder_witness:
  "case each_r (EscRedirectChar mem_tty) [65, 255, 253, 31] (fresh_sercd LP64 sample_port) of
      Inl e \<Rightarrow> e = OutOfBoundsRead \<or>
        each_r (spec_char mem_tty) [65, 255, 253, 31] (spec_state (fresh_sercd LP64 sample_port)) = Inl e
    | Inr t \<Rightarrow> rx_inv t \<and>
        each_r (spec_char mem_tty) [65, 255, 253, 31] (spec_state (fresh_sercd LP64 sample_port)) =
          Inr (spec_state t)"
  by (rule receiver_refines_decoder) simp


end
