(* ===== verification/End_To_End.thy ===== *)
theory End_To_End
  imports Telnet_Stream Telnet_Decoder
begin

text \<open>
  Both directions of a session, from end to end. A client that decodes what it is sent as Telnet reads
  the bytes the port delivered; the port is written the bytes that the client's stream decodes to. In
  binary mode this is exact, otherwise up to NULs. The stages of the loop, the senders, the receiver
  and the ring buffers all take part, whatever the system answers as long as no write would block.
\<close>

section \<open>Equal up to NULs\<close>

text \<open>\<open>padded exact ds es\<close>: \<open>es\<close> is \<open>ds\<close> with some NULs put in, and with none if \<open>exact\<close>.\<close>

inductive padded :: "bool \<Rightarrow> byte list \<Rightarrow> byte list \<Rightarrow> bool" for exact where
  padded_Nil: "padded exact [] []"
| padded_byte: "padded exact ds es \<Longrightarrow> padded exact (c # ds) (c # es)"
| padded_nul: "\<not> exact \<Longrightarrow> padded exact ds es \<Longrightarrow> padded exact ds (0 # es)"

lemma padded_refl [simp]: "padded x ds ds"
  by (induction ds) (auto intro: padded.intros)

lemma padded_exact [simp]: "padded True ds es \<longleftrightarrow> ds = es"
proof
  show "padded True ds es \<Longrightarrow> ds = es"
    by (induction rule: padded.induct) simp_all
qed simp

lemma padded_append: "padded x as bs \<Longrightarrow> padded x ds es \<Longrightarrow> padded x (as @ ds) (bs @ es)"
  by (induction rule: padded.induct) (auto intro: padded.intros)

lemma padded_weaken: "padded x ds es \<Longrightarrow> (y \<Longrightarrow> x) \<Longrightarrow> padded y ds es"
  by (induction rule: padded.induct) (auto intro: padded.intros)

section \<open>What the port and the client have sent\<close>

fun port_sent :: "event \<Rightarrow> byte list" where
  "port_sent (DevRead bs) = bs"
| "port_sent e = []"

fun client_sent :: "event \<Rightarrow> byte list" where
  "client_sent (NetRead bs) = bs"
| "client_sent e = []"

definition from_port :: "'p sercd \<Rightarrow> byte list" where
  "from_port s = concat (map port_sent (trace s))"

definition from_client :: "'p sercd \<Rightarrow> byte list" where
  "from_client s = concat (map client_sent (trace s))"

lemma from_emit [simp]:
  "from_port (emit e s) = from_port s @ port_sent e"
  "from_client (emit e s) = from_client s @ client_sent e"
  by (simp_all add: from_port_def from_client_def)

lemma decoder_of_simps [simp]:
  "decoder_of (emit e s) = decoder_of s" "decoder_of (readbuf_update g s) = decoder_of s"
  "decoder_of (net_put bs s) = decoder_of s" "decoder_of (EscWriteLast_update l s) = decoder_of s"
  "decoder_of (ToDevBuf_update B s) = decoder_of s" "decoder_of (ToNetBuf_update B s) = decoder_of s"
  "decoder_of (ModemState_update m s) = decoder_of s"
  by (simp_all add: decoder_of_def emit_def net_put_def split: IACState.split)

lemma dev_stream_emit [simp]:
  "dev_stream (emit (Closed c) s) = dev_stream s" "dev_stream (emit (NetWritten bs) s) = dev_stream s"
  by (simp_all add: dev_stream_def)

text \<open>Two states whose streams, receivers and modes are the same.\<close>

definition alike :: "'p sercd \<Rightarrow> 'p sercd \<Rightarrow> bool" where
  "alike s t \<longleftrightarrow> client_stream t = client_stream s \<and> from_port t = from_port s \<and>
     from_client t = from_client s \<and> dev_stream t = dev_stream s \<and> decoder_of t = decoder_of s \<and>
     tnstate t = tnstate s"

lemma alike_simps [simp]:
  "alike s (set_port f s)" "alike s (readbuf_update g s)" "alike s (LastPoll_update h s)"
  by (simp_all add: alike_def set_port_def client_stream_def sent_to_client_def net_bytes_def
      from_port_def from_client_def dev_stream_def dev_bytes_def decoder_of_def split: IACState.split)

lemma loop_inv_poll [simp]: "loop_inv (LastPoll_update h s) = loop_inv s"
  by (simp add: loop_inv_def net_ok_def dev_ok_def rx_inv_def)

section \<open>Sessions\<close>

text \<open>
  A connected client over any number of iterations in which no write would block. With \<open>binary\<close>, the
  program has agreed to send in binary mode at the start of each of them.
\<close>

inductive session :: "'p tty \<Rightarrow> bool \<Rightarrow> 'p sercd \<Rightarrow> 'p sercd \<Rightarrow> bool" for T binary where
  session_refl: "session T binary s s"
| session_step: "session T binary s s1 \<Longrightarrow> (binary \<longrightarrow> sends_binary s1) \<Longrightarrow>
    unblocked (dev_write E) \<Longrightarrow> unblocked (net_write E) \<Longrightarrow>
    main_iteration T E (set_port (line_change E) s1) = Inr (Again s2) \<Longrightarrow>
    InSocketFd s2 \<noteq> None \<Longrightarrow> session T binary s s2"

text \<open>A stage that runs \<open>continue\<close> has dropped the client.\<close>

lemma dropped [simp]: "InSocketFd (drop_client T s) = None"
  by (simp add: drop_client_def)

definition drops :: "fault + 'p stage \<Rightarrow> bool" where
  "drops r \<longleftrightarrow> (\<forall>t. r = Inr (Continue t) \<longrightarrow> InSocketFd t = None)"

lemma drops_simps [simp]: "drops (Inl e)" "drops (Inr (Next t))" "drops (next_r m)"
  by (auto simp: drops_def next_r_def bind_r_eq_Inr)

lemma drops_bind: "(\<And>x. drops (f x)) \<Longrightarrow> drops (bind_r m f)"
  by (cases m) simp_all

lemma drops_if: "drops x \<Longrightarrow> drops y \<Longrightarrow> drops (if b then x else y)"
  by simp

lemma drops_drop: "drops (Inr (Continue (drop_client T s)))"
  by (simp add: drops_def)

lemma drops_then: "drops r \<Longrightarrow> (\<And>u. drops (f u)) \<Longrightarrow> drops (and_then r f)"
  by (cases r) (auto simp: drops_def and_then_def split: stage.splits)

lemma drops_on: "drops (f s) \<Longrightarrow> drops (on e evs f s)"
  by (simp add: on_def)

lemma handle_events_drops: "drops (handle_events T E evs s)"
proof -
  have 1: "drops (device_in T E t)" "drops (device_out T E t)" "drops (socket_out T E t)"
      "drops (socket_in T E t)" for t
    unfolding device_in_def device_out_def socket_out_def socket_in_def Let_def
    by (intro drops_bind drops_if drops_drop drops_simps)+
  have 2: "drops (socket_connect E t)" "drops (modem_state T t)" for t
    unfolding socket_connect_def modem_state_def Let_def
    by (intro drops_bind drops_if drops_simps)+
  have 3: "drops (open_port T E t)" for t
    by (auto simp: open_port_def Let_def drops_def split: bool.splits prod.splits if_splits)
  show ?thesis
    unfolding handle_events_def by (intro drops_then drops_on 1 2 3)
qed

text \<open>
  A relation between the states before and after that is closed under composition and holds of every
  stage holds of a session. The relation may depend on whether the program sends in binary mode.
\<close>

definition staged :: "('p sercd \<Rightarrow> 'p sercd \<Rightarrow> bool) \<Rightarrow> 'p sercd \<Rightarrow> fault + 'p stage \<Rightarrow> bool" where
  "staged R s r \<longleftrightarrow> (\<forall>t. r = Inr (Next t) \<longrightarrow> R s t)"

locale session_relation =
  fixes T :: "'p tty" and R :: "bool \<Rightarrow> 'p sercd \<Rightarrow> 'p sercd \<Rightarrow> bool"
  assumes alike_rel: "alike s t \<Longrightarrow> R b s t"
    and trans_rel: "R b s t \<Longrightarrow> R b t u \<Longrightarrow> R b s u"
    and weak_rel: "R b s t \<Longrightarrow> (c \<longrightarrow> b) \<Longrightarrow> R c s t"
    and dev_in: "loop_inv s \<Longrightarrow> DeviceFd s \<noteq> None \<Longrightarrow> device_in T E s = Inr (Next t) \<Longrightarrow>
      R (sends_binary s) s t"
    and dev_out: "loop_inv s \<Longrightarrow> DeviceFd s \<noteq> None \<Longrightarrow> unblocked (dev_write E) \<Longrightarrow>
      device_out T E s = Inr (Next t) \<Longrightarrow> R True s t"
    and sock_out: "loop_inv s \<Longrightarrow> DeviceFd s \<noteq> None \<Longrightarrow> unblocked (net_write E) \<Longrightarrow>
      socket_out T E s = Inr (Next t) \<Longrightarrow> R True s t"
    and sock_in: "loop_inv s \<Longrightarrow> DeviceFd s \<noteq> None \<Longrightarrow> socket_in T E s = Inr (Next t) \<Longrightarrow> R True s t"
    and modem: "loop_inv s \<Longrightarrow> DeviceFd s \<noteq> None \<Longrightarrow> modem_state T s = Inr (Next t) \<Longrightarrow> R True s t"
begin

lemma refl_rel: "R b s s"
  by (rule alike_rel) (simp add: alike_def)

lemma handle_events_rel:
  assumes "loop_inv s" and "DeviceFd s \<noteq> None" and "events_ok evs s"
    and "unblocked (dev_write E)" and "unblocked (net_write E)"
  shows "staged (R (sends_binary s)) s (handle_events T E evs s)"
proof -
  have open_after: "DeviceFd t \<noteq> None" if "onward s t" for t
    using that assms(2) by (auto simp: onward_def)
  have any: "R b t u" if "R True t u" for b t u
    using that by (rule weak_rel) simp
  show ?thesis
  proof (rule handle_events_stages [OF assms(1,3), where K = "staged (R (sends_binary s))"])
    show "staged (R (sends_binary s)) t (and_then r f)" if "staged (R (sends_binary s)) t r"
        "\<And>u. loop_inv u \<Longrightarrow> onward t u \<Longrightarrow> r = Inr (Next u) \<Longrightarrow> staged (R (sends_binary s)) u (f u)"
        "stage_ok (\<lambda>e. True) t r" for t r f
    proof (cases r)
      case (Inr x)
      then show ?thesis
        using that trans_rel by (cases x) (auto simp: staged_def stage_ok_def)
    qed (simp add: staged_def)
    show "staged (R (sends_binary s)) t (socket_connect E t)" if "loop_inv t" "onward s t"
        "LSocketFd t \<noteq> None" for t
      using inv_open(4) [OF that(1) open_after [OF that(2)]] that(3) coherent [OF that(1)] refl_rel
      by (auto simp: staged_def socket_connect_def deref_def Let_def)
        (rule alike_rel, simp add: alike_def)
    show "staged (R (sends_binary s)) t (open_port T E t)" if later: "loop_inv t" "onward s t" for t
    proof -
      obtain fd where "DeviceFd t = Some fd"
        using open_after [OF later(2)] by blast
      then show ?thesis
        using refl_rel by (simp add: staged_def open_port_def)
    qed
  qed (use assms(4,5) open_after refl_rel in \<open>auto simp: staged_def
      intro: dev_in any [OF dev_out] any [OF sock_out] any [OF sock_in] any [OF modem]\<close>)
qed

lemma iteration_rel:
  assumes "loop_inv s" and "DeviceFd s \<noteq> None" and "unblocked (dev_write E)"
    and "unblocked (net_write E)" and "main_iteration T E s = Inr (Again t)"
    and "InSocketFd t \<noteq> None"
  shows "R (sends_binary s) s t \<and> loop_inv t \<and> DeviceFd t \<noteq> None"
proof -
  from assms(5,1) show ?thesis
  proof (cases rule: iteration_outcome)
    case idle
    then obtain l where "t = s\<lparr>LastPoll := l\<rparr>"
      unfolding iteration_state_def iteration.case by blast
    then show ?thesis
      using alike_rel [OF alike_simps(3)] assms(1,2) by simp
  next
    case (handled evs s1 u)
    have u: "u = t"
      using handled(4) by simp
    have s1: "alike s s1" "DeviceFd s1 = DeviceFd s" "sends_binary s1 = sends_binary s"
      by (subst handled(1), simp add: sends_binary_def)+
    have dev: "DeviceFd s1 \<noteq> None"
      using s1(2) assms(2) by simp
    have on: "handle_events T E evs s1 = Inr (Next t)"
      using handled(5) handle_events_drops [of T E evs s1] assms(6) u by (auto simp: drops_def)
    then have "R (sends_binary s) s1 t"
      using handle_events_rel [OF handled(2) dev handled(3) assms(3,4)] s1(3)
      by (simp add: staged_def)
    moreover have "loop_inv t" "onward s1 t"
      using handle_events_ok [OF handled(2,3), of E T] on by (simp_all add: stage_ok_def)
    ultimately show ?thesis
      using trans_rel [OF alike_rel [OF s1(1)]] dev by (simp add: onward_def)
  qed
qed

lemma session_rel:
  "session T b s t \<Longrightarrow> loop_inv s \<Longrightarrow> DeviceFd s \<noteq> None \<Longrightarrow> R b s t \<and> loop_inv t \<and> DeviceFd t \<noteq> None"
proof (induction rule: session.induct)
  case (session_refl s)
  then show ?case
    by (simp add: refl_rel)
next
  case (session_step s s1 E s2)
  let ?s1 = "set_port (line_change E) s1"
  have s1: "R b s s1" "loop_inv ?s1" "DeviceFd ?s1 \<noteq> None" "sends_binary ?s1 = sends_binary s1"
    using session_step by simp_all (simp_all add: sends_binary_def set_port_def)
  have "R (sends_binary ?s1) ?s1 s2 \<and> loop_inv s2 \<and> DeviceFd s2 \<noteq> None"
    using iteration_rel [OF s1(2,3)] session_step.hyps by blast
  moreover have "b \<longrightarrow> sends_binary ?s1"
    using session_step.hyps(2) s1(4) by simp
  ultimately have "R b ?s1 s2" "loop_inv s2 \<and> DeviceFd s2 \<noteq> None"
    using weak_rel by blast+
  then show ?case
    using trans_rel [OF s1(1) trans_rel [OF alike_rel [OF alike_simps(1)]]] by blast
qed

end
section \<open>From the port to the client\<close>

text \<open>What a client decodes from its stream grows by what the port has sent.\<close>

definition relayed :: "bool \<Rightarrow> 'p sercd \<Rightarrow> 'p sercd \<Rightarrow> bool" where
  "relayed b s t \<longleftrightarrow>
     (\<exists>us ds. telnet us \<and> client_stream t = client_stream s @ us \<and>
        from_port t = from_port s @ ds \<and> padded b ds (fst (heard Plain us)))"

lemma relayed_same: "client_stream t = client_stream s \<Longrightarrow> from_port t = from_port s \<Longrightarrow> relayed b s t"
  unfolding relayed_def by (intro exI [of _ "[]"]) (simp add: telnet_Nil)

lemma relayed_trans:
  assumes "relayed b s t" and "relayed b t u"
  shows "relayed b s u"
proof -
  obtain us ds where 1: "telnet us" "client_stream t = client_stream s @ us"
      "from_port t = from_port s @ ds" "padded b ds (fst (heard Plain us))"
    using assms(1) unfolding relayed_def by blast
  obtain vs es where 2: "telnet vs" "client_stream u = client_stream t @ vs"
      "from_port u = from_port t @ es" "padded b es (fst (heard Plain vs))"
    using assms(2) unfolding relayed_def by blast
  have "padded b (ds @ es) (fst (heard Plain (us @ vs)))"
    using padded_append [OF 1(4) 2(4)] by (simp add: heard_telnet_append [OF 1(1)])
  then show ?thesis
    using 1 2 telnet_append [OF 1(1) 2(1)]
    unfolding relayed_def by (intro exI [of _ "us @ vs"] exI [of _ "ds @ es"]) simp
qed

lemma utters_relayed:
  assumes "utters silent s (Inr t)" and "net_ok s"
  shows "relayed b s t"
proof -
  obtain bs where "silent bs" "net_bytes t = net_bytes s @ bs" "trace t = trace s"
    using assms by (auto simp: utters_def)
  then show ?thesis
    unfolding relayed_def silent_def
    by (intro exI [of _ bs] exI [of _ "[]"])
      (simp add: client_stream_def sent_to_client_def from_port_def padded_Nil)
qed

lemma heard_esc_char:
  "padded bin [c] (fst (heard Plain (esc_char bin l c))) \<and> snd (heard Plain (esc_char bin l c)) = Plain"
  by (auto simp: esc_char_def intro: padded.intros)

lemma heard_esc_bytes: "padded bin cs (fst (heard Plain (esc_bytes bin l cs)))"
proof (induction cs arbitrary: l)
  case Nil
  then show ?case
    by (simp add: padded_Nil)
next
  case (Cons c cs)
  then show ?case
    using padded_append [OF conjunct1 [OF heard_esc_char] Cons.IH [of c], of c l]
    by (simp add: heard_append heard_esc_char)
qed

lemma device_in_relayed:
  assumes "loop_inv s" and "DeviceFd s \<noteq> None" and "device_in T E s = Inr (Next t)"
  shows "relayed (sends_binary s) s t"
proof -
  obtain bs where bs: "length (net_bytes s) + 2 * length bs \<le> 2047"
      "t = escaped bs (emit (DevRead bs) (s\<lparr>readbuf := overlay bs (readbuf s)\<rparr>))"
    using device_in_run [OF assms] by blast
  let ?s1 = "emit (DevRead bs) (s\<lparr>readbuf := overlay bs (readbuf s)\<rparr>)"
  let ?out = "esc_bytes (sends_binary s) (EscWriteLast s) bs"
  have "net_bytes t = net_bytes s @ ?out"
    using escaped_bytes [of ?s1 bs] inv_open(1) [OF assms(1,2)] bs by (simp add: sends_binary_def)
  moreover have "trace t = trace s @ [DevRead bs]"
    unfolding bs(2) by (simp add: escaped_def net_put_def)
  ultimately have "client_stream t = client_stream s @ ?out" "from_port t = from_port s @ bs"
    by (simp_all add: client_stream_def sent_to_client_def from_port_def)
  then show ?thesis
    unfolding relayed_def using escaped_text_telnet [OF esc_bytes_text] heard_esc_bytes by blast
qed

lemma device_out_relayed: "device_out T E s = Inr (Next t) \<Longrightarrow> relayed b s t"
  by (rule relayed_same)
    (auto simp: device_out_def Let_def bind_r_eq_Inr from_port_def client_stream_def
      sent_to_client_def net_bytes_def split: if_splits)

lemma socket_out_relayed:
  assumes "loop_inv s" and "DeviceFd s \<noteq> None" and "unblocked (net_write E)"
    and "socket_out T E s = Inr (Next t)"
  shows "relayed b s t"
proof -
  have "buf_ok (ToNetBuf s)"
    using inv_open(1) [OF assms(1,2)] by (simp add: net_ok_def)
  from popped [OF this assms(3)] show ?thesis
    using assms(4)
    by (intro relayed_same)
      (auto simp: socket_out_def Let_def bind_r_eq_Inr from_port_def client_stream_def
        sent_to_client_def net_bytes_def split: if_splits)
qed

lemma socket_in_relayed:
  assumes "loop_inv s" and "DeviceFd s \<noteq> None" and "socket_in T E s = Inr (Next t)"
  shows "relayed b s t"
proof -
  let ?n = "min (min readbuf_size
      (unat (BufferRoomLeft (ToNetBuf s)) div EscRedirectChar_bytes_SockB (sizeof_long s)))
      (unat (BufferRoomLeft (ToDevBuf s)) div EscRedirectChar_bytes_DevB)"
  let ?bs = "read_bytes (net_read E) ?n"
  let ?s1 = "emit (NetRead ?bs) (s\<lparr>readbuf := overlay ?bs (readbuf s)\<rparr>)"
  have "utters silent t (redirect T c t)" for t c
    by (simp add: redirect_def deref_def silent.EscRedirectChar_utters split: option.split)
  then have "utters silent ?s1 (each_below (from_readbuf (redirect T)) 0 n ?s1)" for n
    by (intro silent.each_below_utters) (simp add: from_readbuf_def)
  moreover obtain n where "each_below (from_readbuf (redirect T)) 0 n ?s1 = Inr t"
    using assms(3)
    by (auto simp: socket_in_def Let_def bind_r_eq_Inr next_r_def split: if_splits)
  ultimately have "utters silent ?s1 (Inr t)"
    by metis
  moreover have "net_ok ?s1"
    using inv_open(1) [OF assms(1,2)] by simp
  ultimately have "relayed b ?s1 t"
    by (rule utters_relayed)
  then show ?thesis
    by (simp add: relayed_def from_port_def)
qed

lemma modem_state_relayed:
  assumes "loop_inv s" and "DeviceFd s \<noteq> None" and "modem_state T s = Inr (Next t)"
  shows "relayed b s t"
proof -
  have "utters silent s (SendCPCByteCommand TNASC_NOTIFY_MODEMSTATE v (s\<lparr>ModemState := m\<rparr>))"
    for v m
    by (rule silent.set_then_utters(3)) simp_all
  then have "relayed b s t"
    if "SendCPCByteCommand TNASC_NOTIFY_MODEMSTATE v (s\<lparr>ModemState := m\<rparr>) = Inr t" for v m
    using that inv_open(1) [OF assms(1,2)] utters_relayed by metis
  then show ?thesis
    using assms(3)
    by (auto simp: modem_state_def Let_def bind_r_eq_Inr next_r_def relayed_same split: if_splits)
qed

interpretation outward: session_relation T relayed for T
proof
  show "relayed c s t" if "relayed b s t" "c \<longrightarrow> b" for b c and s t :: "'a sercd"
    using that unfolding relayed_def by (meson padded_weaken)
qed (auto simp: alike_def intro: relayed_same relayed_trans device_in_relayed device_out_relayed
    socket_out_relayed socket_in_relayed modem_state_relayed)

text \<open>
  C1. As long as a client stays connected, whatever it sends and whatever the system answers without
  blocking a write: the program sends it complete Telnet units whose data, as the client decodes it,
  is what the port has delivered, in order. Nothing is lost and nothing else gets into the data but
  NULs, and not even those where the program sends in binary mode.
\<close>

theorem client_reads_port_data:
  assumes "loop_inv s" and "DeviceFd s \<noteq> None" and "session T binary s t"
  shows "\<exists>us ds. telnet us \<and>
    fold since_accepted (trace t) [] @ net_bytes t =
      (fold since_accepted (trace s) [] @ net_bytes s) @ us \<and>
    concat (map port_sent (trace t)) = concat (map port_sent (trace s)) @ ds \<and>
    padded binary ds (fst (heard Plain us))"
  using outward.session_rel [OF assms(3,1,2)]
  by (simp add: relayed_def client_stream_def sent_to_client_def from_port_def)

text \<open>A session of one iteration, with a client that has agreed to binary mode both ways.\<close>

definition binary_client :: "mem_port sercd" where
  "binary_client = open_client\<lparr>tnstate := (\<lambda>i. tn_clear\<lparr>is_will := True, is_do := True\<rparr>)\<rparr>"

definition busy_env :: "int \<Rightarrow> mem_port env" where
  "busy_env fd = quiet_env\<lparr>ready_fds := Some ({fd}, {}), dev_read := ReadData [65, 255],
     net_read := ReadData [255, 255], dev_write := WriteTakes 1, net_write := WriteTakes 1\<rparr>"

lemma binary_client_simps [simp]:
  "loop_inv binary_client" "DeviceFd binary_client = Some 7" "InSocketFd binary_client = Some 5"
  "OutSocketFd binary_client = Some 5" "LSocketFd binary_client = Some 3" "rx_inv binary_client"
  "net_bytes binary_client = []" "dev_bytes binary_client = []" "trace binary_client = []"
  "sends_binary binary_client" "EscWriteLast binary_client = 0" "sizeof_long binary_client = LP64"
  "InputFlow binary_client" "PortControlEnable binary_client" "LastPoll binary_client = (0, 0)"
  "net_ok binary_client" "dev_ok binary_client" "IACEscape binary_client = IACNormal"
  "is_do (tnstate binary_client i)"
  by (simp_all add: binary_client_def open_client_def loop_inv_def net_ok_def dev_ok_def rx_inv_def
      net_bytes_def dev_bytes_def fresh_sercd_def sercd_globals_def sends_binary_def)

lemma busy_select:
  "fd \<in> {5, 7} \<Longrightarrow>
    SercdSelect (busy_env fd) (DeviceIn binary_client) (DeviceOut binary_client)
      (Modemstate binary_client) (SocketOut binary_client) (SocketIn binary_client)
      (LSocketFd binary_client) DEFAULT_POLL_INTERVAL binary_client =
    (Some {if fd = 7 then SERCD_EV_DEVICEIN else SERCD_EV_SOCKETIN}, binary_client)"
proof -
  have buf: "contents (ToNetBuf binary_client) = []" "contents (ToDevBuf binary_client) = []"
    using binary_client_simps(7,8) by (simp_all only: net_bytes_def dev_bytes_def)
  have fds: "DeviceIn binary_client = Some 7" "DeviceOut binary_client = None"
      "Modemstate binary_client = Some 7" "SocketOut binary_client = None"
      "SocketIn binary_client = Some 5"
    by (simp_all add: DeviceIn_def DeviceOut_def Modemstate_def SocketOut_def SocketIn_def buf
        BufferHasRoomFor_nat IsBufferEmpty_contents EscWriteChar_bytes_def
        SendCPCByteCommand_bytes_def EscRedirectChar_bytes_DevB_def
        EscRedirectChar_bytes_SockB_def)
  have same: "binary_client\<lparr>LastPoll := (0, 0)\<rparr> = binary_client"
    using binary_client_simps(15) by (cases binary_client) simp
  show "fd \<in> {5, 7} \<Longrightarrow> ?thesis"
    unfolding fds
    by (auto simp: SercdSelect_def busy_env_def quiet_env_def Let_def event_if_def FD_ISSET_def
        FD_SET_def poll_due_def timercmp_less_def DEFAULT_POLL_INTERVAL_def same)
qed

lemma busy_session:
  assumes "fd \<in> {5, 7}" and "InSocketFd t \<noteq> None"
    and "handle_events mem_tty (busy_env fd) {if fd = 7 then SERCD_EV_DEVICEIN else SERCD_EV_SOCKETIN}
      binary_client = Inr (Next t)"
  shows "session mem_tty True binary_client t"
proof -
  have "set_port (line_change (busy_env fd)) binary_client = binary_client"
    by (simp add: set_port_def busy_env_def quiet_env_def)
  moreover have "main_iteration mem_tty (busy_env fd) binary_client = Inr (Again t)"
    using busy_select [OF assms(1)] assms(3) by (simp add: main_iteration_def)
  ultimately show ?thesis
    using session_step [OF session_refl, of True binary_client "busy_env fd" mem_tty t] assms(2)
    by (simp add: unblocked_def busy_env_def)
qed

theorem client_reads_port_data_witness:
  "\<exists>t. session mem_tty True binary_client t \<and> concat (map port_sent (trace t)) = [65, 255] \<and>
    fst (heard Plain (fold since_accepted (trace t) [] @ net_bytes t)) = [65, 255]"
proof -
  let ?n = "min readbuf_size (unat (BufferRoomLeft (ToNetBuf binary_client)) div EscWriteChar_bytes)"
  have n: "take ?n [65, 255 :: byte] = [65, 255]"
    by (simp add: BufferRoomLeft_nat readbuf_size_def EscWriteChar_bytes_def
        binary_client_simps(7) [unfolded net_bytes_def])
  then obtain t where t: "device_in mem_tty (busy_env 7) binary_client = Inr (Next t)"
      "onward binary_client t" "trace t = [DevRead [65, 255]]"
    using device_in_fills [of binary_client ?n "busy_env 7" "[65, 255]" mem_tty]
    by (auto simp: busy_env_def)
  then have fds: "DeviceFd t = Some 7" "InSocketFd t = Some 5"
    by (simp_all add: onward_def)
  then have "handle_events mem_tty (busy_env 7) {SERCD_EV_DEVICEIN} binary_client = Inr (Next t)"
    using t(1) by (simp add: handle_events_def on_def open_port_def)
  then have "session mem_tty True binary_client t"
    using busy_session [of 7 t] fds by simp
  moreover from client_reads_port_data [OF _ _ this] obtain us ds where
    "fold since_accepted (trace t) [] @ net_bytes t = us"
    "concat (map port_sent (trace t)) = ds" "padded True ds (fst (heard Plain us))"
    by auto
  ultimately show ?thesis
    using t(3) by auto
qed

section \<open>From the client to the port\<close>

text \<open>The tokens of a client's bytes, with every byte of data, as in binary mode.\<close>

definition token_list :: "token option \<Rightarrow> token list" where
  "token_list k = (case k of None \<Rightarrow> [] | Some x \<Rightarrow> [x])"

fun tokens :: "decoder \<Rightarrow> byte list \<Rightarrow> token list \<times> decoder" where
  "tokens d [] = ([], d)"
| "tokens d (c # cs) =
     (let (k, d1) = decode True 0 c d; (ks, d2) = tokens d1 cs in (token_list k @ ks, d2))"

fun data_of :: "token list \<Rightarrow> byte list" where
  "data_of [] = []"
| "data_of (Deliver c # ks) = c # data_of ks"
| "data_of (Execute bs # ks) = data_of ks"

text \<open>The command that takes the port's direction out of binary mode.\<close>

fun ends_binary :: "token \<Rightarrow> bool" where
  "ends_binary (Deliver c) \<longleftrightarrow> False"
| "ends_binary (Execute bs) \<longleftrightarrow> bs ! 1 = TNWONT \<and> bs ! 2 = TN_TRANSMIT_BINARY"

definition receives_binary :: "'p sercd \<Rightarrow> bool" where
  "receives_binary s \<longleftrightarrow> is_do (tnstate s TN_TRANSMIT_BINARY)"

definition stays_binary :: "'p sercd \<Rightarrow> byte list \<Rightarrow> bool" where
  "stays_binary s bs \<longleftrightarrow>
     receives_binary s \<and> (\<forall>k\<in>set (fst (tokens (decoder_of s) bs)). \<not> ends_binary k)"

text \<open>The bytes \<open>bs\<close>, received in \<open>s\<close>, have given the port \<open>ds\<close> when \<open>t\<close> is reached.\<close>

definition served :: "'p sercd \<Rightarrow> byte list \<Rightarrow> byte list \<Rightarrow> 'p sercd \<Rightarrow> bool" where
  "served s bs ds t \<longleftrightarrow>
     decoder_of t = snd (tokens (decoder_of s) bs) \<and>
     padded (stays_binary s bs) ds (data_of (fst (tokens (decoder_of s) bs))) \<and>
     (stays_binary s bs \<longrightarrow> receives_binary t)"

lemma tokens_append:
  "tokens d (xs @ ys) = (fst (tokens d xs) @ fst (tokens (snd (tokens d xs)) ys),
    snd (tokens (snd (tokens d xs)) ys))"
  by (induction xs arbitrary: d) (simp_all add: case_prod_beta Let_def)

lemma data_of_append [simp]: "data_of (xs @ ys) = data_of xs @ data_of ys"
  by (induction xs rule: data_of.induct) simp_all

lemma served_Nil: "decoder_of t = decoder_of s \<Longrightarrow> tnstate t = tnstate s \<Longrightarrow> served s [] [] t"
  by (simp add: served_def stays_binary_def receives_binary_def padded_Nil)

lemma served_append:
  assumes "served s xs as t" and "served t ys bs u"
  shows "served s (xs @ ys) (as @ bs) u"
proof -
  have stays: "stays_binary s xs \<and> stays_binary t ys" if "stays_binary s (xs @ ys)"
    using that assms(1) by (auto simp: served_def stays_binary_def tokens_append)
  have "padded (stays_binary s (xs @ ys)) as (data_of (fst (tokens (decoder_of s) xs)))"
    "padded (stays_binary s (xs @ ys)) bs (data_of (fst (tokens (decoder_of t) ys)))"
    using assms stays unfolding served_def by (blast intro: padded_weaken)+
  then show ?thesis
    using assms stays padded_append by (auto simp: served_def tokens_append)
qed

text \<open>Outside binary mode the decoder leaves out some NULs; otherwise the mode makes no difference.\<close>

lemma decode_mode:
  "decode b l c d = decode True 0 c d \<or>
   \<not> b \<and> fst (decode b l c d) = None \<and> decode True 0 c d = (Some (Deliver 0), snd (decode b l c d))"
  by (cases d) simp_all

lemma command_mode:
  assumes "HandleIACCommand T C n s = Inr t" and "\<not> (C 1 = TNWONT \<and> C 2 = TN_TRANSMIT_BINARY)"
    and "receives_binary s"
  shows "receives_binary t"
proof -
  consider "tnstate t = tnstate s" | "HandleWill (C 2) s = Inr t" | "HandleDo (C 2) s = Inr t"
    | "HandleDont (C 2) s = Inr t" | "HandleWont (C 2) s = Inr t" "C 1 = TNWONT"
    using assms(1) options.keeps_CPC [of s T C n]
    by (auto simp: HandleIACCommand_def keeps_def split: if_splits)
  then show ?thesis
    by cases (use assms(2,3) in \<open>auto simp: negotiation_options receives_binary_def will_state_def
      do_state_def supported_options_def\<close>)
qed

lemma perform_data:
  assumes "perform T k s = Inr t" and "dev_ok s"
  shows "dev_bytes t = dev_bytes s @ data_of (token_list k)"
    and "receives_binary s \<Longrightarrow> \<forall>x\<in>set (token_list k). \<not> ends_binary x \<Longrightarrow>
      2 < length (case k of Some (Execute bs) \<Rightarrow> bs | _ \<Rightarrow> [0, 0, 0]) \<Longrightarrow> receives_binary t"
proof -
  consider "k = None" | c where "k = Some (Deliver c)" | bs where "k = Some (Execute bs)"
    by (metis option.exhaust token.exhaust)
  then have "dev_bytes t = dev_bytes s @ data_of (token_list k) \<and>
    (receives_binary s \<longrightarrow> (\<forall>x\<in>set (token_list k). \<not> ends_binary x) \<longrightarrow>
      2 < length (case k of Some (Execute bs) \<Rightarrow> bs | _ \<Rightarrow> [0, 0, 0]) \<longrightarrow> receives_binary t)"
  proof cases
    case 1
    then show ?thesis
      using assms(1) by (simp add: perform_def token_list_def)
  next
    case (2 c)
    then have "t = dev_put [c] s" "length (dev_bytes s) + 1 \<le> 2047"
      using assms by (auto simp: perform_def AddToDev_eq split: if_splits)
    then show ?thesis
      using 2 dev_bytes_put [OF assms(2), of "[c]"]
      by (simp add: token_list_def receives_binary_def dev_put_def)
  next
    case (3 bs)
    then have run: "HandleIACCommand T (command_of bs) (length bs) s = Inr t"
      using assms(1) by (simp add: perform_def)
    then have "ToDevBuf t = ToDevBuf s"
      using device_buffer.keeps_IAC [of s T "command_of bs" "length bs"] by (simp add: keeps_def)
    then show ?thesis
      using 3 command_mode [OF run] by (simp add: token_list_def dev_bytes_def command_of_def)
  qed
  then show "dev_bytes t = dev_bytes s @ data_of (token_list k)"
    "receives_binary s \<Longrightarrow> \<forall>x\<in>set (token_list k). \<not> ends_binary x \<Longrightarrow>
      2 < length (case k of Some (Execute bs) \<Rightarrow> bs | _ \<Rightarrow> [0, 0, 0]) \<Longrightarrow> receives_binary t"
    by blast+
qed

lemma executed_length:
  assumes "rx_inv s" and "decode b l c (decoder_of s) = (Some (Execute bs), d)"
  shows "2 < length bs"
proof -
  have "2 \<le> IACPos s" if "IACEscape s = IACComReceiving"
    using that assms(1) by (simp add: rx_inv_def)
  then show ?thesis
    using assms(2) by (auto simp: decoder_of_def split: IACState.splits if_splits)
qed

lemma char_served:
  assumes "rx_inv s" and "dev_ok s" and "EscRedirectChar T c s = Inr t"
  shows "\<exists>ds. dev_bytes t = dev_bytes s @ ds \<and> served s [c] ds t"
proof -
  obtain k d where kd: "decode (receives_binary s) (EscRedirectLast s) c (decoder_of s) = (k, d)"
    by fastforce
  have "spec_char T c (spec_state s) = Inr (spec_state t)"
    using receiver.step [OF assms(1), where x = c and T = T] assms(3) by simp
  then obtain u where u: "perform T k (behind s) = Inr u" "decoder_of t = d"
      "behind t = u\<lparr>EscRedirectLast := c\<rparr>"
    using kd by (auto simp: spec_char_def spec_state_def receives_binary_def bind_r_eq_Inr)
  have "dev_bytes t = dev_bytes (behind t)" "tnstate t = tnstate (behind t)"
      "dev_bytes s = dev_bytes (behind s)" "dev_ok (behind s)"
      "receives_binary (behind s) = receives_binary s"
    using assms(2) by (simp_all add: dev_bytes_def dev_ok_def receives_binary_def)
  then have t: "dev_bytes t = dev_bytes u" "receives_binary t = receives_binary u"
      "dev_bytes s = dev_bytes (behind s)" "dev_ok (behind s)"
      "receives_binary (behind s) = receives_binary s"
    unfolding u(3) by (simp_all add: dev_bytes_def receives_binary_def)
  note performed = perform_data [OF u(1) t(4)]
  have len: "2 < length (case k of Some (Execute bs) \<Rightarrow> bs | _ \<Rightarrow> [0, 0, 0])"
    using executed_length [OF assms(1)] kd by (auto split: option.split token.split)
  from decode_mode [of "receives_binary s" "EscRedirectLast s" c "decoder_of s"]
  have "served s [c] (data_of (token_list k)) t"
  proof
    assume "decode (receives_binary s) (EscRedirectLast s) c (decoder_of s) =
      decode True 0 c (decoder_of s)"
    then have "decode True 0 c (decoder_of s) = (k, d)"
      using kd by simp
    then have "tokens (decoder_of s) [c] = (token_list k, d)"
      by simp
    then show ?thesis
      using u(2) performed(2) len t by (auto simp: served_def stays_binary_def)
  next
    assume nul: "\<not> receives_binary s \<and>
      fst (decode (receives_binary s) (EscRedirectLast s) c (decoder_of s)) = None \<and>
      decode True 0 c (decoder_of s) = (Some (Deliver 0),
        snd (decode (receives_binary s) (EscRedirectLast s) c (decoder_of s)))"
    then have "tokens (decoder_of s) [c] = ([Deliver 0], d)" "k = None"
      using kd by (simp_all add: token_list_def)
    moreover have "padded False [] [0]"
      by (intro padded_nul padded_Nil) simp
    ultimately show ?thesis
      using u(2) nul by (simp add: served_def stays_binary_def token_list_def)
  qed
  then show ?thesis
    using performed(1) t by auto
qed

text \<open>What the port gets grows by what the client's bytes decode to.\<close>

definition delivered :: "bool \<Rightarrow> 'p sercd \<Rightarrow> 'p sercd \<Rightarrow> bool" where
  "delivered b s t \<longleftrightarrow>
     (\<exists>bs ds. from_client t = from_client s @ bs \<and> dev_stream t = dev_stream s @ ds \<and>
        served s bs ds t)"

lemma delivered_same:
  "from_client t = from_client s \<Longrightarrow> dev_stream t = dev_stream s \<Longrightarrow> decoder_of t = decoder_of s \<Longrightarrow>
    tnstate t = tnstate s \<Longrightarrow> delivered b s t"
  unfolding delivered_def by (intro exI [of _ "[]"]) (simp add: served_Nil)

lemma delivered_trans: "delivered b s t \<Longrightarrow> delivered b t u \<Longrightarrow> delivered b s u"
  unfolding delivered_def using served_append by (metis append_assoc)

lemma delivered_sent:
  assumes "t = s\<lparr>ToNetBuf := B, EscWriteLast := l\<rparr>"
  shows "delivered b s t"
  unfolding assms
  by (rule delivered_same)
    (simp_all add: from_client_def dev_stream_def dev_bytes_def)

lemma socket_in_delivered:
  assumes "loop_inv s" and "DeviceFd s \<noteq> None" and "socket_in T E s = Inr (Next t)"
  shows "delivered b s t"
proof -
  let ?n = "min (min readbuf_size
      (unat (BufferRoomLeft (ToNetBuf s)) div EscRedirectChar_bytes_SockB (sizeof_long s)))
      (unat (BufferRoomLeft (ToDevBuf s)) div EscRedirectChar_bytes_DevB)"
  define bs where "bs = read_bytes (net_read E) ?n"
  define s1 where "s1 = emit (NetRead bs) (s\<lparr>readbuf := overlay bs (readbuf s)\<rparr>)"
  define P where "P i u \<longleftrightarrow> receiving s1 (length bs) i u \<and>
    (\<exists>ds. dev_bytes u = dev_bytes s1 @ ds \<and> served s1 (take i bs) ds u)" for i and u :: "'a sercd"
  note ok = inv_open [OF assms(1,2)]
  have go: "\<not> IOResultError (read_result (net_read E) ?n) (read_would_block (net_read E))"
    using assms(3) ok(4) by (auto simp: socket_in_def Let_def deref_def)
  have nb: "\<not> blocked (sizeof_long s) (net_read E)"
    using assms(3) socket_in_blocked [OF _ ok(4), of E T] by fastforce
  have loop: "length bs \<le> ?n" "length bs \<le> readbuf_size" "socket_in T E s =
      next_r (each_below (from_readbuf (redirect T)) 0 (length bs) s1)"
    using socket_in_loop [OF ok(4) go refl nb refl, of T] by (simp_all add: bs_def s1_def)
  have s1: "DeviceFd s1 \<noteq> None" "readbuf s1 = overlay bs (readbuf s)"
      "decoder_of s1 = decoder_of s" "tnstate s1 = tnstate s"
    using assms(2) by (simp_all add: s1_def)
  have start: "P 0 s1"
    using receiving_start [OF _ ok(3) refl loop(1) s1_def] ok by (simp add: P_def bufs_ok_def served_Nil)
  have step: "case from_readbuf (redirect T) i u of Inl e \<Rightarrow> True | Inr v \<Rightarrow> P (i + 1) v"
    if i: "i < length bs" and P: "P i u" for i u
  proof (cases "from_readbuf (redirect T) i u")
    case (Inr v)
    have rcv: "receiving s1 (length bs) i u"
      using P by (simp add: P_def)
    then have "readbuf u = readbuf s1" "DeviceFd u = DeviceFd s1" "rx_inv u" "dev_ok u"
      by (simp_all add: receiving_def base_kept_def bufs_ok_def)
    then have v: "EscRedirectChar T (bs ! i) u = Inr v"
      using Inr i loop(2) s1(1,2) by (auto simp: from_readbuf_def redirect_def deref_def)
    obtain ds where ds: "dev_bytes u = dev_bytes s1 @ ds" "served s1 (take i bs) ds u"
      using P by (auto simp: P_def)
    obtain es where "dev_bytes v = dev_bytes u @ es" "served u [bs ! i] es v"
      using char_served [OF \<open>rx_inv u\<close> \<open>dev_ok u\<close> v] by blast
    then have "dev_bytes v = dev_bytes s1 @ ds @ es" "served s1 (take (i + 1) bs) (ds @ es) v"
      using served_append [OF ds(2)] ds(1) i by (simp_all add: take_Suc_conv_app_nth)
    moreover have "receiving s1 (length bs) (i + 1) v"
      using receiving_step [OF s1(1) loop(2) i rcv, of T] Inr by simp
    ultimately show ?thesis
      using Inr by (auto simp: P_def)
  qed simp
  have "each_below (from_readbuf (redirect T)) 0 (length bs) s1 = Inr t"
    using assms(3) loop(3) by (auto simp: next_r_def bind_r_eq_Inr)
  then have "P (length bs) t"
    using each_below_inv [of "length bs" P "\<lambda>e. True" "from_readbuf (redirect T)" 0 s1] start step
    by simp
  then obtain ds where ds: "dev_bytes t = dev_bytes s1 @ ds" "served s1 bs ds t" "trace t = trace s1"
    by (auto simp: P_def receiving_def base_kept_def)
  have "served s bs ds t"
    using ds(2) s1 by (simp add: served_def stays_binary_def receives_binary_def)
  moreover have "from_client t = from_client s @ bs" "dev_stream t = dev_stream s @ ds"
    using ds by (simp_all add: from_client_def dev_stream_def s1_def)
  ultimately show ?thesis
    unfolding delivered_def by blast
qed

lemma device_in_delivered:
  assumes "loop_inv s" and "DeviceFd s \<noteq> None" and "device_in T E s = Inr (Next t)"
  shows "delivered b s t"
proof -
  obtain bs us l where "t = (net_put us (emit (DevRead bs) (s\<lparr>readbuf := overlay bs (readbuf s)\<rparr>)))\<lparr>
      EscWriteLast := l\<rparr>"
    using device_in_run [OF assms] unfolding escaped_def by blast
  then show ?thesis
    by (intro delivered_same)
      (simp_all add: from_client_def dev_stream_def dev_bytes_def net_put_def)
qed

lemma device_out_delivered:
  assumes "loop_inv s" and "DeviceFd s \<noteq> None" and "unblocked (dev_write E)"
    and "device_out T E s = Inr (Next t)"
  shows "delivered b s t"
proof -
  have "buf_ok (ToDevBuf s)"
    using inv_open(2) [OF assms(1,2)] by (simp add: dev_ok_def)
  from popped [OF this assms(3)] show ?thesis
    using assms(4)
    by (intro delivered_same)
      (auto simp: device_out_def Let_def bind_r_eq_Inr from_client_def dev_stream_def
        dev_bytes_def split: if_splits)
qed

lemma socket_out_delivered: "socket_out T E s = Inr (Next t) \<Longrightarrow> delivered b s t"
  by (rule delivered_same)
    (auto simp: socket_out_def Let_def bind_r_eq_Inr from_client_def dev_stream_def dev_bytes_def
      split: if_splits)

lemma modem_state_delivered:
  assumes "modem_state T s = Inr (Next t)"
  shows "delivered b s t"
proof -
  have "delivered b s (s\<lparr>ModemState := m\<rparr>)" for m
    by (rule delivered_same) (simp_all add: from_client_def dev_stream_def dev_bytes_def)
  moreover have "delivered b u t" if "SendCPCByteCommand c v u = Inr t" for u c v
    using delivered_sent [OF cpc_sender.send_only_net [OF that]] .
  moreover have "delivered b s s"
    by (rule delivered_same) simp_all
  ultimately show ?thesis
    using assms delivered_trans
    by (fastforce simp: modem_state_def Let_def bind_r_eq_Inr next_r_def split: if_splits)
qed

interpretation inward: session_relation T delivered for T
proof
  show "delivered c s t" if "delivered b s t" "c \<longrightarrow> b" for b c and s t :: "'a sercd"
    using that unfolding delivered_def by blast
qed (auto simp: alike_def intro: delivered_same delivered_trans device_in_delivered
    device_out_delivered socket_out_delivered socket_in_delivered modem_state_delivered)

text \<open>
  C2. As long as a client stays connected, whatever it sends in chunks of any size, and whatever the
  system answers without blocking a write: what has been written to the port, with what waits to be,
  grows by the data that the client's bytes decode to, in order, commands taken out; some NULs may be
  left out, but none if the port's direction is in binary mode and the client does not end that.
\<close>

theorem port_gets_client_data:
  assumes "loop_inv s" and "DeviceFd s \<noteq> None" and "session T binary s t"
  shows "\<exists>bs ds. concat (map client_sent (trace t)) = concat (map client_sent (trace s)) @ bs \<and>
    written_dev (trace t) @ dev_bytes t = (written_dev (trace s) @ dev_bytes s) @ ds \<and>
    padded (stays_binary s bs) ds (data_of (fst (tokens (decoder_of s) bs))) \<and>
    decoder_of t = snd (tokens (decoder_of s) bs)"
  using inward.session_rel [OF assms(3,1,2)]
  unfolding delivered_def served_def from_client_def dev_stream_def by blast

theorem port_gets_client_data_witness:
  "\<exists>t. session mem_tty True binary_client t \<and>
    concat (map client_sent (trace t)) = [255, 255] \<and>
    written_dev (trace t) @ dev_bytes t = [255]"
proof -
  let ?n = "min (min readbuf_size (unat (BufferRoomLeft (ToNetBuf binary_client)) div
      EscRedirectChar_bytes_SockB (sizeof_long binary_client)))
      (unat (BufferRoomLeft (ToDevBuf binary_client)) div EscRedirectChar_bytes_DevB)"
  have n: "?n = 3"
    by (simp add: BufferRoomLeft_nat readbuf_size_def EscRedirectChar_bytes_DevB_def
        EscRedirectChar_bytes_SockB_def binary_client_simps(7) [unfolded net_bytes_def] binary_client_simps(8) [unfolded dev_bytes_def])
  have "\<exists>t. socket_in mem_tty (busy_env 5) binary_client = Inr (Next t) \<and>
      onward binary_client t \<and> trace t = [NetRead [255, 255]]"
  proof -
    define s1 where "s1 = emit (NetRead [255, 255])
      (binary_client\<lparr>readbuf := overlay [255, 255] (readbuf binary_client)\<rparr>)"
    have E: "net_read (busy_env 5) = ReadData [255, 255]"
      by (simp add: busy_env_def)
    then have bs: "read_bytes (net_read (busy_env 5)) ?n = [255, 255]"
      unfolding n by (simp add: read_bytes_def)
    have go: "\<not> IOResultError (read_result (net_read (busy_env 5)) ?n)
        (read_would_block (net_read (busy_env 5)))" "\<not> blocked (sizeof_long binary_client)
        (net_read (busy_env 5))"
      unfolding n by (simp_all add: E read_result_def IOResultError_def blocked_def)
    have s1: "dev_ok s1" "dev_bytes s1 = []" "IACEscape s1 = IACNormal" "DeviceFd s1 = Some 7"
        "readbuf s1 0 = 255" "readbuf s1 1 = 255" "is_do (tnstate s1 i)" for i
      by (simp_all add: s1_def) (simp_all add: emit_def overlay_def)
    have "\<exists>t. each_below (from_readbuf (redirect mem_tty)) 0 (Suc (Suc 0)) s1 = Inr t"
      using s1 AddToDev_eq [of "s1\<lparr>IACEscape := IACReceived, EscRedirectLast := 255\<rparr>" 255]
      by (simp add: each_below_step from_readbuf_def readbuf_size_def redirect_def deref_def
          EscRedirectChar_def receive_normal_def receive_iac_def dev_ok_def dev_bytes_def)
    then obtain t where t: "socket_in mem_tty (busy_env 5) binary_client = Inr (Next t)"
      using socket_in_loop [OF _ go(1) refl go(2) refl, of mem_tty]
      unfolding bs s1_def [symmetric] by (auto simp: next_r_def)
    then have "receiving s1 (Suc (Suc 0)) (Suc (Suc 0)) t"
      using socket_in_data [OF _ _ _ _ go(1) refl go(2) refl, of mem_tty]
      unfolding bs s1_def [symmetric] by (simp add: bufs_ok_def)
    then have "onward binary_client t" "trace t = trace s1"
      using receiving_inv [OF _ binary_client_simps(1) s1_def]
      by (auto simp: receiving_def base_kept_def)
    then show ?thesis
      using t by (simp add: s1_def)
  qed
  then obtain t where t: "socket_in mem_tty (busy_env 5) binary_client = Inr (Next t)"
      "onward binary_client t" "trace t = [NetRead [255, 255]]"
    by blast
  then have fds: "DeviceFd t = Some 7" "InSocketFd t = Some 5"
    by (simp_all add: onward_def)
  then have "handle_events mem_tty (busy_env 5) {SERCD_EV_SOCKETIN} binary_client = Inr (Next t)"
    using t(1) by (simp add: handle_events_def on_def open_port_def)
  then have run: "session mem_tty True binary_client t"
    using busy_session [of 5 t] fds by simp
  have "decoder_of binary_client = Text"
    by (simp add: decoder_of_def)
  moreover from this have "stays_binary binary_client [255, 255]"
    by (simp add: stays_binary_def receives_binary_def token_list_def)
  ultimately show ?thesis
    using port_gets_client_data [OF _ _ run] run t(3) by (auto simp: token_list_def)
qed

end
