(* ===== verification/Proxy_Notify.thy ===== *)
theory Proxy_Notify
  imports Telnet_Stream
begin

text \<open>
  What the Java service is told of a connection: the automaton of the three states the program
  notifies, which every run of the main loop follows, and the notification itself (\<open>android.c\<close>), with
  the Java virtual machine as a parameter.
\<close>

section \<open>The life of a connection\<close>

text \<open>The state a service should know of.\<close>

definition connection :: "'p sercd \<Rightarrow> ProxyState" where
  "connection s =
     (if DeviceFd s \<noteq> None then STATE_PORT_OPENED
      else if InSocketFd s \<noteq> None then STATE_CONNECTED
      else STATE_READY)"

inductive move :: "ProxyState \<Rightarrow> ProxyState \<Rightarrow> bool" where
  client_accepted: "move STATE_READY STATE_CONNECTED"
| port_opened: "move STATE_CONNECTED STATE_PORT_OPENED"
| open_failed: "move STATE_CONNECTED STATE_READY"
| client_dropped: "move STATE_PORT_OPENED STATE_READY"

inductive_simps move_simps [simp]: "move STATE_READY p" "move STATE_CONNECTED p"
  "move STATE_PORT_OPENED p" "move STATE_STOPPED p" "move STATE_CRASHED p"

fun lawful :: "ProxyState list \<Rightarrow> bool" where
  "lawful [] \<longleftrightarrow> False"
| "lawful [p] \<longleftrightarrow> p = STATE_READY"
| "lawful (p # q # ps) \<longleftrightarrow> move q p \<and> lawful (q # ps)"

text \<open>What the service has been told, the latest state first.\<close>

fun told :: "event list \<Rightarrow> ProxyState list" where
  "told [] = []"
| "told (ChangeState p # es) = told es @ [p]"
| "told (e # es) = told es"

lemma told_append [simp]: "told (xs @ ys) = told ys @ told xs"
  by (induction xs rule: told.induct) simp_all

definition on_record :: "'p sercd \<Rightarrow> bool" where
  "on_record s \<longleftrightarrow> lawful (told (trace s)) \<and> hd (told (trace s)) = connection s"

lemma on_record_same:
  "told (trace t) = told (trace s) \<Longrightarrow> connection t = connection s \<Longrightarrow> on_record t = on_record s"
  by (simp add: on_record_def)

lemma on_record_move:
  assumes "on_record s" and "told (trace t) = p # told (trace s)" and "move (connection s) p"
    and "connection t = p"
  shows "on_record t"
  using assms by (cases "told (trace s)") (simp_all add: on_record_def)

section \<open>The stages\<close>

lemma dropped_on_record:
  assumes "on_record s" and "InSocketFd s \<noteq> None" and "trace u = trace s"
  shows "on_record (drop_client T u)"
proof (rule on_record_move [OF assms(1)])
  show "told (trace (drop_client T u)) = STATE_READY # told (trace s)"
    using assms(3)
    by (auto simp: drop_client_def DropConnection_def ClosePort_def close_fd_def set_port_def
        split: option.split)
  show "move (connection s) STATE_READY"
    using assms(2) by (simp add: connection_def)
qed (simp add: drop_client_def connection_def)

lemma onward_connection:
  assumes "loop_inv s" and "DeviceFd s \<noteq> None" and "onward s t"
  shows "connection t = connection s"
  using assms by (auto simp: connection_def onward_def)

text \<open>A stage of an open connection that goes on and tells nothing, or drops the client.\<close>

lemma quiet_stage:
  assumes "loop_inv s" and "DeviceFd s \<noteq> None" and "stage_ok Q s r"
    and "\<And>t. r = Inr (Next t) \<Longrightarrow> told (trace t) = told (trace s)"
    and "\<And>t. r = Inr (Continue t) \<Longrightarrow> \<exists>u. t = drop_client T u \<and> trace u = trace s"
  shows "preserves on_record s r"
proof -
  have "on_record t" if "r = Inr (Next t)" "on_record s" for t
  proof -
    have "onward s t"
      using assms(3) that(1) by (simp add: stage_ok_def)
    then have "connection t = connection s"
      by (rule onward_connection [OF assms(1,2)])
    then show ?thesis
      using on_record_same [OF assms(4) [OF that(1)]] that(2) by blast
  qed
  moreover have "on_record t" if "r = Inr (Continue t)" "on_record s" for t
    using assms(5) [OF that(1)] dropped_on_record [OF that(2) inv_open(4) [OF assms(1,2)]] by blast
  ultimately show ?thesis
    by (auto simp: preserves_def split: sum.split stage.split)
qed

lemma device_stages:
  assumes "loop_inv s" and "DeviceFd s \<noteq> None"
  shows "preserves on_record s (device_in T E s)" and "preserves on_record s (device_out T E s)"
    and "preserves on_record s (modem_state T s)"
proof -
  obtain fd where fd: "DeviceFd s = Some fd"
    using assms(2) by blast
  show "preserves on_record s (device_in T E s)"
  proof (rule quiet_stage [OF assms device_in_ok [OF assms]])
    show "told (trace t) = told (trace s)" if "device_in T E s = Inr (Next t)" for t
      using device_in_run [OF assms that] by (auto simp: escaped_def net_put_def)
    show "\<exists>u. t = drop_client T u \<and> trace u = trace s" if "device_in T E s = Inr (Continue t)" for t
      using that fd by (auto simp: device_in_def Let_def deref_def next_r_def bind_r_eq_Inr
          split: if_splits)
  qed
  show "preserves on_record s (device_out T E s)"
  proof (rule quiet_stage [OF assms device_out_ok [OF assms]])
    show "told (trace t) = told (trace s)" if "device_out T E s = Inr (Next t)" for t
      using that by (auto simp: device_out_def Let_def bind_r_eq_Inr split: if_splits)
    show "\<exists>u. t = drop_client T u \<and> trace u = trace s" if "device_out T E s = Inr (Continue t)" for t
      using that by (auto simp: device_out_def Let_def bind_r_eq_Inr split: if_splits)
  qed
  show "preserves on_record s (modem_state T s)"
  proof (rule quiet_stage [OF assms modem_state_ok [OF assms], where T = T])
    have "trace t = trace s" if "SendCPCByteCommand c v (s\<lparr>ModemState := m\<rparr>) = Inr t" for c v m t
      using arg_cong [OF cpc_sender.send_only_net [OF that], of trace] by simp
    then show "told (trace t) = told (trace s)" if "modem_state T s = Inr (Next t)" for t
      using that by (auto simp: modem_state_def Let_def bind_r_eq_Inr next_r_def split: if_splits)
  qed (auto simp: modem_state_def Let_def bind_r_eq_Inr next_r_def split: if_splits)
qed

lemma socket_in_on_record:
  assumes "loop_inv s" and "DeviceFd s \<noteq> None"
  shows "preserves on_record s (socket_in T E s)"
proof (rule quiet_stage [OF assms socket_in_ok [OF assms]])
  let ?n = "min (min readbuf_size
      (unat (BufferRoomLeft (ToNetBuf s)) div EscRedirectChar_bytes_SockB (sizeof_long s)))
      (unat (BufferRoomLeft (ToDevBuf s)) div EscRedirectChar_bytes_DevB)"
  note ok = inv_open [OF assms]
  show "told (trace t) = told (trace s)" if run: "socket_in T E s = Inr (Next t)" for t
  proof -
    have go: "\<not> IOResultError (read_result (net_read E) ?n) (read_would_block (net_read E))"
      using run ok(4) by (auto simp: socket_in_def Let_def deref_def)
    have nb: "\<not> blocked (sizeof_long s) (net_read E)"
      using run socket_in_blocked [OF _ ok(4), of E T] by fastforce
    have "bufs_ok s"
      using ok by (simp add: bufs_ok_def)
    then show ?thesis
      using socket_in_data [OF ok(4) assms(2) _ ok(3) go refl nb refl, of T] run
      by (auto simp: receiving_def base_kept_def)
  qed
  show "\<exists>u. t = drop_client T u \<and> trace u = trace s" if "socket_in T E s = Inr (Continue t)" for t
    using that ok(4) by (auto simp: socket_in_def Let_def deref_def next_r_def bind_r_eq_Inr
        split: if_splits)
qed

lemma socket_out_on_record:
  assumes "loop_inv s" and "OutSocketFd s \<noteq> None"
  shows "preserves on_record s (socket_out T E s)"
proof -
  have "InSocketFd s \<noteq> None"
    using assms coherent [OF assms(1)] by simp
  then have "preserves on_record s (Inr (Continue (drop_client T s)))"
    using dropped_on_record [of s s T] by (auto simp: preserves_def)
  moreover have "preserves on_record s (Inr (Next (emit (NetWritten bs) (s\<lparr>ToNetBuf := B\<rparr>))))" for bs B
    by (simp add: preserves_def on_record_def connection_def)
  ultimately show ?thesis
    unfolding socket_out_def Let_def by (intro preserves_bind preserves_if)
qed

lemma socket_connect_on_record:
  assumes "loop_inv s" and "LSocketFd s \<noteq> None"
  shows "preserves on_record s (socket_connect E s)"
proof (cases "accepted E < 0 \<or> InSocketFd s \<noteq> None")
  case True
  then show ?thesis
    using assms(2) coherent [OF assms(1)]
    by (auto simp: socket_connect_def deref_def Let_def preserves_def on_record_def connection_def)
next
  case False
  let ?s1 = "SetSocketOptions (accepted E) (accepted E) (emit (Accepted (accepted E))
    ((emit (ChangeState STATE_CONNECTED) s)\<lparr>
      InSocketFd := Some (accepted E), OutSocketFd := Some (accepted E)\<rparr>))"
  let ?s3 = "InitTelnetStateMachine (?s1\<lparr>ToNetBuf := InitBuffer (ToNetBuf ?s1)\<rparr>)"
  have none: "InSocketFd s = None" "DeviceFd s = None"
    using False assms(1) by (auto simp: loop_inv_def)
  have s3: "net_ok ?s3" "net_bytes ?s3 = []" "DeviceFd ?s3 = None" "InSocketFd ?s3 \<noteq> None"
      "told (trace ?s3) = STATE_CONNECTED # told (trace s)"
    using none by (simp_all add: SetSocketOptions_def InitTelnetStateMachine_def net_ok_def
        net_bytes_def emit_def)
  obtain t where t: "SendTelnetInitialOptions ?s3 = Inr t" "kept ?s3 t"
    using initial_kept [OF s3(1)] s3(2) by auto
  then have "told (trace t) = STATE_CONNECTED # told (trace s)" "connection t = STATE_CONNECTED"
    using s3(3-5) by (simp_all add: kept_def connection_def)
  then have "on_record s \<Longrightarrow> on_record t"
    using none on_record_move [of s t STATE_CONNECTED] by (simp add: connection_def)
  moreover have "socket_connect E s = Inr (Next t)"
    using False none t(1) assms(2) by (auto simp: socket_connect_def deref_def Let_def next_r_def)
  ultimately show ?thesis
    by (simp add: preserves_def)
qed

lemma open_port_on_record: "preserves on_record s (open_port T E s)"
proof (cases "InSocketFd s \<noteq> None \<and> OutSocketFd s \<noteq> None \<and> DeviceFd s = None")
  case False
  then have "open_port T E s = Inr (Next s)"
    unfolding open_port_def by (rule if_not_P)
  then show ?thesis
    by simp
next
  case True
  then have "connection s = STATE_CONNECTED"
    by (simp add: connection_def)
  then have closed: "on_record s \<Longrightarrow> told (trace t) = STATE_READY # told (trace s) \<Longrightarrow>
      InSocketFd t = None \<Longrightarrow> DeviceFd t = None \<Longrightarrow> on_record t"
    and opened: "on_record s \<Longrightarrow> told (trace t) = STATE_PORT_OPENED # told (trace s) \<Longrightarrow>
      DeviceFd t \<noteq> None \<Longrightarrow> on_record t" for t
    using on_record_move [of s t] by (simp_all add: connection_def [of t])
  note defs = open_port_def OpenPort_def Let_def preserves_def DropConnection_def close_fd_def
    set_port_def
  show ?thesis
  proof (cases "opened E = -1")
    case True
    then show ?thesis
      using \<open>InSocketFd s \<noteq> None \<and> OutSocketFd s \<noteq> None \<and> DeviceFd s = None\<close>
      by (auto simp: defs intro!: closed split: option.split)
  next
    case False
    then show ?thesis
      using \<open>InSocketFd s \<noteq> None \<and> OutSocketFd s \<noteq> None \<and> DeviceFd s = None\<close>
      by (auto simp: defs intro!: opened)
  qed
qed

interpretation proxy: stage_invariant T on_record "\<lambda>E. True" for T
  by unfold_locales
    (simp_all add: device_stages socket_in_on_record socket_out_on_record socket_connect_on_record
      open_port_on_record, simp add: on_record_def connection_def)

lemma on_record_set_port [simp]: "on_record (set_port f s) = on_record s"
  by (simp add: on_record_def connection_def set_port_def)

lemma runs_on_record: "runs T s t \<Longrightarrow> loop_inv s \<Longrightarrow> on_record s \<Longrightarrow> on_record t"
proof (induction rule: runs.induct)
  case (runs_step s s1 E s2)
  then have "loop_inv (set_port (line_change E) s1)"
    using runs_inv [OF runs_step.hyps(1)] by simp
  then show ?case
    using proxy.iteration_keeps [where s = "set_port (line_change E) s1" and E = E and T = T]
      runs_step
    by (simp add: iteration_state_def)
qed

lemma start_on_record:
  assumes "SercdService_main name F l b r (sercd_globals a devb netb rb p) = Again s0"
    and "runs T s0 s"
  shows "on_record s"
proof -
  have "loop_inv s0" "on_record s0"
    using assms(1)
    by (auto simp: SercdService_main_def Let_def sercd_globals_def loop_inv_def emit_def rx_inv_def
        on_record_def connection_def split: if_splits)
  then show ?thesis
    using runs_on_record [OF assms(2)] by blast
qed

lemma lawful_states: "lawful ps \<Longrightarrow> set ps \<subseteq> {STATE_READY, STATE_CONNECTED, STATE_PORT_OPENED}"
  by (induction ps rule: lawful.induct) (auto elim: move.cases)


text \<open>A first client, with a port that can be opened.\<close>

lemma first_session:
  "\<exists>s0 s. SercdService_main [] some_frame 3 0 0 (sercd_globals LP64 fresh_buffer fresh_buffer (\<lambda>i. 0)
      sample_port) = Again s0 \<and> runs mem_tty s0 s \<and> InSocketFd s = Some 5 \<and> DeviceFd s = Some 7"
proof -
  let ?E = "quiet_env\<lparr>ready_fds := Some ({3}, {})\<rparr> :: mem_port env"
  obtain s0 where main: "SercdService_main [] some_frame 3 0 0
      (sercd_globals LP64 fresh_buffer fresh_buffer (\<lambda>i. 0) sample_port) = Again s0"
      "LSocketFd s0 = Some 3" "InSocketFd s0 = None" "DeviceFd s0 = None" "OutSocketFd s0 = None"
      "rx_inv s0"
    by (simp add: SercdService_main_def Let_def sercd_globals_def emit_def some_frame_def rx_inv_def)
  have set: "set_port (line_change ?E) s0 = s0"
    by (simp add: set_port_def quiet_env_def)
  have "loop_inv s0"
    using main by (simp add: loop_inv_def)
  then obtain s where "main_iteration mem_tty ?E s0 = Inr (Again s)" "InSocketFd s = Some 5"
      "DeviceFd s = Some 7"
    using first_client [of s0 3 ?E mem_tty] main(2,3) by (auto simp: quiet_env_def)
  then show ?thesis
    using main(1) runs_step [OF runs_refl, of mem_tty ?E s0 s] set by auto
qed


section \<open>The notification\<close>

text \<open>
  The functions of the Java virtual machine that \<open>android.c\<close> calls; a lookup that fails gives null,
  and a null class, field or method that is used is a fault.
\<close>

record ('c, 'o, 'f, 'm) jni =
  FindClass :: "string \<Rightarrow> 'c option"
  GetStaticFieldID :: "'c \<Rightarrow> string \<Rightarrow> string \<Rightarrow> 'f option"
  GetStaticObjectField :: "'c \<Rightarrow> 'f \<Rightarrow> 'o"
  GetObjectClass :: "'o \<Rightarrow> 'c"
  GetMethodID :: "'c \<Rightarrow> string \<Rightarrow> string \<Rightarrow> 'm option"

definition ConvertToJava :: "('c, 'o, 'f, 'm) jni \<Rightarrow> ProxyState \<Rightarrow> fault + 'o" where
  "ConvertToJava env newstate =
     bind_r (deref (FindClass env ''android/serial/port/api/ProxyState'')) (\<lambda>cl.
       let name = (case newstate of
           STATE_READY \<Rightarrow> ''STATE_READY''
         | STATE_CONNECTED \<Rightarrow> ''STATE_CONNECTED''
         | STATE_PORT_OPENED \<Rightarrow> ''STATE_PORT_OPENED''
         | STATE_STOPPED \<Rightarrow> ''STATE_STOPPED''
         | STATE_CRASHED \<Rightarrow> ''STATE_CRASHED'')
       in bind_r (deref (GetStaticFieldID env cl name ''Landroid/serial/port/api/ProxyState;''))
            (\<lambda>fieldid. Inr (GetStaticObjectField env cl fieldid)))"

text \<open>The result is the call that is made: the object, the method and its argument.\<close>

definition changeState ::
  "('c, 'o, 'f, 'm) jni \<Rightarrow> 'o \<Rightarrow> ProxyState \<Rightarrow> fault + 'o \<times> 'm \<times> 'o" where
  "changeState env thiz newstate =
     (let cl = GetObjectClass env thiz;
          methodid = GetMethodID env cl ''changeState'' ''(Landroid/serial/port/api/ProxyState;)V''
      in bind_r (ConvertToJava env newstate) (\<lambda>value.
           bind_r (deref methodid) (\<lambda>m. Inr (thiz, m, value))))"

fun change_states ::
  "('c, 'o, 'f, 'm) jni \<Rightarrow> 'o \<Rightarrow> ProxyState list \<Rightarrow> fault + ('o \<times> 'm \<times> 'o) list" where
  "change_states env thiz [] = Inr []"
| "change_states env thiz (p # ps) =
     bind_r (changeState env thiz p) (\<lambda>c. bind_r (change_states env thiz ps) (\<lambda>cs. Inr (c # cs)))"

text \<open>A class with a constant for each of the three states the program notifies.\<close>

definition has_constants :: "('c, 'o, 'f, 'm) jni \<Rightarrow> 'c \<Rightarrow> (ProxyState \<Rightarrow> 'o) \<Rightarrow> bool" where
  "has_constants env cl obj \<longleftrightarrow>
     (\<forall>(p, name) \<in> {(STATE_READY, ''STATE_READY''), (STATE_CONNECTED, ''STATE_CONNECTED''),
        (STATE_PORT_OPENED, ''STATE_PORT_OPENED'')}.
        map_option (GetStaticObjectField env cl)
          (GetStaticFieldID env cl name ''Landroid/serial/port/api/ProxyState;'') = Some (obj p))"

lemma change_states_calls:
  assumes "FindClass env ''android/serial/port/api/ProxyState'' = Some cl"
    and "has_constants env cl obj"
    and "GetMethodID env (GetObjectClass env thiz) ''changeState''
      ''(Landroid/serial/port/api/ProxyState;)V'' = Some m"
    and "set ps \<subseteq> {STATE_READY, STATE_CONNECTED, STATE_PORT_OPENED}"
  shows "change_states env thiz ps = Inr (map (\<lambda>p. (thiz, m, obj p)) ps)"
  using assms(4)
proof (induction ps)
  case (Cons p ps)
  have "ConvertToJava env p = Inr (obj p)"
    using Cons.prems assms(1,2)
    by (auto simp: ConvertToJava_def has_constants_def deref_def)
  then show ?case
    using Cons assms(3) by (simp add: changeState_def deref_def)
qed simp

text \<open>
  Where the Java side has the class \<open>ProxyState\<close> with its constants, and the service the method,
  every state of a run reaches the method as the constant of its name, in order. Where the class is
  missing, which is the case of this library, the first notification is a fault.
\<close>

theorem states_reach_java:
  assumes "SercdService_main name F l b r (sercd_globals a devb netb rb p) = Again s0"
    and "runs T s0 s"
  shows "case FindClass env ''android/serial/port/api/ProxyState'' of
      None \<Rightarrow> change_states env thiz (rev (told (trace s))) = Inl NullPointer
    | Some cl \<Rightarrow> \<forall>obj m. has_constants env cl obj \<longrightarrow>
        GetMethodID env (GetObjectClass env thiz) ''changeState''
          ''(Landroid/serial/port/api/ProxyState;)V'' = Some m \<longrightarrow>
        change_states env thiz (rev (told (trace s))) =
          Inr (map (\<lambda>q. (thiz, m, obj q)) (rev (told (trace s))))"
proof -
  have told: "lawful (told (trace s))"
    using start_on_record [OF assms] by (simp add: on_record_def)
  then obtain q qs where "rev (told (trace s)) = q # qs"
    by (cases "rev (told (trace s))") auto
  then show ?thesis
    using change_states_calls [of env _ _ thiz _ "rev (told (trace s))"] lawful_states [OF told]
    by (auto simp: changeState_def ConvertToJava_def deref_def split: option.split)
qed

theorem states_reach_java_witness:
  "\<exists>s. DeviceFd (s :: mem_port sercd) = Some 7 \<and>
    change_states \<lparr>FindClass = (\<lambda>n. None), GetStaticFieldID = (\<lambda>c n t. Some n),
      GetStaticObjectField = (\<lambda>c f. f), GetObjectClass = (\<lambda>obj. ()), GetMethodID = (\<lambda>c n t. Some n)\<rparr>
      ''service'' (rev (told (trace s))) = Inl NullPointer \<and>
    change_states \<lparr>FindClass = (\<lambda>n. Some ()), GetStaticFieldID = (\<lambda>c n t. Some n),
      GetStaticObjectField = (\<lambda>c f. f), GetObjectClass = (\<lambda>obj. ()), GetMethodID = (\<lambda>c n t. Some n)\<rparr>
      ''service'' (rev (told (trace s))) =
    Inr (map (\<lambda>q. (''service'', ''changeState'', if q = STATE_READY then ''STATE_READY''
      else if q = STATE_CONNECTED then ''STATE_CONNECTED'' else ''STATE_PORT_OPENED''))
      (rev (told (trace s))))"
proof -
  obtain s0 s where run: "SercdService_main [] some_frame 3 0 0 (sercd_globals LP64 fresh_buffer
      fresh_buffer (\<lambda>i. 0) sample_port) = Again s0" "runs mem_tty s0 s" "DeviceFd s = Some 7"
    using first_session by blast
  let ?J = "\<lambda>cl. \<lparr>FindClass = (\<lambda>n. cl), GetStaticFieldID = (\<lambda>c n t. Some n),
      GetStaticObjectField = (\<lambda>c f. f), GetObjectClass = (\<lambda>obj. ()), GetMethodID = (\<lambda>c n t. Some n)\<rparr>"
  have "has_constants (?J (Some ())) () (\<lambda>q. if q = STATE_READY then ''STATE_READY''
      else if q = STATE_CONNECTED then ''STATE_CONNECTED'' else ''STATE_PORT_OPENED'')"
    by (simp add: has_constants_def)
  then show ?thesis
    using states_reach_java [OF run(1,2), of "?J None" "''service''"]
      states_reach_java [OF run(1,2), of "?J (Some ())" "''service''"] run(3)
    by (intro exI [of _ s]) simp
qed

end
