(* ===== verification/Jni_Serial.thy ===== *)
theory Jni_Serial
  imports Port_Settings
begin

text \<open>
  The port opened for Java (\<open>serial.c\<close>): the speed codes, and \<open>open\<close> with its error paths. What the
  system answers is a parameter; the calls made to it are recorded, and the Java object is the
  descriptor it holds.
\<close>

section \<open>Speed codes\<close>

abbreviation B500000 :: u32 where "B500000 \<equiv> 0x1005"
abbreviation B576000 :: u32 where "B576000 \<equiv> 0x1006"
abbreviation B921600 :: u32 where "B921600 \<equiv> 0x1007"
abbreviation B1000000 :: u32 where "B1000000 \<equiv> 0x1008"
abbreviation B1152000 :: u32 where "B1152000 \<equiv> 0x1009"
abbreviation B1500000 :: u32 where "B1500000 \<equiv> 0x100A"
abbreviation B2000000 :: u32 where "B2000000 \<equiv> 0x100B"
abbreviation B2500000 :: u32 where "B2500000 \<equiv> 0x100C"
abbreviation B3000000 :: u32 where "B3000000 \<equiv> 0x100D"
abbreviation B3500000 :: u32 where "B3500000 \<equiv> 0x100E"
abbreviation B4000000 :: u32 where "B4000000 \<equiv> 0x100F"

definition baudrate_codes :: "(int \<times> u32) list" where
  "baudrate_codes =
     [(0, B0), (50, B50), (75, B75), (110, B110), (134, B134), (150, B150), (200, B200),
      (300, B300), (600, B600), (1200, B1200), (1800, B1800), (2400, B2400), (4800, B4800),
      (9600, B9600), (19200, B19200), (38400, B38400), (57600, B57600), (115200, B115200),
      (230400, B230400), (460800, B460800), (500000, B500000), (576000, B576000),
      (921600, B921600), (1000000, B1000000), (1152000, B1152000), (1500000, B1500000),
      (2000000, B2000000), (2500000, B2500000), (3000000, B3000000), (3500000, B3500000),
      (4000000, B4000000)]"

definition getBaudrate :: "int \<Rightarrow> u32" where
  "getBaudrate baudrate =
     (case map_of baudrate_codes baudrate of Some b \<Rightarrow> b | None \<Rightarrow> -1)"

lemma getBaudrate_invalid: "getBaudrate b = -1 \<longleftrightarrow> b \<notin> fst ` set baudrate_codes"
proof (cases "map_of baudrate_codes b")
  case None
  moreover from this have "b \<notin> fst ` set baudrate_codes"
    by (simp add: map_of_eq_None_iff)
  ultimately show ?thesis
    by (simp add: getBaudrate_def)
next
  case (Some c)
  then have "(b, c) \<in> set baudrate_codes"
    by (rule map_of_SomeD)
  then have "c \<noteq> -1" "b \<in> fst ` set baudrate_codes"
    by (auto simp: baudrate_codes_def)
  then show ?thesis
    using Some by (simp add: getBaudrate_def)
qed

section \<open>Opening\<close>

record jni_answers =
  open_answer :: int
  getattr_answer :: "termios option"
  setattr_fails :: bool

datatype jni_call = SysOpen "byte list" u32 | SysSetattr int termios | SysClose int

definition O_RDWR :: u32 where
  "O_RDWR = 2"

text \<open>The descriptor of the object returned, or none for \<open>NULL\<close>, and the calls made.\<close>

definition SerialPort_open ::
  "jni_answers \<Rightarrow> byte list \<Rightarrow> int \<Rightarrow> u32 \<Rightarrow> int option \<times> jni_call list" where
  "SerialPort_open A path baudrate flags =
     (let speed = getBaudrate baudrate in
      if speed = -1 then (None, [])
      else (let fd = open_answer A; opened = [SysOpen path (O_RDWR OR flags)] in
        if fd = -1 then (None, opened)
        else (case getattr_answer A of
            None \<Rightarrow> (None, opened @ [SysClose fd])
          | Some t \<Rightarrow>
              (let cfg = cfsetospeed speed (cfsetispeed speed (cfmakeraw t)) in
               if setattr_fails A then (None, opened @ [SysSetattr fd cfg, SysClose fd])
               else (Some fd, opened @ [SysSetattr fd cfg])))))"

text \<open>\<open>close\<close> on the descriptor the object holds.\<close>

definition SerialPort_close :: "int \<Rightarrow> jni_call list" where
  "SerialPort_close descriptor = [SysClose descriptor]"

text \<open>
  Opening the port for Java gives a descriptor exactly when the rate is one of the known ones and
  each call succeeds; the port is then in raw mode with that rate in both directions. A descriptor
  that was opened and is not given out has been closed, so that no error path leaks it, and one that
  is given out has not been.
\<close>

theorem java_open_outcome:
  "(fst (SerialPort_open A path b flags) = Some fd \<longleftrightarrow>
      b \<in> fst ` set baudrate_codes \<and> open_answer A = fd \<and> fd \<noteq> -1 \<and>
      getattr_answer A \<noteq> None \<and> \<not> setattr_fails A) \<and>
    (SysClose fd \<in> set (snd (SerialPort_open A path b flags)) \<longleftrightarrow>
      SysOpen path (O_RDWR OR flags) \<in> set (snd (SerialPort_open A path b flags)) \<and>
      open_answer A = fd \<and> fd \<noteq> -1 \<and> fst (SerialPort_open A path b flags) = None) \<and>
    (\<forall>cfg. SysSetattr fd cfg \<in> set (snd (SerialPort_open A path b flags)) \<longrightarrow>
      cfgetispeed cfg = getBaudrate b \<and> cfgetospeed cfg = getBaudrate b \<and>
      c_cflag cfg AND CSIZE = CS8)"
proof -
  have raw: "c_cflag (cfmakeraw t) AND CSIZE = CS8" for t
    by (rule bit_word_eqI) (auto simp: cfmakeraw_def termios_bits bit_simps bit_numeral_rec)
  consider "getBaudrate b = -1" | "getBaudrate b \<noteq> -1" "open_answer A = -1"
    | "getBaudrate b \<noteq> -1" "open_answer A \<noteq> -1" "getattr_answer A = None"
    | t where "getBaudrate b \<noteq> -1" "open_answer A \<noteq> -1" "getattr_answer A = Some t"
    by blast
  moreover have known: "b \<in> fst ` set baudrate_codes \<longleftrightarrow> getBaudrate b \<noteq> -1"
    using getBaudrate_invalid [of b] by blast
  ultimately show ?thesis
    unfolding known
    by cases (auto simp: SerialPort_open_def Let_def cfgetispeed_def cfgetospeed_def
        cfsetispeed_def cfsetospeed_def raw)
qed

definition sample_answers :: jni_answers where
  "sample_answers = \<lparr>open_answer = 7, getattr_answer = Some \<lparr>c_iflag = 0, c_oflag = 0, c_cflag = 0,
     c_lflag = 0, c_ispeed = 0, c_ospeed = 0\<rparr>, setattr_fails = False\<rparr>"

theorem java_open_outcome_witness:
  "fst (SerialPort_open sample_answers [] 9600 0) = Some 7 \<and>
   SysClose 7 \<notin> set (snd (SerialPort_open sample_answers [] 9600 0))"
  using java_open_outcome [of sample_answers "[]" 9600 0 7]
  by (simp add: sample_answers_def baudrate_codes_def)

end
