(* ===== verification/Port_Log.thy ===== *)
theory Port_Log
  imports Unix_Io
begin

text \<open>
  The log (\<open>LogMsg\<close> and \<open>UnixLogPortSettings\<close> of \<open>unix.c\<close>, \<open>LogPortSettings\<close> of \<open>sercd.c\<close>): which
  messages pass and with which priority, and the line that describes the settings of the port; and
  the functions run at exit and on signals.
\<close>

section \<open>Priorities\<close>

datatype priority =
    ANDROID_LOG_FATAL | ANDROID_LOG_ERROR | ANDROID_LOG_WARN | ANDROID_LOG_INFO | ANDROID_LOG_DEBUG

definition LOG_NOTICE :: int where
  "LOG_NOTICE = 5"

definition MaxLogLevel :: int where
  "MaxLogLevel = 7"

text \<open>
  The priority of each level of \<open>syslog\<close>; for a value that is no level the variable is never set,
  which is \<open>None\<close>.
\<close>

definition log_priority :: "int \<Rightarrow> priority option" where
  "log_priority LogLevel =
     (if LogLevel = 0 then Some ANDROID_LOG_FATAL
      else if LogLevel \<in> {1, 2, 3} then Some ANDROID_LOG_ERROR
      else if LogLevel = 4 then Some ANDROID_LOG_WARN
      else if LogLevel \<in> {5, 6} then Some ANDROID_LOG_INFO
      else if LogLevel = 7 then Some ANDROID_LOG_DEBUG
      else None)"

definition LogMsg :: "int \<Rightarrow> string \<Rightarrow> (priority option \<times> string) list" where
  "LogMsg LogLevel Msg =
     (if LogLevel \<le> MaxLogLevel then [(log_priority LogLevel, Msg)] else [])"

lemma log_priority_of_levels: "0 \<le> l \<Longrightarrow> l \<le> 7 \<Longrightarrow> log_priority l \<noteq> None"
  by (auto simp: log_priority_def)

section \<open>The settings of the port\<close>

text \<open>Decimal digits, as \<open>%u\<close> and \<open>%lu\<close> print them.\<close>

function decimal :: "nat \<Rightarrow> string" where
  "decimal n = (if n < 10 then [char_of (48 + n)] else decimal (n div 10) @ [char_of (48 + n mod 10)])"
  by pat_completeness auto
termination by (relation "measure id") auto

declare decimal.simps [simp del]

definition parity_letter :: "byte \<Rightarrow> string" where
  "parity_letter parity =
     (if parity = TNCOM_ODDPARITY then ''O''
      else if parity = TNCOM_EVENPARITY then ''E''
      else if parity = TNCOM_MARKPARITY then ''M''
      else if parity = TNCOM_SPACEPARITY then ''S''
      else if parity = TNCOM_NOPARITY then ''N''
      else ''I'')"

definition stop_bits :: "byte \<Rightarrow> string" where
  "stop_bits stopsize =
     (if stopsize = TNCOM_ONESTOPBIT then ''1''
      else if stopsize = TNCOM_ONE5STOPBITS then ''1.5''
      else if stopsize = TNCOM_TWOSTOPBITS then ''2''
      else [])"

text \<open>The two switches: the first one sets \<open>inflowtype\<close>, the second one \<open>outflowtype\<close>.\<close>

definition inflowtype :: "byte \<Rightarrow> string" where
  "inflowtype outflow =
     (if outflow = TNCOM_CMD_FLOW_NONE then ''none''
      else if outflow = TNCOM_CMD_FLOW_XONXOFF then ''XON/XOFF''
      else if outflow = TNCOM_CMD_FLOW_HARDWARE then ''RTS/CTS''
      else if outflow = TNCOM_CMD_FLOW_DCD then ''DCD flow control''
      else if outflow = TNCOM_CMD_FLOW_DSR then ''DSR''
      else ''unknown'')"

definition outflowtype :: "byte \<Rightarrow> string" where
  "outflowtype inflow =
     (if inflow = TNCOM_CMD_INFLOW_NONE then ''none''
      else if inflow = TNCOM_CMD_INFLOW_XONXOFF then ''XON/XOFF''
      else if inflow = TNCOM_CMD_INFLOW_HARDWARE then ''RTS/CTS''
      else if inflow = TNCOM_CMD_INFLOW_DTR then ''DTR''
      else ''unknown'')"

definition LogPortSettings ::
  "ulong \<Rightarrow> byte \<Rightarrow> byte \<Rightarrow> byte \<Rightarrow> byte \<Rightarrow> byte \<Rightarrow> (priority option \<times> string) list" where
  "LogPortSettings speed datasize parity stopsize outflow inflow =
     LogMsg LOG_NOTICE (take 254 (''Port settings:'' @ decimal (unat speed) @ ''-'' @
       decimal (unat datasize) @ ''-'' @ parity_letter parity @ ''-'' @ stop_bits stopsize @
       '' outflow:'' @ outflowtype inflow @ '' inflow:'' @ inflowtype outflow))"

definition LOG_WARNING :: int where
  "LOG_WARNING = 4"

text \<open>The warning \<open>Termios2TncomSpeed\<close> logs before it looks the speed up.\<close>

definition Termios2TncomSpeed_log :: "termios \<Rightarrow> (priority option \<times> string) list" where
  "Termios2TncomSpeed_log ti =
     (if cfgetispeed ti \<noteq> cfgetospeed ti
      then LogMsg LOG_WARNING ''warning: different input and output speed, using output speed''
      else [])"

definition UnixLogPortSettings :: "termios \<Rightarrow> (priority option \<times> string) list" where
  "UnixLogPortSettings ti =
     (let speed = Termios2TncomSpeed ti;
          datasize = Termios2TncomDataSize ti;
          parity = Termios2TncomParity ti;
          stopsize = Termios2TncomStopSize ti;
          outflow = Termios2TncomOutFlow ti;
          inflow = Termios2TncomInFlow ti
      in Termios2TncomSpeed_log ti @
           LogPortSettings speed datasize parity stopsize outflow inflow)"

text \<open>
  The line names the two flow controls the wrong way round: with output stopped by XON and XOFF and
  input not controlled at all, it says that there is none for output.
\<close>

lemma flow_labels_swapped:
  "LogPortSettings 9600 8 TNCOM_NOPARITY TNCOM_ONESTOPBIT TNCOM_CMD_FLOW_XONXOFF
     TNCOM_CMD_INFLOW_NONE =
   [(Some ANDROID_LOG_INFO, ''Port settings:9600-8-N-1 outflow:none inflow:XON/XOFF'')]"
proof -
  have "decimal 9600 = ''9600''" "decimal 8 = ''8''"
    by (simp_all add: decimal.simps [of 9600] decimal.simps [of 960] decimal.simps [of 96]
        decimal.simps [of 9] decimal.simps [of 8] char_of_def bit_0)
  then show ?thesis
    by (simp add: LogPortSettings_def LogMsg_def LOG_NOTICE_def MaxLogLevel_def log_priority_def
        parity_letter_def stop_bits_def inflowtype_def outflowtype_def)
qed

section \<open>Exit and signals\<close>

text \<open>
  \<open>ExitFunction\<close> (\<open>sercd.c\<close>) and \<open>SignalFunction\<close> (\<open>unix.c\<close>): the message logged and the state left. They
  are compiled everywhere and registered by \<open>PlatformInit\<close> on other platforms than Android.
\<close>

definition ExitFunction :: "'p tty \<Rightarrow> 'p sercd \<Rightarrow> (priority option \<times> string) list \<times> 'p sercd" where
  "ExitFunction T s =
     (let s1 = DropConnection T (DeviceFd s) (InSocketFd s) (OutSocketFd s) s
      in (LogMsg LOG_NOTICE ''sercd stopped.'', s1))"

definition SignalFunction ::
  "'p tty \<Rightarrow> int \<Rightarrow> 'p sercd \<Rightarrow> (priority option \<times> string) list \<times> 'p sercd" where
  "SignalFunction T unused s = ExitFunction T s"

text \<open>
  A signal does not end the program and leaves the pointers set: at the exit that follows, every
  descriptor is closed once more.
\<close>

lemma signal_then_exit_closes_twice:
  assumes "DeviceFd s = Some d" and "InSocketFd s = Some c" and "OutSocketFd s = Some c"
  shows "trace (snd (ExitFunction T (snd (SignalFunction T n s)))) =
    trace s @ [Closed d, Closed c, Closed c] @ [Closed d, Closed c, Closed c]"
  using assms
  by (auto simp: SignalFunction_def ExitFunction_def DropConnection_def ClosePort_def close_fd_def
      set_port_def emit_def split: option.split)

end
