(* ===== verification/Hdb_Lock.thy ===== *)
theory Hdb_Lock
  imports Port_Log
begin

text \<open>
  The lock file of the port (\<open>unix.c\<close> lines 597 to 720, \<open>HDBLockFile\<close> and \<open>HDBUnlockFile\<close>) and the
  configuration that uses it, in which \<open>OpenPort\<close> takes the lock and \<open>ClosePort\<close> gives it back.
  The system calls are a parameter; \<open>disk_calls\<close> gives them their documented behaviour on a file
  that other processes may act on between any two calls.
\<close>

section \<open>The text of a pid\<close>

definition decimal_int :: "int \<Rightarrow> string" where
  "decimal_int i = (if i < 0 then ''-'' @ decimal (nat (- i)) else decimal (nat i))"

definition HDBHeaderLen :: nat where
  "HDBHeaderLen = 11"

text \<open>\<open>snprintf (HDBBuffer, 12, "%10d\n", LockPid)\<close>: at most eleven characters are kept.\<close>

definition hdb_header :: "int \<Rightarrow> byte list" where
  "hdb_header LockPid =
     (let digits = decimal_int LockPid
      in take HDBHeaderLen (ascii (replicate (10 - length digits) CHR 0x20 @ digits @ [CHR 0x0A])))"

text \<open>
  \<open>atoi\<close> is \<open>(int) strtol (s, NULL, 10)\<close>: spaces and a sign are skipped and the digits read; where
  \<open>long\<close> is wider than \<open>int\<close> the value is cut to 32 bits, and where it is not \<open>strtol\<close> stops at its
  limits. Eleven characters never reach the limits of a 64-bit \<open>long\<close>.
\<close>

definition is_space :: "byte \<Rightarrow> bool" where
  "is_space b \<longleftrightarrow> b = 32 \<or> 9 \<le> b \<and> b \<le> 13"

definition is_digit :: "byte \<Rightarrow> bool" where
  "is_digit b \<longleftrightarrow> 48 \<le> b \<and> b \<le> 57"

fun digits_value :: "byte list \<Rightarrow> int \<Rightarrow> int" where
  "digits_value [] v = v"
| "digits_value (b # bs) v = (if is_digit b then digits_value bs (10 * v + (uint b - 48)) else v)"

definition strtol10 :: "byte list \<Rightarrow> int" where
  "strtol10 bs =
     (case dropWhile is_space bs of
        [] \<Rightarrow> 0
      | b # cs \<Rightarrow>
          if b = 45 then - digits_value cs 0
          else if b = 43 then digits_value cs 0
          else digits_value (b # cs) 0)"

definition atoi :: "abi \<Rightarrow> byte list \<Rightarrow> int" where
  "atoi a bs =
     (case a of
        LP64 \<Rightarrow> sint (word_of_int (strtol10 bs) :: u32)
      | ILP32 \<Rightarrow> max (- 2147483648) (min 2147483647 (strtol10 bs)))"

lemma digit_small: "d < 10 \<Longrightarrow> 48 + d < (256 :: nat)"
  by simp

lemma digit_byte: "d < 10 \<Longrightarrow> (of_char (char_of (48 + d :: nat)) :: byte) = of_nat (48 + d)"
  by (metis of_nat_of_char of_char_of mod_less digit_small)

lemma digit_byte_value:
  assumes "d < 10"
  shows "is_digit (of_nat (48 + d))" and "uint (of_nat (48 + d) :: byte) - 48 = int d"
proof -
  have "unat (of_nat (48 + d) :: byte) = 48 + d"
    using assms by (simp only: unat_of_nat) simp
  then show "is_digit (of_nat (48 + d))" "uint (of_nat (48 + d) :: byte) - 48 = int d"
    using assms unfolding is_digit_def word_le_nat_alt uint_nat by simp_all
qed

lemma ascii_append [simp]: "ascii (cs @ ds) = ascii cs @ ascii ds"
  by (simp add: ascii_def)

lemma ascii_Cons [simp]: "ascii (c # cs) = of_char c # ascii cs"
  by (simp add: ascii_def)

lemma ascii_Nil [simp]: "ascii [] = []"
  by (simp add: ascii_def)

lemma decimal_digits: "b \<in> set (ascii (decimal n)) \<Longrightarrow> is_digit b"
proof (induction n rule: decimal.induct)
  case (1 n)
  then show ?case
    by (subst (asm) (2) decimal.simps)
      (auto simp: digit_byte digit_byte_value(1) simp del: of_nat_add split: if_splits)
qed

lemma decimal_nonempty: "decimal n \<noteq> []"
  by (subst decimal.simps) simp

lemma decimal_value:
  "digits_value (ascii (decimal n) @ bs) 0 = digits_value bs (int n)"
proof (induction n arbitrary: bs rule: decimal.induct)
  case (1 n)
  show ?case
  proof (cases "n < 10")
    case True
    then show ?thesis
      by (subst decimal.simps) (simp add: digit_byte digit_byte_value del: of_nat_add)
  next
    case False
    have "int (n div 10) * 10 + int (n mod 10) = int n"
      by (metis of_nat_add of_nat_mult of_nat_numeral div_mult_mod_eq)
    then show ?thesis
      using False 1
      by (subst decimal.simps)
        (simp add: digit_byte digit_byte_value mult.commute del: of_nat_add)
  qed
qed

lemma decimal_length: "0 < k \<Longrightarrow> n < 10 ^ k \<Longrightarrow> length (decimal n) \<le> k"
proof (induction n arbitrary: k rule: decimal.induct)
  case (1 n)
  show ?case
  proof (cases "n < 10")
    case True
    then show ?thesis
      using 1(2) by (subst decimal.simps) simp
  next
    case False
    with 1(2,3) obtain j where j: "k = Suc j" "0 < j"
      by (cases k; cases "k - 1") auto
    then have "n div 10 < 10 ^ j"
      using 1(3) by (simp add: div_less_iff_less_mult mult.commute)
    with 1(1) [OF False, of j] False j show ?thesis
      by (subst decimal.simps) simp
  qed
qed

text \<open>A pid is written in eleven bytes, and read back as it was.\<close>

lemma hdb_header_pid:
  assumes "0 < pid" and "pid < 2 ^ 31"
  shows "length (hdb_header pid) = HDBHeaderLen" and "atoi a (hdb_header pid) = pid"
proof -
  define ds where "ds = ascii (decimal (nat pid))"
  have len: "length (decimal (nat pid)) \<le> 10"
    using assms by (intro decimal_length) simp_all
  then have hdr: "hdb_header pid = replicate (10 - length ds) 32 @ ds @ [10]"
    using assms by (simp add: hdb_header_def decimal_int_def HDBHeaderLen_def Let_def ds_def ascii_def)
  then show "length (hdb_header pid) = HDBHeaderLen"
    using len by (simp add: HDBHeaderLen_def ds_def)
  obtain b cs where b: "ds = b # cs"
    using decimal_nonempty [of "nat pid"] by (cases ds) (auto simp: ds_def ascii_def)
  then have "is_digit b"
    using decimal_digits [of b "nat pid"] by (simp add: ds_def)
  then have sp: "\<not> is_space b" "b \<noteq> 45" "b \<noteq> 43"
    by (auto simp: is_digit_def is_space_def word_le_nat_alt)
  have "dropWhile is_space (hdb_header pid) = ds @ [10]"
    unfolding hdr by (subst dropWhile_append2) (auto simp: is_space_def [of 32] b sp)
  then have "strtol10 (hdb_header pid) = digits_value (ds @ [10]) 0"
    using b sp by (simp add: strtol10_def)
  also have "\<dots> = pid"
    using assms by (simp add: ds_def decimal_value is_digit_def)
  finally show "atoi a (hdb_header pid) = pid"
    using assms by (cases a) (simp_all add: atoi_def int_word_sint)
qed

section \<open>Taking the lock\<close>

text \<open>The answers of \<open>open\<close> with \<open>O_CREAT | O_EXCL\<close> and of \<open>kill\<close>, with the \<open>errno\<close> that matters.\<close>

datatype create_answer = Created | CreateExists | CreateFailed
datatype kill_answer = KillPermitted | NoSuchProcess | KillRefused

text \<open>
  The calls on the lock file, which work on the outside world \<open>'f\<close>; the descriptor is part of it.
\<close>

record 'f lock_calls =
  create_excl :: "string \<Rightarrow> 'f \<Rightarrow> create_answer \<times> 'f"
  open_rdonly :: "string \<Rightarrow> 'f \<Rightarrow> bool \<times> 'f"
  read_fd :: "nat \<Rightarrow> 'f \<Rightarrow> read_answer \<times> 'f"
  write_fd :: "byte list \<Rightarrow> 'f \<Rightarrow> write_answer \<times> 'f"
  close_lock :: "'f \<Rightarrow> 'f"
  unlink_file :: "string \<Rightarrow> 'f \<Rightarrow> bool \<times> 'f"
  kill_0 :: "int \<Rightarrow> 'f \<Rightarrow> kill_answer \<times> 'f"
  write_log :: "(priority option \<times> string) list \<Rightarrow> 'f \<Rightarrow> 'f"

definition LockOk :: int where
  "LockOk = 0"

definition Locked :: int where
  "Locked = 1"

definition LockKo :: int where
  "LockKo = 2"

definition log_line :: "'f lock_calls \<Rightarrow> int \<Rightarrow> string \<Rightarrow> 'f \<Rightarrow> 'f" where
  "log_line S level text w = write_log S (LogMsg level (take 254 text)) w"

definition LOG_ERR :: int where
  "LOG_ERR = 3"

definition LOG_INFO :: int where
  "LOG_INFO = 6"

definition LOG_DEBUG :: int where
  "LOG_DEBUG = 7"

text \<open>\<open>(Pid == 0) || ((kill (Pid, 0) != 0) && (errno == ESRCH))\<close>\<close>

definition stale_pid :: "'f lock_calls \<Rightarrow> int \<Rightarrow> 'f \<Rightarrow> bool \<times> 'f" where
  "stale_pid S Pid w =
     (if Pid = 0 then (True, w)
      else (let (answer, w1) = kill_0 S Pid w in (answer = NoSuchProcess, w1)))"

text \<open>
  One round of the loop: the file is created, the function returns, or a stale file has been removed
  and the loop goes round again.
\<close>

datatype 'f round = Leave 'f | Result int 'f | Again_lock 'f

definition read_lock ::
  "abi \<Rightarrow> 'f lock_calls \<Rightarrow> string \<Rightarrow> int \<Rightarrow> 'f \<Rightarrow> 'f round" where
  "read_lock a S LockFile LockPid w =
     (let (r, w1) = read_fd S HDBHeaderLen w;
          N = read_result r HDBHeaderLen;
          w2 = close_lock S w1
      in if N \<le> 0 then
           Result LockKo
             (log_line S LOG_NOTICE (''Can't read pid from lock file '' @ LockFile @ ''.'') w2)
         else
           (let Pid = atoi a (read_bytes r HDBHeaderLen)
            in if Pid = LockPid then
                 Result LockOk
                   (log_line S LOG_DEBUG (''Read our pid from lock '' @ LockFile @ ''.'') w2)
               else
                 (let (stale, w3) = stale_pid S Pid w2
                  in if stale then
                       (let (removed, w4) = unlink_file S LockFile w3
                        in if removed then
                             Again_lock (log_line S LOG_NOTICE (''Removed stale lock '' @ LockFile @
                               '' (pid '' @ decimal_int Pid @ '').'') w4)
                           else
                             Result LockKo (log_line S LOG_ERR (''Couldn't remove stale lock '' @
                               LockFile @ '' (pid '' @ decimal_int Pid @ '').'') w4))
                     else
                       Result Locked (log_line S LOG_INFO (''Lock '' @ LockFile @
                         '' is owned by pid '' @ decimal_int Pid @ ''.'') w3))))"

definition lock_round ::
  "abi \<Rightarrow> 'f lock_calls \<Rightarrow> string \<Rightarrow> int \<Rightarrow> 'f \<Rightarrow> 'f round" where
  "lock_round a S LockFile LockPid w =
     (let (answer, w1) = create_excl S LockFile w
      in if answer = Created then Leave w1
         else
           (let (opened, w2) =
                  (if answer = CreateExists then open_rdonly S LockFile w1 else (False, w1))
            in if opened then read_lock a S LockFile LockPid w2
               else Result LockKo
                 (log_line S LOG_ERR (''Can't create lock file '' @ LockFile @ ''.'') w2)))"

definition fill_lock :: "'f lock_calls \<Rightarrow> string \<Rightarrow> int \<Rightarrow> 'f \<Rightarrow> int \<times> 'f" where
  "fill_lock S LockFile LockPid w =
     (let (r, w1) = write_fd S (hdb_header LockPid) w
      in if write_result r HDBHeaderLen \<noteq> int HDBHeaderLen then
           (let w2 = log_line S LOG_ERR (''Can't write HDB header to lock file '' @ LockFile @ ''.'')
                  (close_lock S w1)
            in (LockKo, snd (unlink_file S LockFile w2)))
         else (LockOk, close_lock S w1))"

text \<open>Not to return is \<open>None\<close>: another process may put a stale file back in every round.\<close>

partial_function (option) HDBLockFile ::
  "abi \<Rightarrow> 'f lock_calls \<Rightarrow> string \<Rightarrow> int \<Rightarrow> 'f \<Rightarrow> (int \<times> 'f) option" where
  "HDBLockFile a S LockFile LockPid w =
     (case lock_round a S LockFile LockPid w of
        Leave w1 \<Rightarrow> Some (fill_lock S LockFile LockPid w1)
      | Result r w1 \<Rightarrow> Some (r, w1)
      | Again_lock w1 \<Rightarrow> HDBLockFile a S LockFile LockPid w1)"

definition HDBUnlockFile ::
  "abi \<Rightarrow> 'f lock_calls \<Rightarrow> string \<Rightarrow> int \<Rightarrow> 'f \<Rightarrow> 'f option" where
  "HDBUnlockFile a S LockFile LockPid w =
     Option.bind (HDBLockFile a S LockFile LockPid w) (\<lambda>(r, w1).
       Some (if r = LockOk then
          (let (removed, w2) = unlink_file S LockFile w1
           in log_line S LOG_NOTICE (''Unlocked lock file '' @ LockFile @ ''.'') w2)
        else w1))"

section \<open>The loop returns\<close>

text \<open>
  The contract that makes the loop end: under an invariant of the world, a round that goes round again
  makes a measure smaller.
\<close>

locale settling_calls =
  fixes S :: "'f lock_calls" and settled :: "'f \<Rightarrow> bool" and m :: "'f \<Rightarrow> nat"
  assumes again: "settled w \<Longrightarrow> lock_round a S LockFile LockPid w = Again_lock w' \<Longrightarrow>
    settled w' \<and> m w' < m w"
begin

lemma lock_returns: "settled w \<Longrightarrow> \<exists>r w'. HDBLockFile a S LockFile LockPid w = Some (r, w')"
proof (induction w rule: measure_induct_rule [of m])
  case (less w)
  show ?case
  proof (cases "lock_round a S LockFile LockPid w")
    case (Leave w1)
    then show ?thesis
      by (subst HDBLockFile.simps) (simp add: prod_eq_iff)
  next
    case (Result r w1)
    then show ?thesis
      by (subst HDBLockFile.simps) simp
  next
    case (Again_lock w1)
    then show ?thesis
      using less.IH [of w1] again [OF less.prems Again_lock]
      by (subst HDBLockFile.simps) simp
  qed
qed

end

section \<open>The lock file on a disk\<close>

text \<open>
  The directory entry of the lock file and the files there have been, so that a file that has lost its
  name can still be read; the processes that are alive, and what the caller is permitted to do.
  \<open>write_room\<close> is how much a write takes before the disk is full.
\<close>

record disk =
  entry :: "nat option"
  inodes :: "nat \<Rightarrow> byte list"
  next_inode :: nat
  alive :: "int set"
  may_signal :: "int set"
  may_create :: bool
  may_read :: bool
  may_unlink :: bool
  write_room :: nat

text \<open>The world of one process: before its \<open>i\<close>-th call the others do \<open>others w i\<close> to the disk.\<close>

record lock_world =
  lock_fd :: nat
  the_disk :: disk
  clock :: nat
  others :: "nat \<Rightarrow> disk \<Rightarrow> disk"
  log_lines :: "(priority option \<times> string) list"

definition others_act :: "lock_world \<Rightarrow> lock_world" where
  "others_act w = w\<lparr>the_disk := others w (clock w) (the_disk w), clock := clock w + 1\<rparr>"

definition disk_create :: "lock_world \<Rightarrow> create_answer \<times> lock_world" where
  "disk_create w =
     (let w1 = others_act w; d = the_disk w1
      in if entry d \<noteq> None then (CreateExists, w1)
         else if \<not> may_create d then (CreateFailed, w1)
         else (Created, w1\<lparr>lock_fd := next_inode d,
           the_disk := d\<lparr>entry := Some (next_inode d),
             inodes := (inodes d)(next_inode d := []), next_inode := next_inode d + 1\<rparr>\<rparr>))"

definition disk_open :: "lock_world \<Rightarrow> bool \<times> lock_world" where
  "disk_open w =
     (let w1 = others_act w
      in case entry (the_disk w1) of
           None \<Rightarrow> (False, w1)
         | Some i \<Rightarrow> if may_read (the_disk w1) then (True, w1\<lparr>lock_fd := i\<rparr>) else (False, w1))"

definition disk_read :: "nat \<Rightarrow> lock_world \<Rightarrow> read_answer \<times> lock_world" where
  "disk_read n w =
     (let w1 = others_act w in (ReadData (inodes (the_disk w1) (lock_fd w1)), w1))"

definition disk_write :: "byte list \<Rightarrow> lock_world \<Rightarrow> write_answer \<times> lock_world" where
  "disk_write bs w =
     (let w1 = others_act w; d = the_disk w1
      in (WriteTakes (write_room d),
          w1\<lparr>the_disk := d\<lparr>inodes := (inodes d)(lock_fd w1 := take (write_room d) bs)\<rparr>\<rparr>))"

definition disk_unlink :: "lock_world \<Rightarrow> bool \<times> lock_world" where
  "disk_unlink w =
     (let w1 = others_act w; d = the_disk w1
      in if entry d = None \<or> \<not> may_unlink d then (False, w1)
         else (True, w1\<lparr>the_disk := d\<lparr>entry := None\<rparr>\<rparr>))"

definition disk_kill :: "int \<Rightarrow> lock_world \<Rightarrow> kill_answer \<times> lock_world" where
  "disk_kill p w =
     (let w1 = others_act w
      in (if p \<notin> alive (the_disk w1) then NoSuchProcess
          else if p \<in> may_signal (the_disk w1) then KillPermitted else KillRefused, w1))"

definition disk_calls :: "lock_world lock_calls" where
  "disk_calls = \<lparr>
     create_excl = (\<lambda>f. disk_create), open_rdonly = (\<lambda>f. disk_open), read_fd = disk_read,
     write_fd = disk_write, close_lock = (\<lambda>w. w), unlink_file = (\<lambda>f. disk_unlink),
     kill_0 = disk_kill, write_log = (\<lambda>ls w. w\<lparr>log_lines := log_lines w @ ls\<rparr>)\<rparr>"

text \<open>The pid in the lock file, as \<open>HDBLockFile\<close> reads it.\<close>

definition holder :: "abi \<Rightarrow> disk \<Rightarrow> int option" where
  "holder a d = map_option (\<lambda>i. atoi a (take HDBHeaderLen (inodes d i))) (entry d)"

text \<open>From now on nobody else touches the disk.\<close>

definition alone :: "lock_world \<Rightarrow> bool" where
  "alone w \<longleftrightarrow> (\<forall>i\<ge>clock w. others w i = id)"

lemmas lock_defs = lock_round_def read_lock_def stale_pid_def fill_lock_def log_line_def
  disk_calls_def disk_create_def disk_open_def disk_read_def disk_write_def disk_unlink_def
  disk_kill_def others_act_def

text \<open>
  Once the others have come to rest a stale file is removed once, and not found again.
\<close>

definition at_rest :: "nat \<Rightarrow> lock_world \<Rightarrow> bool" where
  "at_rest n w \<longleftrightarrow> (\<forall>i\<ge>n. others w i = id)"

definition rounds_left :: "nat \<Rightarrow> lock_world \<Rightarrow> nat" where
  "rounds_left n w =
     (n - clock w) + (if n \<le> clock w \<and> entry (the_disk w) = None then 0 else 1)"

lemma disk_frame:
  "disk_create w = (c, w') \<Longrightarrow> others w' = others w \<and> clock w' = clock w + 1"
  "disk_open w = (b, w') \<Longrightarrow> others w' = others w \<and> clock w' = clock w + 1"
  "disk_read k w = (r, w') \<Longrightarrow> others w' = others w \<and> clock w' = clock w + 1"
  "disk_unlink w = (b, w') \<Longrightarrow> others w' = others w \<and> clock w' = clock w + 1 \<and>
    (b \<longrightarrow> entry (the_disk w') = None)"
  "disk_kill p w = (x, w') \<Longrightarrow> others w' = others w \<and> clock w' = clock w + 1"
  by (auto simp: disk_create_def disk_open_def disk_read_def disk_unlink_def disk_kill_def
      others_act_def Let_def split: if_splits option.splits)

lemma round_again:
  assumes "lock_round a disk_calls f p w = Again_lock w'"
  shows "others w' = others w" and "clock w < clock w'" and "entry (the_disk w') = None"
    and "others w (clock w) = id \<Longrightarrow> entry (the_disk w) \<noteq> None"
proof -
  show "others w (clock w) = id \<Longrightarrow> entry (the_disk w) \<noteq> None"
    using assms by (auto simp: lock_defs Let_def split: if_splits)
  have "others w' = others w \<and> clock w < clock w' \<and> entry (the_disk w') = None"
    using assms
    by (auto simp: lock_round_def read_lock_def stale_pid_def log_line_def disk_calls_def Let_def
        dest!: disk_frame split: if_splits prod.splits)
  then show "others w' = others w" "clock w < clock w'" "entry (the_disk w') = None"
    by simp_all
qed

interpretation settling: settling_calls disk_calls "at_rest n" "rounds_left n"
proof
  fix w w' :: lock_world and a f p
  assume s: "at_rest n w" and r: "lock_round a disk_calls f p w = Again_lock w'"
  have "others w' = others w" "clock w < clock w'" "entry (the_disk w') = None"
    "n \<le> clock w \<Longrightarrow> entry (the_disk w) \<noteq> None"
    using round_again [OF r] s by (simp_all add: at_rest_def)
  then show "at_rest n w' \<and> rounds_left n w' < rounds_left n w"
    using s by (auto simp: at_rest_def rounds_left_def)
qed


section \<open>Without interference\<close>

text \<open>The outcome as a function of what the disk holds.\<close>

definition take_outcome :: "disk \<Rightarrow> int" where
  "take_outcome d =
     (if \<not> may_create d \<or> write_room d < HDBHeaderLen then LockKo else LockOk)"

definition lock_outcome :: "abi \<Rightarrow> int \<Rightarrow> disk \<Rightarrow> int" where
  "lock_outcome a pid d =
     (case entry d of
        None \<Rightarrow> take_outcome d
      | Some i \<Rightarrow>
          if \<not> may_read d \<or> inodes d i = [] then LockKo
          else if holder a d = Some pid then LockOk
          else if holder a d = Some 0 \<or> the (holder a d) \<notin> alive d then
            (if may_unlink d then take_outcome d else LockKo)
          else Locked)"

lemma lock_codes: "LockOk \<noteq> Locked" "LockOk \<noteq> LockKo" "Locked \<noteq> LockKo"
  by (simp_all add: LockOk_def Locked_def LockKo_def)

lemma alone_frame:
  assumes "alone w"
  shows "others_act w = w\<lparr>clock := clock w + 1\<rparr>"
  using assms by (cases w) (simp add: alone_def others_act_def)

text \<open>What the calls do when nobody interferes.\<close>

lemma alone_calls:
  assumes "alone w"
  shows "entry (the_disk w) = Some i \<Longrightarrow> disk_create w = (CreateExists, w\<lparr>clock := clock w + 1\<rparr>)"
    and "entry (the_disk w) = None \<Longrightarrow> \<not> may_create (the_disk w) \<Longrightarrow>
      disk_create w = (CreateFailed, w\<lparr>clock := clock w + 1\<rparr>)"
    and "entry (the_disk w) = Some i \<Longrightarrow> disk_open w =
      (if may_read (the_disk w) then (True, w\<lparr>clock := clock w + 1, lock_fd := i\<rparr>)
       else (False, w\<lparr>clock := clock w + 1\<rparr>))"
    and "disk_read k w = (ReadData (inodes (the_disk w) (lock_fd w)), w\<lparr>clock := clock w + 1\<rparr>)"
    and "disk_kill p w = (if p \<notin> alive (the_disk w) then NoSuchProcess
      else if p \<in> may_signal (the_disk w) then KillPermitted else KillRefused,
      w\<lparr>clock := clock w + 1\<rparr>)"
    and "entry (the_disk w) = Some i \<Longrightarrow> disk_unlink w =
      (if may_unlink (the_disk w)
       then (True, w\<lparr>clock := clock w + 1, the_disk := (the_disk w)\<lparr>entry := None\<rparr>\<rparr>)
       else (False, w\<lparr>clock := clock w + 1\<rparr>))"
  by (simp_all add: disk_create_def disk_open_def disk_read_def disk_kill_def disk_unlink_def
      alone_frame [OF assms])

lemma alone_later [simp]: "alone w \<Longrightarrow> clock w \<le> c \<Longrightarrow> alone (w\<lparr>clock := c\<rparr>)"
  by (simp add: alone_def)

lemma alone_updates [simp]:
  "alone (w\<lparr>lock_fd := i\<rparr>) = alone w"
  "alone (w\<lparr>the_disk := d\<rparr>) = alone w" "alone (w\<lparr>log_lines := ls\<rparr>) = alone w"
  by (simp_all add: alone_def)

text \<open>One round, alone: it goes round again only to a disk without the file.\<close>

definition round_alone_ok :: "abi \<Rightarrow> int \<Rightarrow> disk \<Rightarrow> lock_world round \<Rightarrow> bool" where
  "round_alone_ok a pid d r =
     (case r of
        Leave w1 \<Rightarrow> False
      | Result x w1 \<Rightarrow> alone w1 \<and> the_disk w1 = d \<and> x = lock_outcome a pid d \<and>
          (x = LockOk \<longrightarrow> holder a d = Some pid)
      | Again_lock w1 \<Rightarrow> alone w1 \<and> the_disk w1 = d\<lparr>entry := None\<rparr> \<and>
          lock_outcome a pid d = take_outcome d \<and> holder a d \<noteq> Some pid)"

lemma read_nothing: "read_result (ReadData bs) HDBHeaderLen \<le> 0 \<longleftrightarrow> bs = []"
  by (cases bs) (auto simp: read_result_def HDBHeaderLen_def)

lemma read_lock_alone:
  assumes "alone w" and "entry (the_disk w) = Some (lock_fd w)" and "may_read (the_disk w)"
  shows "round_alone_ok a pid (the_disk w) (read_lock a disk_calls f pid w)"
proof -
  define bs where "bs = inodes (the_disk w) (lock_fd w)"
  define h where "h = atoi a (take HDBHeaderLen bs)"
  have h: "holder a (the_disk w) = Some h"
    using assms(2) by (simp add: holder_def h_def bs_def)
  show ?thesis
    using assms(1,2,3) lock_codes
    by (simp add: read_lock_def stale_pid_def log_line_def disk_calls_def alone_calls read_nothing
        read_bytes_def round_alone_ok_def lock_outcome_def h Let_def
        flip: bs_def h_def)
qed

lemma round_alone_Some:
  assumes "alone w" and "entry (the_disk w) = Some i"
  shows "round_alone_ok a pid (the_disk w) (lock_round a disk_calls f pid w)"
proof -
  define w2 where "w2 = w\<lparr>clock := clock w + 2, lock_fd := i\<rparr>"
  have "may_read (the_disk w) \<Longrightarrow>
      lock_round a disk_calls f pid w = read_lock a disk_calls f pid w2"
    using assms by (simp add: lock_round_def disk_calls_def alone_calls w2_def)
  moreover have "may_read (the_disk w) \<Longrightarrow>
      round_alone_ok a pid (the_disk w2) (read_lock a disk_calls f pid w2)"
    using assms by (intro read_lock_alone) (simp_all add: w2_def)
  moreover have "\<not> may_read (the_disk w) \<Longrightarrow> ?thesis"
    using assms lock_codes
    by (simp add: lock_round_def disk_calls_def alone_calls log_line_def round_alone_ok_def
        lock_outcome_def)
  moreover have "the_disk w2 = the_disk w"
    by (simp add: w2_def)
  ultimately show ?thesis
    by (cases "may_read (the_disk w)") simp_all
qed

text \<open>What the calls never change: permissions, room, and who is alive.\<close>

definition same_rights :: "disk \<Rightarrow> disk \<Rightarrow> bool" where
  "same_rights d d' \<longleftrightarrow> alive d' = alive d \<and> may_create d' = may_create d \<and>
     may_read d' = may_read d \<and> may_unlink d' = may_unlink d \<and> write_room d' = write_room d"

text \<open>The end of an attempt that is not disturbed.\<close>

definition lock_ends :: "abi \<Rightarrow> int \<Rightarrow> disk \<Rightarrow> (int \<times> lock_world) option \<Rightarrow> bool" where
  "lock_ends a pid d r \<longleftrightarrow>
     (\<exists>w'. r = Some (lock_outcome a pid d, w') \<and> alone w' \<and> same_rights d (the_disk w') \<and>
       (lock_outcome a pid d = LockOk \<longrightarrow> holder a (the_disk w') = Some pid) \<and>
       (lock_outcome a pid d = Locked \<or> holder a d = Some pid \<longrightarrow> the_disk w' = d))"

lemma take_alone:
  assumes "alone w" and "entry (the_disk w) = None" and "0 < pid" and "pid < 2 ^ 31"
  shows "lock_ends a pid (the_disk w) (HDBLockFile a disk_calls f pid w)"
proof -
  have len: "length (hdb_header pid) = 11"
    using hdb_header_pid(1) assms(3,4) by (simp add: HDBHeaderLen_def)
  have full: "min k 11 = 11 \<longleftrightarrow> \<not> k < 11" "\<not> k < 11 \<Longrightarrow> min 11 k = 11" for k :: nat
    by auto
  have "atoi a (hdb_header pid) = pid"
    using assms(3,4) by (rule hdb_header_pid)
  then show ?thesis
    using assms(1,2) lock_codes
    by (subst HDBLockFile.simps)
      (auto simp: lock_ends_def lock_outcome_def same_rights_def lock_round_def disk_calls_def
        disk_create_def alone_frame fill_lock_def log_line_def disk_write_def disk_unlink_def
        Let_def take_outcome_def write_result_def HDBHeaderLen_def holder_def len full)
qed

lemma lock_alone:
  assumes "alone w" and "0 < pid" and "pid < 2 ^ 31"
  shows "lock_ends a pid (the_disk w) (HDBLockFile a disk_calls f pid w)"
proof (cases "entry (the_disk w)")
  case None
  then show ?thesis
    using assms by (intro take_alone)
next
  case (Some i)
  then have ok: "round_alone_ok a pid (the_disk w) (lock_round a disk_calls f pid w)"
    using assms(1) by (intro round_alone_Some)
  show ?thesis
  proof (cases "lock_round a disk_calls f pid w")
    case (Again_lock w1)
    define d where "d = the_disk w"
    with ok Again_lock have w1: "alone w1" "the_disk w1 = d\<lparr>entry := None\<rparr>"
      "lock_outcome a pid d = take_outcome d" "holder a d \<noteq> Some pid"
      by (simp_all add: round_alone_ok_def)
    then have "lock_outcome a pid (the_disk w1) = take_outcome d" "take_outcome d \<noteq> Locked"
      using lock_codes by (simp_all add: lock_outcome_def take_outcome_def)
    then have "lock_ends a pid d (HDBLockFile a disk_calls f pid w1)"
      using take_alone [OF w1(1) _ assms(2,3), of a f] w1
      by (auto simp: lock_ends_def same_rights_def)
    then show ?thesis
      using Again_lock by (subst HDBLockFile.simps) (simp add: d_def)
  qed (use ok in \<open>subst HDBLockFile.simps;
      simp add: round_alone_ok_def lock_ends_def same_rights_def\<close>)+
qed

text \<open>
  Alone, taking the lock has the outcome \<open>lock_outcome\<close> reads off the disk: an unreadable or empty
  file and a failed creation or write are failures, the pid of a living process means locked, one's own
  pid and a file that has been created mean success, and then the file holds one's own pid. If the file
  is another's, nothing on the disk changes.
\<close>

theorem lock_outcome_alone:
  assumes "alone w" and "0 < pid" and "pid < 2 ^ 31"
  shows "\<exists>w'. HDBLockFile a disk_calls f pid w = Some (lock_outcome a pid (the_disk w), w') \<and>
    (lock_outcome a pid (the_disk w) = LockOk \<longrightarrow> holder a (the_disk w') = Some pid) \<and>
    (lock_outcome a pid (the_disk w) = Locked \<longrightarrow> the_disk w' = the_disk w)"
  using lock_alone [OF assms, of a f] by (auto simp: lock_ends_def)

lemma atoi_Nil: "atoi a [] = 0"
  by (cases a) (simp_all add: atoi_def strtol10_def)

lemma held_outcome:
  assumes "holder a d = Some p" and "p \<noteq> 0"
  shows "lock_outcome a p d = (if may_read d then LockOk else LockKo)"
    and "p \<in> alive d \<Longrightarrow> q \<noteq> p \<Longrightarrow> lock_outcome a q d = (if may_read d then Locked else LockKo)"
proof -
  obtain i where i: "entry d = Some i"
    using assms(1) by (auto simp: holder_def)
  then have "inodes d i \<noteq> []"
    using assms by (auto simp: holder_def atoi_Nil)
  then show "lock_outcome a p d = (if may_read d then LockOk else LockKo)"
    and "p \<in> alive d \<Longrightarrow> q \<noteq> p \<Longrightarrow> lock_outcome a q d = (if may_read d then Locked else LockKo)"
    using assms i by (auto simp: lock_outcome_def)
qed

text \<open>Giving the lock back, alone.\<close>

lemma unlock_alone:
  assumes "alone w" and "0 < pid" and "pid < 2 ^ 31"
  shows "\<exists>w1 w'. HDBLockFile a disk_calls f pid w = Some (lock_outcome a pid (the_disk w), w1) \<and>
    HDBUnlockFile a disk_calls f pid w = Some w' \<and>
    the_disk w' = (if lock_outcome a pid (the_disk w) = LockOk \<and> may_unlink (the_disk w)
      then (the_disk w1)\<lparr>entry := None\<rparr> else the_disk w1)"
proof -
  obtain w1 where w1: "HDBLockFile a disk_calls f pid w = Some (lock_outcome a pid (the_disk w), w1)"
      "alone w1" "same_rights (the_disk w) (the_disk w1)"
      "lock_outcome a pid (the_disk w) = LockOk \<Longrightarrow> holder a (the_disk w1) = Some pid"
    using lock_alone [OF assms, of a f] by (auto simp: lock_ends_def)
  then show ?thesis
    by (auto simp: HDBUnlockFile_def disk_calls_def alone_calls(6) log_line_def holder_def
        same_rights_def)
qed


text \<open>A world in which nothing has been called yet.\<close>

definition lock_start :: "disk \<Rightarrow> (nat \<Rightarrow> disk \<Rightarrow> disk) \<Rightarrow> lock_world" where
  "lock_start d os = \<lparr>lock_fd = 0, the_disk = d, clock = 0, others = os, log_lines = []\<rparr>"

definition empty_disk :: "int set \<Rightarrow> disk" where
  "empty_disk P = \<lparr>entry = None, inodes = (\<lambda>i. []), next_inode = 0, alive = P,
     may_signal = {}, may_create = True, may_read = True, may_unlink = True, write_room = 4096\<rparr>"

lemma alone_start [simp]: "alone (lock_start d (\<lambda>i. id))"
  by (simp add: alone_def lock_start_def)

lemma start_disk [simp]: "the_disk (lock_start d os) = d"
  by (simp add: lock_start_def)

text \<open>
  C40. The scheme does not exclude when a stale file is found by two processes at once: if the second
  one takes the lock between the first one's test and its removal of the stale file, the first one
  removes the second one's lock, and both are told that they have it.
\<close>

theorem stale_lock_taken_twice:
  assumes "entry d = Some i" and "holder a d = Some x" and "x \<noteq> 0" and "x \<notin> alive d"
    and "may_create d" and "may_read d" and "may_unlink d" and "11 \<le> write_room d"
    and "0 < p" and "p < 2 ^ 31" and "0 < q" and "q < 2 ^ 31" and "x \<noteq> p" and "x \<noteq> q"
  shows "\<exists>wq wp. HDBLockFile a disk_calls f q (lock_start d (\<lambda>i. id)) = Some (LockOk, wq) \<and>
    holder a (the_disk wq) = Some q \<and>
    HDBLockFile a disk_calls f p (lock_start d (\<lambda>i. if i = 4 then (\<lambda>d. the_disk wq) else id)) =
      Some (LockOk, wp) \<and> holder a (the_disk wp) = Some p"
proof -
  have i: "inodes d i \<noteq> []" "atoi a (take HDBHeaderLen (inodes d i)) = x"
    using assms(1-3) by (auto simp: holder_def atoi_Nil)
  have "lock_outcome a q d = LockOk"
    using assms i by (simp add: lock_outcome_def take_outcome_def HDBHeaderLen_def)
  then obtain wq where wq: "HDBLockFile a disk_calls f q (lock_start d (\<lambda>i. id)) = Some (LockOk, wq)"
      "same_rights d (the_disk wq)" "holder a (the_disk wq) = Some q"
    using lock_alone [OF alone_start assms(11,12), of a d f] by (auto simp: lock_ends_def)
  define os where "os = (\<lambda>i :: nat. if i = 4 then (\<lambda>d :: disk. the_disk wq) else id)"
  have there: "entry (the_disk wq) \<noteq> None" "may_unlink (the_disk wq)"
    using wq(2,3) assms(7) by (auto simp: holder_def same_rights_def)
  obtain w1 where w1: "lock_round a disk_calls f p (lock_start d os) = Again_lock w1"
      "clock w1 = 5" "others w1 = os" "the_disk w1 = (the_disk wq)\<lparr>entry := None\<rparr>"
    using assms(1,3,4,6,13) there i
    by (simp add: lock_round_def read_lock_def stale_pid_def log_line_def disk_calls_def
        disk_create_def disk_open_def disk_read_def disk_kill_def disk_unlink_def others_act_def
        lock_start_def os_def read_nothing read_bytes_def Let_def)
  then have rest: "alone w1" "entry (the_disk w1) = None" "take_outcome (the_disk w1) = LockOk"
    using wq(2) assms(5,8)
    by (auto simp: alone_def os_def same_rights_def take_outcome_def HDBHeaderLen_def)
  then have "lock_outcome a p (the_disk w1) = LockOk"
    by (simp add: lock_outcome_def)
  then obtain wp where "HDBLockFile a disk_calls f p w1 = Some (LockOk, wp)"
      "holder a (the_disk wp) = Some p"
    using take_alone [OF rest(1,2) assms(9,10), of a f] by (auto simp: lock_ends_def)
  then have "HDBLockFile a disk_calls f p (lock_start d os) = Some (LockOk, wp)"
      "holder a (the_disk wp) = Some p"
    using w1(1) by (simp_all add: HDBLockFile.simps [of a disk_calls f p "lock_start d os"])
  then show ?thesis
    using wq unfolding os_def by blast
qed


lemma empty_disk_simps [simp]:
  "alive (empty_disk P) = P" "may_read (empty_disk P)" "may_unlink (empty_disk P)"
  by (simp_all add: empty_disk_def)

lemma empty_outcome: "lock_outcome a p (empty_disk P) = LockOk"
  by (simp add: lock_outcome_def take_outcome_def empty_disk_def HDBHeaderLen_def)

theorem lock_outcome_alone_witness:
  "\<exists>w'. HDBLockFile ILP32 disk_calls ''LCK'' 5 (lock_start (empty_disk {5}) (\<lambda>i. id)) =
     Some (LockOk, w') \<and> holder ILP32 (the_disk w') = Some 5"
  using lock_outcome_alone [OF alone_start, of 5 ILP32 "''LCK''" "empty_disk {5}"]
  by (auto simp: empty_outcome)


definition stale_disk :: disk where
  "stale_disk = (empty_disk {5, 6})\<lparr>entry := Some 0, inodes := (\<lambda>i. hdb_header 77),
     next_inode := 1\<rparr>"

lemma stale_disk_holder: "holder a stale_disk = Some 77"
  using hdb_header_pid(1) [of 77] hdb_header_pid(2) [of 77 a] by (simp add: stale_disk_def holder_def HDBHeaderLen_def)

theorem stale_lock_taken_twice_witness:
  "\<exists>wq wp. HDBLockFile LP64 disk_calls ''LCK'' 6 (lock_start stale_disk (\<lambda>i. id)) =
     Some (LockOk, wq) \<and>
    HDBLockFile LP64 disk_calls ''LCK'' 5
      (lock_start stale_disk (\<lambda>i. if i = 4 then (\<lambda>d. the_disk wq) else id)) = Some (LockOk, wp)"
  using stale_lock_taken_twice [of stale_disk 0 LP64 77 5 6 "''LCK''"] stale_disk_holder [of LP64]
  by (auto simp: stale_disk_def empty_disk_def)

section \<open>A lock that is never obtained\<close>

text \<open>
  A process that puts a stale file back whenever there is none keeps the loop going for ever: the
  assumption of \<open>lock_file_returns\<close> that the others come to rest is needed.
\<close>

definition put_stale_back :: "nat \<Rightarrow> disk \<Rightarrow> disk" where
  "put_stale_back i d =
     (if entry d = None then d\<lparr>entry := Some 0, inodes := (inodes d)(0 := hdb_header 77)\<rparr> else d)"

definition kept_stale :: "abi \<Rightarrow> lock_world \<Rightarrow> bool" where
  "kept_stale a w \<longleftrightarrow> others w = put_stale_back \<and> may_read (the_disk w) \<and>
     may_unlink (the_disk w) \<and> 77 \<notin> alive (the_disk w) \<and> holder a (the_disk w) \<in> {None, Some 77}"

lemma kept_stale_act:
  assumes "kept_stale a w"
  shows "kept_stale a (others_act w)" and "holder a (the_disk (others_act w)) = Some 77"
  using assms hdb_header_pid(1) [of 77] hdb_header_pid(2) [of 77 a]
  by (auto simp: kept_stale_def others_act_def put_stale_back_def holder_def HDBHeaderLen_def)

lemma kept_stale_round:
  assumes "kept_stale a w" and "pid \<noteq> 77"
  shows "\<exists>w'. lock_round a disk_calls f pid w = Again_lock w' \<and> kept_stale a w'"
proof -
  define w1 where "w1 = others_act w"
  obtain i where w1: "kept_stale a w1" "entry (the_disk w1) = Some i"
      "atoi a (take HDBHeaderLen (inodes (the_disk w1) i)) = 77"
    using kept_stale_act [OF assms(1)] by (auto simp: w1_def holder_def)
  have settle: "others_act v = v\<lparr>clock := clock v + 1\<rparr>"
    if "others v = put_stale_back" "entry (the_disk v) = Some i" for v
    using that by (simp add: others_act_def put_stale_back_def)
  have "inodes (the_disk w1) i \<noteq> []"
    using w1(3) by (auto simp: atoi_Nil)
  then show ?thesis
    using w1 assms(2)
    by (simp add: lock_round_def read_lock_def stale_pid_def log_line_def disk_calls_def
        disk_create_def disk_open_def disk_read_def disk_kill_def disk_unlink_def settle
        read_nothing read_bytes_def Let_def kept_stale_def holder_def flip: w1_def)
qed

lemma lock_loops_for_ever:
  assumes "kept_stale a w" and "pid \<noteq> 77"
  shows "HDBLockFile a disk_calls f pid w = None"
proof -
  have "\<not> (S = disk_calls \<and> p \<noteq> 77 \<and> kept_stale b v)" if "HDBLockFile b S f p v = Some y"
    for b S f p v y
  proof (rule HDBLockFile.raw_induct [OF _ that])
    fix loop :: "abi \<Rightarrow> lock_world lock_calls \<Rightarrow> string \<Rightarrow> int \<Rightarrow> lock_world \<Rightarrow> (int \<times> lock_world) option"
      and b S f p v y
    assume IH: "\<And>b S f p v y. loop b S f p v = Some y \<Longrightarrow>
        \<not> (S = disk_calls \<and> p \<noteq> 77 \<and> kept_stale b v)"
      and body: "(case lock_round b S f p v of Leave w1 \<Rightarrow> Some (fill_lock S f p w1)
        | Result r w1 \<Rightarrow> Some (r, w1) | Again_lock w1 \<Rightarrow> loop b S f p w1) = Some y"
    show "\<not> (S = disk_calls \<and> p \<noteq> 77 \<and> kept_stale b v)"
      using kept_stale_round [of b v p f] IH [of b S f p] body by fastforce
  qed
  then show ?thesis
    using assms by (cases "HDBLockFile a disk_calls f pid w") blast+
qed

section \<open>The port with its lock\<close>

text \<open>
  \<open>OpenPort\<close> and \<open>ClosePort\<close> where the platform is not Android. The process is \<open>LockPid\<close>, the value of
  \<open>getpid\<close>.
\<close>

definition OpenPort_locked ::
  "abi \<Rightarrow> 'f lock_calls \<Rightarrow> string \<Rightarrow> int \<Rightarrow> 'p tty \<Rightarrow> int \<Rightarrow> 'f \<Rightarrow> 'p sercd \<Rightarrow>
    (bool \<times> 'f \<times> 'p sercd) option" where
  "OpenPort_locked a S LockFileName LockPid T fd w s =
     Option.bind (HDBLockFile a S LockFileName LockPid w) (\<lambda>(r, w1).
       Some (if r \<noteq> LockOk then
          (False, log_line S LOG_NOTICE (''Unable to lock '' @ LockFileName @ ''. Exiting.'') w1, s)
        else
          (let w2 = log_line S LOG_INFO (''Device '' @ map (\<lambda>b. char_of (unat b)) (c_str (DeviceName s)) @
                 '' locked.'') w1;
               (ok, s1) = OpenPort T fd s
           in (ok, w2, s1))))"

definition ClosePort_locked ::
  "abi \<Rightarrow> 'f lock_calls \<Rightarrow> string \<Rightarrow> int \<Rightarrow> 'p tty \<Rightarrow> int \<Rightarrow> 'f \<Rightarrow> 'p sercd \<Rightarrow>
    ('f \<times> 'p sercd) option" where
  "ClosePort_locked a S LockFileName LockPid T fd w s =
     (let s1 = ClosePort T fd s
      in Option.bind (HDBUnlockFile a S LockFileName LockPid w) (\<lambda>w1. Some (w1, s1)))"

lemma log_line_disk [simp]:
  "the_disk (log_line disk_calls l t w) = the_disk w" "alone (log_line disk_calls l t w) = alone w"
  by (simp_all add: log_line_def disk_calls_def)

text \<open>
  C31. While another living process has the lock, the port is not touched. A port that is free is
  opened with the lock held, and closing it takes the lock file away and puts the port's settings back;
  if the device cannot be opened, the lock stays behind.
\<close>

theorem port_opened_under_lock:
  assumes "tty_faithful T" and "alone w" and "0 < pid" and "pid < 2 ^ 31"
    and "may_read (the_disk w)" and "may_unlink (the_disk w)"
  shows "(lock_outcome a pid (the_disk w) = Locked \<longrightarrow>
      (\<exists>w1. OpenPort_locked a disk_calls f pid T fd w s = Some (False, w1, s) \<and>
        the_disk w1 = the_disk w)) \<and>
    (lock_outcome a pid (the_disk w) = LockOk \<longrightarrow>
      (\<exists>w1 s1. OpenPort_locked a disk_calls f pid T fd w s = Some (fd \<noteq> -1, w1, s1) \<and>
        holder a (the_disk w1) = Some pid \<and>
        (fd \<noteq> -1 \<longrightarrow> (\<exists>w2 s2. ClosePort_locked a disk_calls f pid T fd w1 s1 = Some (w2, s2) \<and>
          entry (the_disk w2) = None \<and> tcgetattr T (port s2) = tcgetattr T (port s)))))"
proof -
  define d where "d = the_disk w"
  obtain w1 where w1: "HDBLockFile a disk_calls f pid w = Some (lock_outcome a pid d, w1)"
      "alone w1" "same_rights d (the_disk w1)" "lock_outcome a pid d = Locked \<Longrightarrow> the_disk w1 = d"
      "lock_outcome a pid d = LockOk \<Longrightarrow> holder a (the_disk w1) = Some pid"
    using lock_alone [OF assms(2-4), of a f] by (auto simp: lock_ends_def d_def)
  have busy: "\<exists>w1. OpenPort_locked a disk_calls f pid T fd w s = Some (False, w1, s) \<and> the_disk w1 = d"
    if "lock_outcome a pid d = Locked"
    using w1(1,4) that lock_codes by (simp add: OpenPort_locked_def)
  define w2 where "w2 = log_line disk_calls LOG_INFO
    (''Device '' @ map (\<lambda>b. char_of (unat b)) (c_str (DeviceName s)) @ '' locked.'') w1"
  have close: "\<exists>w3. HDBUnlockFile a disk_calls f pid w2 = Some w3 \<and> entry (the_disk w3) = None"
    if "lock_outcome a pid d = LockOk"
  proof -
    have w2: "alone w2" "the_disk w2 = the_disk w1"
      using w1(2) by (simp_all add: w2_def)
    have "lock_outcome a pid (the_disk w2) = LockOk" "may_unlink (the_disk w2)"
      using held_outcome(1) [OF w1(5) [OF that]] w1(3) w2(2) assms(3,5,6)
      by (simp_all add: same_rights_def d_def)
    then show ?thesis
      using unlock_alone [OF w2(1) assms(3,4), of a f] by auto
  qed
  obtain ok s1 where s1: "OpenPort T fd s = (ok, s1)"
    by (cases "OpenPort T fd s")
  then have ok: "ok \<longleftrightarrow> fd \<noteq> -1"
    by (simp add: OpenPort_def Let_def split: if_splits)
  have opened: "OpenPort_locked a disk_calls f pid T fd w s = Some (fd \<noteq> -1, w2, s1)"
    if "lock_outcome a pid d = LockOk"
    using w1(1) that s1 ok by (simp add: OpenPort_locked_def w2_def)
  have restored: "tcgetattr T (port (ClosePort T fd s1)) = tcgetattr T (port s)" if "fd \<noteq> -1"
    using port_restored [OF assms(1), of fd s s1 s1] s1 ok that by simp
  show ?thesis
    using busy opened close restored w1(5)
    by (auto simp: ClosePort_locked_def w2_def simp flip: d_def)
qed

theorem port_opened_under_lock_witness:
  "\<exists>w1 s1. OpenPort_locked LP64 disk_calls ''LCK'' 5 mem_tty 7
      (lock_start (empty_disk {5}) (\<lambda>i. id)) (fresh_sercd LP64 sample_port) = Some (True, w1, s1) \<and>
    holder LP64 (the_disk w1) = Some 5"
  using port_opened_under_lock [OF mem_tty_faithful alone_start, of 5 "empty_disk {5}" LP64 "''LCK''" 7 "fresh_sercd LP64 sample_port"]
  by (auto simp: empty_outcome)

end
