(* ===== verification/Command_Log.thy ===== *)
theory Command_Log
  imports Hdb_Lock Command_Replies
begin

text \<open>
  What is logged while the port is set (\<open>unix.c\<close> lines 317 to 567), while a command is handled
  (\<open>sercd.c\<close> lines 694 to 1099) and while a byte is received (lines 469 to 611): for each operation the
  lines it gives to the log, in their order, beside the definition of what it does. A line that comes
  after a call is logged only if that call returns.
\<close>

section \<open>Lines\<close>

type_synonym line = "priority option \<times> string"

definition TmpStrLen :: nat where
  "TmpStrLen = 255"

text \<open>
  \<open>snprintf (LogStr, sizeof (LogStr), ...)\<close> keeps one character less than the array has, and the
  terminator is set once more before \<open>LogMsg\<close>.
\<close>

definition LogStr :: "int \<Rightarrow> string \<Rightarrow> line list" where
  "LogStr level text = LogMsg level (take (TmpStrLen - 1) text)"

text \<open>The characters \<open>%s\<close> prints.\<close>

definition c_text :: "byte list \<Rightarrow> string" where
  "c_text bs = map (\<lambda>b. char_of (unat b)) (c_str bs)"

text \<open>What is logged after an operation that may end in a fault.\<close>

definition then_log :: "'e + 'a \<Rightarrow> ('a \<Rightarrow> line list) \<Rightarrow> line list" where
  "then_log r f = (case r of Inl e \<Rightarrow> [] | Inr x \<Rightarrow> f x)"

lemma then_log_simps [simp]: "then_log (Inl e) f = []" "then_log (Inr x) f = f x"
  by (simp_all add: then_log_def)

section \<open>Reading and setting the port\<close>

definition GetPortSpeed_log :: "'p tty \<Rightarrow> 'p \<Rightarrow> line list" where
  "GetPortSpeed_log T p = Termios2TncomSpeed_log (tcgetattr T p)"

definition SetPortDataSize_log :: "'p tty \<Rightarrow> byte \<Rightarrow> 'p \<Rightarrow> line list" where
  "SetPortDataSize_log T DataSize p = UnixLogPortSettings (edit_data_size DataSize (tcgetattr T p))"

definition SetPortParity_log :: "'p tty \<Rightarrow> byte \<Rightarrow> 'p \<Rightarrow> line list" where
  "SetPortParity_log T Parity p =
     (if Parity \<in> {TNCOM_NOPARITY, TNCOM_ODDPARITY, TNCOM_EVENPARITY} then []
      else LogMsg LOG_WARNING ''Requested unsupported parity, set to no parity.'') @
     UnixLogPortSettings (edit_parity Parity (tcgetattr T p))"

definition SetPortStopSize_log :: "'p tty \<Rightarrow> byte \<Rightarrow> 'p \<Rightarrow> line list" where
  "SetPortStopSize_log T StopSize p =
     (if StopSize = TNCOM_ONE5STOPBITS
      then LogMsg LOG_WARNING ''Requested unsupported 1.5 bits stop size, set to 1 bit stop size.''
      else []) @
     UnixLogPortSettings (edit_stop_size StopSize (tcgetattr T p))"

definition SetPortFlowControl_log :: "'p tty \<Rightarrow> byte \<Rightarrow> 'p \<Rightarrow> line list" where
  "SetPortFlowControl_log T How p =
     (if How \<in> {TNCOM_CMD_FLOW_NONE, TNCOM_CMD_FLOW_XONXOFF, TNCOM_CMD_FLOW_HARDWARE,
         TNCOM_CMD_DTR_ON, TNCOM_CMD_DTR_OFF, TNCOM_CMD_RTS_ON, TNCOM_CMD_RTS_OFF} then []
      else if How \<in> {TNCOM_CMD_INFLOW_NONE, TNCOM_CMD_INFLOW_XONXOFF, TNCOM_CMD_INFLOW_HARDWARE}
      then LogMsg LOG_WARNING ''Inbound flow control ignored.''
      else if How = TNCOM_CMD_FLOW_DCD then LogMsg LOG_WARNING ''DCD Flow Control ignored.''
      else if How = TNCOM_CMD_INFLOW_DTR then LogMsg LOG_WARNING ''DTR Flow Control ignored.''
      else if How = TNCOM_CMD_FLOW_DSR then LogMsg LOG_WARNING ''DSR Flow Control ignored.''
      else LogMsg LOG_WARNING ''Requested invalid flow control.'') @
     UnixLogPortSettings (edit_flow How (tcgetattr T p))"

definition SetPortSpeed_log :: "'p tty \<Rightarrow> ulong \<Rightarrow> 'p \<Rightarrow> line list" where
  "SetPortSpeed_log T BaudRate p =
     (if BaudRate \<in> set supported_speeds then []
      else LogMsg LOG_WARNING ''Unknwon baud rate requested, setting to 9600.'') @
     UnixLogPortSettings (edit_speed BaudRate (tcgetattr T p))"

section \<open>Com Port Control\<close>

definition HandleSetControl_log :: "'p tty \<Rightarrow> byte \<Rightarrow> 'p sercd \<Rightarrow> line list" where
  "HandleSetControl_log T c s =
     (if c = TNCOM_CMD_FLOW_REQ \<or> c = TNCOM_CMD_DTR_REQ \<or> c = TNCOM_CMD_RTS_REQ \<or>
         c = TNCOM_CMD_INFLOW_REQ then
        (let FlowControl = GetPortFlowControl T (port s) c
         in LogMsg LOG_DEBUG ''Flow control notification requested.'' @
            then_log (SendCPCByteCommand TNASC_SET_CONTROL FlowControl s) (\<lambda>s1.
              LogStr LOG_DEBUG (''Port flow control: '' @ decimal (unat FlowControl))))
      else if c = TNCOM_CMD_BREAK_REQ then []
      else if c = TNCOM_CMD_BREAK_ON then LogMsg LOG_DEBUG ''Break Signal ON.''
      else if c = TNCOM_CMD_BREAK_OFF then LogMsg LOG_DEBUG ''Break Signal OFF.''
      else
        (let s1 = set_port (SetPortFlowControl T c) s;
             FlowControl =
               (if CiscoIOSCompatible s1 \<and> TNCOM_CMD_INFLOW_REQ \<le> c \<and>
                   c \<le> TNCOM_CMD_INFLOW_HARDWARE then 0
                else GetPortFlowControl T (port s1) TNCOM_CMD_FLOW_REQ)
         in LogStr LOG_DEBUG (''Port flow control change to '' @ decimal (unat c) @ '' requested.'') @
            SetPortFlowControl_log T c (port s) @
            then_log (SendCPCByteCommand TNASC_SET_CONTROL FlowControl s1) (\<lambda>s2.
              LogStr LOG_DEBUG (''Port flow control: '' @ decimal (unat FlowControl)))))"

definition HandleMasksAndFlow_log :: "(nat \<Rightarrow> byte) \<Rightarrow> line list" where
  "HandleMasksAndFlow_log Command =
     (if Command 3 = TNCAS_SET_LINESTATE_MASK
      then LogStr LOG_DEBUG (''Line state set to '' @ decimal (unat (Command 4)))
      else if Command 3 = TNCAS_SET_MODEMSTATE_MASK
      then LogStr LOG_DEBUG (''Modem state mask set to '' @ decimal (unat (Command 4)))
      else if Command 3 = TNCAS_PURGE_DATA
      then LogStr LOG_DEBUG (''Port flush '' @ decimal (unat (Command 4)) @ '' requested.'')
      else if Command 3 = TNCAS_FLOWCONTROL_SUSPEND
      then LogMsg LOG_DEBUG ''Flow control suspend requested.''
      else if Command 3 = TNCAS_FLOWCONTROL_RESUME
      then LogMsg LOG_DEBUG ''Flow control resume requested.''
      else LogStr LOG_DEBUG (''Unhandled request '' @ decimal (unat (Command 3))))"

text \<open>
  The line on the client's signature is formatted with \<open>sizeof (LogStr) - 1\<close>, one character less than
  the others.
\<close>

definition HandleSignature_log :: "(nat \<Rightarrow> byte) \<Rightarrow> nat \<Rightarrow> 'p sercd \<Rightarrow> line list" where
  "HandleSignature_log Command CSize s =
     (if CSize = 6 then
        then_log (SendSignature (server_signature s) s) (\<lambda>s1.
          LogStr LOG_INFO (''Sent signature: '' @ c_text (server_signature s)))
      else
        then_log (client_signature (sizeof_long s) Command CSize) (\<lambda>SigStr.
          LogMsg LOG_INFO (take (TmpStrLen - 2) (''Received client signature: '' @ c_text SigStr))))"

definition HandleSetBaudRate_log ::
  "'p tty \<Rightarrow> (nat \<Rightarrow> byte) \<Rightarrow> 'p sercd \<Rightarrow> line list" where
  "HandleSetBaudRate_log T Command s =
     (let BaudRate = ucast (ntohl (ucast (load_ulong (sizeof_long s) Command 4))) :: ulong;
          s1 = (if BaudRate = 0 then s else set_port (SetPortSpeed T BaudRate) s)
      in (if BaudRate = 0 then LogMsg LOG_DEBUG ''Baud rate notification received.''
          else LogStr LOG_DEBUG
              (''Port baud rate change to '' @ decimal (unat BaudRate) @ '' requested.'') @
            SetPortSpeed_log T BaudRate (port s)) @
         GetPortSpeed_log T (port s1) @
         then_log (SendBaudRate (GetPortSpeed T (port s1)) s1) (\<lambda>s2.
           LogStr LOG_DEBUG (''Port baud rate: '' @ decimal (unat (GetPortSpeed T (port s1))))))"

definition HandleCPCCommand_log ::
  "'p tty \<Rightarrow> (nat \<Rightarrow> byte) \<Rightarrow> nat \<Rightarrow> 'p sercd \<Rightarrow> line list" where
  "HandleCPCCommand_log T Command CSize s =
     (if Command 3 = TNCAS_SIGNATURE then HandleSignature_log Command CSize s
      else if Command 3 = TNCAS_SET_BAUDRATE then HandleSetBaudRate_log T Command s
      else if Command 3 = TNCAS_SET_DATASIZE then
        (let s1 = (if Command 4 = 0 then s else set_port (SetPortDataSize T (Command 4)) s);
             DataSize = GetPortDataSize T (port s1)
         in (if Command 4 = 0 then LogMsg LOG_DEBUG ''Data size notification requested.''
             else LogStr LOG_DEBUG
                 (''Port data size change to '' @ decimal (unat (Command 4)) @ '' requested.'') @
               SetPortDataSize_log T (Command 4) (port s)) @
            then_log (SendCPCByteCommand TNASC_SET_DATASIZE DataSize s1) (\<lambda>s2.
              LogStr LOG_DEBUG (''Port data size: '' @ decimal (unat DataSize))))
      else if Command 3 = TNCAS_SET_PARITY then
        (let s1 = (if Command 4 = 0 then s else set_port (SetPortParity T (Command 4)) s);
             Parity = GetPortParity T (port s1)
         in (if Command 4 = 0 then LogMsg LOG_DEBUG ''Parity notification requested.''
             else LogStr LOG_DEBUG
                 (''Port parity change to '' @ decimal (unat (Command 4)) @ '' requested'') @
               SetPortParity_log T (Command 4) (port s)) @
            then_log (SendCPCByteCommand TNASC_SET_PARITY Parity s1) (\<lambda>s2.
              LogStr LOG_DEBUG (''Port parity: '' @ decimal (unat Parity))))
      else if Command 3 = TNCAS_SET_STOPSIZE then
        (let s1 = (if Command 4 = 0 then s else set_port (SetPortStopSize T (Command 4)) s);
             StopSize = GetPortStopSize T (port s1)
         in (if Command 4 = 0 then LogMsg LOG_DEBUG ''Stop size notification requested.''
             else LogStr LOG_DEBUG
                 (''Port stop size change to '' @ decimal (unat (Command 4)) @ '' requested.'') @
               SetPortStopSize_log T (Command 4) (port s)) @
            then_log (SendCPCByteCommand TNASC_SET_STOPSIZE StopSize s1) (\<lambda>s2.
              LogStr LOG_DEBUG (''Port stop size: '' @ decimal (unat StopSize))))
      else if Command 3 = TNCAS_SET_CONTROL then HandleSetControl_log T (Command 4) s
      else HandleMasksAndFlow_log Command)"

section \<open>Telnet commands\<close>

definition HandleWill_log :: "byte \<Rightarrow> line list" where
  "HandleWill_log opt =
     (if opt = TNCOM_PORT_OPTION then LogMsg LOG_INFO ''Telnet COM Port Control Enabled (WILL).''
      else if opt = TN_TRANSMIT_BINARY
      then LogMsg LOG_INFO ''Telnet Binary Transfer Enabled (WILL).''
      else if opt = TN_ECHO then LogMsg LOG_INFO ''Rejecting Telnet Echo Option (WILL).''
      else if opt = TN_SUPPRESS_GO_AHEAD
      then LogMsg LOG_INFO ''Suppressing Go Ahead characters (WILL).''
      else LogStr LOG_DEBUG (''Rejecting option WILL: '' @ decimal (unat opt)))"

definition HandleDo_log :: "byte \<Rightarrow> line list" where
  "HandleDo_log opt =
     (if opt = TNCOM_PORT_OPTION then LogMsg LOG_INFO ''Telnet COM Port Control Enabled (DO).''
      else if opt = TN_TRANSMIT_BINARY then LogMsg LOG_INFO ''Telnet Binary Transfer Enabled (DO).''
      else if opt = TN_ECHO then LogMsg LOG_INFO ''Rejecting Telnet Echo Option (DO).''
      else if opt = TN_SUPPRESS_GO_AHEAD
      then LogMsg LOG_INFO ''Suppressing Go Ahead characters (DO).''
      else LogStr LOG_DEBUG (''Rejecting option DO: '' @ decimal (unat opt)))"

definition HandleDont_log :: "byte \<Rightarrow> line list" where
  "HandleDont_log opt =
     LogStr LOG_DEBUG (''Received rejection for option: '' @ decimal (unat opt))"

definition HandleWont_log :: "byte \<Rightarrow> line list" where
  "HandleWont_log opt =
     (if opt = TNCOM_PORT_OPTION
      then LogMsg LOG_ERR (''Client doesn't support Telnet COM Port '' @
        ''Protocol Option (RFC 2217), trying to serve anyway.'')
      else LogStr LOG_DEBUG (''Received rejection for option: '' @ decimal (unat opt)))"

definition HandleIACCommand_log ::
  "'p tty \<Rightarrow> (nat \<Rightarrow> byte) \<Rightarrow> nat \<Rightarrow> 'p sercd \<Rightarrow> line list" where
  "HandleIACCommand_log T Command CSize s =
     (if Command 1 = TNSB then
        (if \<not> (is_will (tnstate s (Command 2)) \<or> is_do (tnstate s (Command 2))) then []
         else if Command 2 = TNCOM_PORT_OPTION then HandleCPCCommand_log T Command CSize s
         else LogStr LOG_DEBUG (''Unknown suboption received: '' @ decimal (unat (Command 2))))
      else if Command 1 = TNWILL then HandleWill_log (Command 2)
      else if Command 1 = TNDO then HandleDo_log (Command 2)
      else if Command 1 = TNDONT then HandleDont_log (Command 2)
      else if Command 1 = TNWONT then HandleWont_log (Command 2)
      else [])"

section \<open>What a line says\<close>

lemma LogMsg_texts: "level \<le> 7 \<Longrightarrow> map snd (LogMsg level t) = [t]"
  by (simp add: LogMsg_def MaxLogLevel_def)

lemma LogStr_texts:
  "level \<le> 7 \<Longrightarrow> length t \<le> 254 \<Longrightarrow> map snd (LogStr level t) = [t]"
  by (simp add: LogStr_def TmpStrLen_def LogMsg_texts)

lemma levels [simp]: "LOG_ERR \<le> 7" "LOG_WARNING \<le> 7" "LOG_NOTICE \<le> 7" "LOG_INFO \<le> 7" "LOG_DEBUG \<le> 7"
  by (simp_all add: LOG_ERR_def LOG_WARNING_def LOG_NOTICE_def LOG_INFO_def LOG_DEBUG_def)

lemma decimal_byte_length: "length (decimal (unat (b :: byte))) \<le> 3"
proof (rule decimal_length)
  have "unat b < 2 ^ LENGTH(8)"
    by (rule unsigned_less)
  then show "unat b < 10 ^ 3"
    by simp
qed simp

text \<open>Every setter describes the attributes it has given the port.\<close>

lemma setters_describe:
  assumes "tty_faithful T"
  shows "set (UnixLogPortSettings (tcgetattr T (SetPortDataSize T v p))) \<subseteq> set (SetPortDataSize_log T v p)"
    and "set (UnixLogPortSettings (tcgetattr T (SetPortParity T v p))) \<subseteq> set (SetPortParity_log T v p)"
    and "set (UnixLogPortSettings (tcgetattr T (SetPortStopSize T v p))) \<subseteq> set (SetPortStopSize_log T v p)"
    and "set (UnixLogPortSettings (tcgetattr T (SetPortFlowControl T v p))) \<subseteq>
      set (SetPortFlowControl_log T v p)"
    and "set (UnixLogPortSettings (tcgetattr T (SetPortSpeed T b p))) \<subseteq> set (SetPortSpeed_log T b p)"
  using assms
  by (simp_all add: tty_faithful_def SetPortDataSize_def SetPortDataSize_log_def SetPortParity_def
      SetPortParity_log_def SetPortStopSize_def SetPortStopSize_log_def SetPortFlowControl_def
      SetPortFlowControl_log_def SetPortSpeed_def SetPortSpeed_log_def Let_def)

definition answer_label :: "byte \<Rightarrow> string" where
  "answer_label k =
     (if k = TNCAS_SET_DATASIZE then ''Port data size: ''
      else if k = TNCAS_SET_PARITY then ''Port parity: ''
      else ''Port stop size: '')"

lemma length_answer_label: "length (answer_label k) \<le> 20"
  by (simp add: answer_label_def)

lemma answer_line:
  "map snd (LogStr LOG_DEBUG (answer_label k @ decimal (unat b))) =
    [answer_label k @ decimal (unat (b :: byte))]"
  using decimal_byte_length [of b] length_answer_label [of k] by (intro LogStr_texts) simp_all

text \<open>A parameter is set by \<open>f\<close>, unless it is only asked for, and confirmed as \<open>get\<close> reads it.\<close>

lemma confirmation_logged:
  assumes "net_ok s" and "length (net_bytes s) + 8 \<le> 2047"
    and "s1 = (if C 4 = 0 then s else set_port f s)"
    and "HandleCPCCommand T C n s = SendCPCByteCommand j (get (port s1)) s1"
    and "HandleCPCCommand_log T C n s = ls @ then_log (SendCPCByteCommand j (get (port s1)) s1)
      (\<lambda>s2. LogStr LOG_DEBUG (answer_label k @ decimal (unat (get (port s1)))))"
    and "C 4 \<noteq> 0 \<Longrightarrow> set (UnixLogPortSettings (tcgetattr T (f (port s)))) \<subseteq> set ls"
  shows "\<exists>s' v. HandleCPCCommand T C n s = Inr s' \<and>
    net_bytes s' = net_bytes s @ cpc_reply s j v \<and>
    snd (last (HandleCPCCommand_log T C n s)) = answer_label k @ decimal (unat v) \<and>
    v = get (port s') \<and>
    (C 4 \<noteq> 0 \<longrightarrow> set (UnixLogPortSettings (tcgetattr T (port s'))) \<subseteq>
      set (HandleCPCCommand_log T C n s))"
proof -
  have s1: "net_ok s1" "net_bytes s1 = net_bytes s" "cpc_reply s1 j v = cpc_reply s j v"
    "C 4 \<noteq> 0 \<Longrightarrow> port s1 = f (port s)" for v
    using assms(1,3) by simp_all
  obtain x where "LogStr LOG_DEBUG (answer_label k @ decimal (unat (get (port s1)))) =
      [(x, answer_label k @ decimal (unat (get (port s1))))]"
    using answer_line [of k "get (port s1)"] by (auto simp: map_eq_Cons_conv)
  then show ?thesis
    using cpc_sent [of s1 j "get (port s1)"] s1 assms(2,4-6) by auto
qed

text \<open>
  C25. The log agrees with the dialogue. When a client sets the data size, the parity or the stop bits,
  or asks for them, the last line logged names the value the answer carries, which is the one the port
  then has; and when something was set, the log holds the line that describes all the settings of the
  port as they then are.
\<close>

theorem answers_are_logged:
  assumes "tty_faithful T" and "net_ok s" and "length (net_bytes s) + 8 \<le> 2047"
    and "C 3 \<in> {TNCAS_SET_DATASIZE, TNCAS_SET_PARITY, TNCAS_SET_STOPSIZE}"
  shows "\<exists>s' v. HandleCPCCommand T C n s = Inr s' \<and>
    net_bytes s' = net_bytes s @ cpc_reply s (C 3 + 100) v \<and>
    snd (last (HandleCPCCommand_log T C n s)) = answer_label (C 3) @ decimal (unat v) \<and>
    v = (if C 3 = TNCAS_SET_DATASIZE then GetPortDataSize T (port s')
         else if C 3 = TNCAS_SET_PARITY then GetPortParity T (port s')
         else GetPortStopSize T (port s')) \<and>
    (C 4 \<noteq> 0 \<longrightarrow> set (UnixLogPortSettings (tcgetattr T (port s'))) \<subseteq>
      set (HandleCPCCommand_log T C n s))"
proof -
  note core = confirmation_logged [OF assms(2,3)]
  note describe = setters_describe [OF assms(1)]
  consider "C 3 = TNCAS_SET_DATASIZE" | "C 3 = TNCAS_SET_PARITY" | "C 3 = TNCAS_SET_STOPSIZE"
    using assms(4) by blast
  then show ?thesis
  proof cases
    case 1
    have "\<exists>s' v. HandleCPCCommand T C n s = Inr s' \<and>
        net_bytes s' = net_bytes s @ cpc_reply s (C 3 + 100) v \<and>
        snd (last (HandleCPCCommand_log T C n s)) = answer_label (C 3) @ decimal (unat v) \<and>
        v = GetPortDataSize T (port s') \<and>
        (C 4 \<noteq> 0 \<longrightarrow> set (UnixLogPortSettings (tcgetattr T (port s'))) \<subseteq>
          set (HandleCPCCommand_log T C n s))"
      by (rule core [where f = "SetPortDataSize T (C 4)" and get = "GetPortDataSize T" and
          ls = "if C 4 = 0 then LogMsg LOG_DEBUG ''Data size notification requested.''
            else LogStr LOG_DEBUG (''Port data size change to '' @ decimal (unat (C 4)) @ '' requested.'') @
              SetPortDataSize_log T (C 4) (port s)", OF refl])
        (use 1 describe(1) [of "C 4" "port s"] in \<open>auto simp: HandleCPCCommand_def
          HandleCPCCommand_log_def answer_label_def Let_def simp del: append.simps\<close>)
    then show ?thesis
      using 1 by simp
  next
    case 2
    have "\<exists>s' v. HandleCPCCommand T C n s = Inr s' \<and>
        net_bytes s' = net_bytes s @ cpc_reply s (C 3 + 100) v \<and>
        snd (last (HandleCPCCommand_log T C n s)) = answer_label (C 3) @ decimal (unat v) \<and>
        v = GetPortParity T (port s') \<and>
        (C 4 \<noteq> 0 \<longrightarrow> set (UnixLogPortSettings (tcgetattr T (port s'))) \<subseteq>
          set (HandleCPCCommand_log T C n s))"
      by (rule core [where f = "SetPortParity T (C 4)" and get = "GetPortParity T" and
          ls = "if C 4 = 0 then LogMsg LOG_DEBUG ''Parity notification requested.''
            else LogStr LOG_DEBUG (''Port parity change to '' @ decimal (unat (C 4)) @ '' requested'') @
              SetPortParity_log T (C 4) (port s)", OF refl])
        (use 2 describe(2) [of "C 4" "port s"] in \<open>auto simp: HandleCPCCommand_def
          HandleCPCCommand_log_def answer_label_def Let_def simp del: append.simps\<close>)
    then show ?thesis
      using 2 by simp
  next
    case 3
    have "\<exists>s' v. HandleCPCCommand T C n s = Inr s' \<and>
        net_bytes s' = net_bytes s @ cpc_reply s (C 3 + 100) v \<and>
        snd (last (HandleCPCCommand_log T C n s)) = answer_label (C 3) @ decimal (unat v) \<and>
        v = GetPortStopSize T (port s') \<and>
        (C 4 \<noteq> 0 \<longrightarrow> set (UnixLogPortSettings (tcgetattr T (port s'))) \<subseteq>
          set (HandleCPCCommand_log T C n s))"
      by (rule core [where f = "SetPortStopSize T (C 4)" and get = "GetPortStopSize T" and
          ls = "if C 4 = 0 then LogMsg LOG_DEBUG ''Stop size notification requested.''
            else LogStr LOG_DEBUG (''Port stop size change to '' @ decimal (unat (C 4)) @ '' requested.'') @
              SetPortStopSize_log T (C 4) (port s)", OF refl])
        (use 3 describe(3) [of "C 4" "port s"] in \<open>auto simp: HandleCPCCommand_def
          HandleCPCCommand_log_def answer_label_def Let_def simp del: append.simps\<close>)
    then show ?thesis
      using 3 by simp
  qed
qed

theorem answers_are_logged_witness:
  "\<exists>s' v. HandleCPCCommand mem_tty (command_of [255, 250, 44, 2, 7, 255, 240]) 7
      (fresh_sercd LP64 sample_port) = Inr s' \<and>
    v = GetPortDataSize mem_tty (port s') \<and>
    snd (last (HandleCPCCommand_log mem_tty (command_of [255, 250, 44, 2, 7, 255, 240]) 7
      (fresh_sercd LP64 sample_port))) = ''Port data size: '' @ decimal (unat v)"
  using answers_are_logged [OF mem_tty_faithful, of "fresh_sercd LP64 sample_port"
      "command_of [255, 250, 44, 2, 7, 255, 240]" 7]
  by (auto simp: command_of_def answer_label_def simp del: append.simps)

section \<open>Lines that mislead\<close>

text \<open>
  The two lines on the echo option speak of a rejection; the option is accepted, like the three others
  the program knows.
\<close>

lemma echo_accepted_as_rejected:
  assumes "HandleWill TN_ECHO s = Inr s'"
  shows "is_do (tnstate s' TN_ECHO)"
    and "map snd (HandleWill_log TN_ECHO) = [''Rejecting Telnet Echo Option (WILL).'']"
  using assms
  by (auto simp: HandleWill_def accept_will_def upd_tn_def bind_r_eq_Inr HandleWill_log_def
      LogMsg_texts)

text \<open>What \<open>strncpy\<close> takes of an array that holds \<open>bs\<close> and a NUL.\<close>

lemma c_strncpy_text:
  assumes "\<And>j. j < length bs \<Longrightarrow> m (i + j) = bs ! j" and "m (i + length bs) = 0" and "0 \<notin> set bs"
    and "i + length bs < sz" and "length bs < n"
  shows "c_strncpy m sz i n = Inr (bs @ replicate (n - length bs) 0)"
  using assms
proof (induction bs arbitrary: i n)
  case Nil
  then show ?case
    by (cases n) simp_all
next
  case (Cons b bs)
  then obtain k where n: "n = Suc k" "length bs < k"
    by (cases n) simp_all
  have "m i = b" "b \<noteq> 0"
    using Cons.prems(1) [of 0] Cons.prems(3) by simp_all
  moreover have "c_strncpy m sz (Suc i) k = Inr (bs @ replicate (k - length bs) 0)"
  proof (rule Cons.IH)
    show "m (Suc i + j) = bs ! j" if "j < length bs" for j
      using Cons.prems(1) [of "Suc j"] that by simp
  qed (use Cons.prems n in simp_all)
  ultimately show ?case
    using Cons.prems(4) n by simp
qed

text \<open>
  The line on the client's signature does not stop at its end: the two bytes that close the suboption
  follow, and then whatever an earlier, longer command has left in the array, up to the first NUL.
\<close>

theorem signature_line_shows_leftovers:
  assumes "ps \<noteq> []" and "0 \<notin> set ps" and "0 \<notin> set old" and "length ps + length old \<le> 248"
  shows "HandleCPCCommand_log T (overlay ([TNIAC, TNSB, TNCOM_PORT_OPTION, TNCAS_SIGNATURE] @ ps @
      [TNIAC, TNSE] @ old @ [0]) m) (length ps + 6) s =
    LogMsg LOG_INFO (take 253 (''Received client signature: '' @
      map (\<lambda>b. char_of (unat b)) (ps @ [TNIAC, TNSE] @ old)))"
proof -
  let ?h = "[TNIAC, TNSB, TNCOM_PORT_OPTION, TNCAS_SIGNATURE]"
  let ?t = "ps @ [TNIAC, TNSE] @ old"
  let ?C = "overlay (?h @ ps @ [TNIAC, TNSE] @ old @ [0]) m"
  have C: "?C (4 + j) = (?t @ [0]) ! j" if "j \<le> length ?t" for j
    using that by (simp add: overlay_def)
  have nz: "0 \<notin> set ?t"
    using assms(2,3) by simp
  have "c_strncpy ?C IACCommand_size 4 254 = Inr (?t @ replicate (254 - length ?t) 0)"
  proof (rule c_strncpy_text)
    show "?C (4 + j) = ?t ! j" if "j < length ?t" for j
      using that C [of j] by (simp only: nth_append less_imp_le if_True)
    show "?C (4 + length ?t) = 0"
      using C [of "length ?t"] by (simp only: nth_append_length order_refl)
  qed (use nz assms(4) in \<open>simp_all add: IACCommand_size_def\<close>)
  moreover have "size_minus (sizeof_long s) (length ps + 6) 6 = length ps"
    by (simp add: size_minus_def)
  ultimately have "client_signature (sizeof_long s) ?C (length ps + 6) =
      Inr (?t @ replicate (254 - length ?t) 0)"
    using assms(4) by (simp add: client_signature_def max_def)
  moreover have "c_str (?t @ replicate k 0) = ?t" for k
    unfolding c_str_def using nz by (subst takeWhile_append2) (auto simp: takeWhile_replicate)
  moreover have "?C 3 = TNCAS_SIGNATURE"
    by (simp add: overlay_def)
  ultimately show ?thesis
    using assms(1)
    by (simp add: HandleCPCCommand_log_def HandleSignature_log_def c_text_def TmpStrLen_def
        del: append.simps append_assoc)
qed

end
