(* ===== verification/Loop_Log.thy ===== *)
theory Loop_Log
  imports Command_Log Main_Loop "HOL-Library.Sublist"
begin

text \<open>
  What is logged while bytes are received (\<open>sercd.c\<close> lines 469 to 611) and by the main loop (lines 1102 to
  1118 and 1353 to 1652): for each stage the lines it gives to the log. The log of a run tells of every
  connection how it ended.
\<close>

section \<open>Receiving\<close>

definition finish_command_log :: "'p tty \<Rightarrow> 'p sercd \<Rightarrow> line list" where
  "finish_command_log T s = HandleIACCommand_log T (IACCommand s) (IACPos s) s"

definition receive_signature_log :: "'p tty \<Rightarrow> byte \<Rightarrow> 'p sercd \<Rightarrow> line list" where
  "receive_signature_log T C s =
     (case IACSigEscape s of
        IACNormal \<Rightarrow> []
      | IACComReceiving \<Rightarrow> []
      | IACReceived \<Rightarrow>
          if C = TNIAC then []
          else then_log (put_sig TNIAC s) (\<lambda>s. then_log (put_sig C s) (finish_command_log T)))"

definition receive_until_log :: "nat \<Rightarrow> 'p tty \<Rightarrow> byte \<Rightarrow> 'p sercd \<Rightarrow> line list" where
  "receive_until_log n T C s =
     then_log (put_cmd C s) (\<lambda>s. if IACPos s = n then finish_command_log T s else [])"

definition receive_command_log :: "'p tty \<Rightarrow> byte \<Rightarrow> 'p sercd \<Rightarrow> line list" where
  "receive_command_log T C s =
     (if IACCommand s 1 = TNSB then
        (if IACPos s < 4 then []
         else if IACCommand s 3 = TNCAS_SIGNATURE then receive_signature_log T C s
         else if IACCommand s 3 = TNCAS_SET_BAUDRATE then receive_until_log 10 T C s
         else if IACCommand s 3 = TNCAS_FLOWCONTROL_SUSPEND \<or>
                 IACCommand s 3 = TNCAS_FLOWCONTROL_RESUME then receive_until_log 6 T C s
         else receive_until_log 7 T C s)
      else receive_until_log 3 T C s)"

definition EscRedirectChar_log :: "'p tty \<Rightarrow> byte \<Rightarrow> 'p sercd \<Rightarrow> line list" where
  "EscRedirectChar_log T C s =
     (case IACEscape s of
        IACNormal \<Rightarrow> []
      | IACReceived \<Rightarrow> []
      | IACComReceiving \<Rightarrow> receive_command_log T C s)"

section \<open>The stages of an iteration\<close>

definition IOResultError_log :: "int \<Rightarrow> bool \<Rightarrow> string \<Rightarrow> string \<Rightarrow> line list" where
  "IOResultError_log iobytes would_block err eof_err =
     (if iobytes = -1 then (if \<not> would_block then LogMsg LOG_NOTICE err else [])
      else if iobytes = 0 then LogMsg LOG_NOTICE eof_err
      else [])"

definition device_in_log :: "'p env \<Rightarrow> 'p sercd \<Rightarrow> line list" where
  "device_in_log E s =
     (let trybytes = min readbuf_size (unat (BufferRoomLeft (ToNetBuf s)) div EscWriteChar_bytes)
      in then_log (deref (DeviceFd s)) (\<lambda>fd.
        IOResultError_log (read_result (dev_read E) trybytes) (read_would_block (dev_read E))
          ''Error reading from device'' ''EOF from device''))"

definition device_out_log :: "'p env \<Rightarrow> 'p sercd \<Rightarrow> line list" where
  "device_out_log E s =
     (let trybytes = unat (GetBufferString (ToDevBuf s))
      in then_log (deref (DeviceFd s)) (\<lambda>fd.
        let iobytes = write_result (dev_write E) trybytes
        in then_log (string_bytes (ToDevBuf s) (nat iobytes)) (\<lambda>bs.
          IOResultError_log iobytes (write_would_block (dev_write E))
            ''Error writing to device.'' ''EOF to device'')))"

definition socket_out_log :: "'p env \<Rightarrow> 'p sercd \<Rightarrow> line list" where
  "socket_out_log E s =
     (let trybytes = unat (GetBufferString (ToNetBuf s))
      in then_log (deref (OutSocketFd s)) (\<lambda>fd.
        let iobytes = write_result (net_write E) trybytes
        in then_log (string_bytes (ToNetBuf s) (nat iobytes)) (\<lambda>bs.
          IOResultError_log iobytes (write_would_block (net_write E))
            ''Error writing to network'' ''EOF to network'')))"

text \<open>The lines of a loop over the read buffer, each round in the state the one before has left.\<close>

function each_below_log ::
  "(nat \<Rightarrow> 's \<Rightarrow> fault + 's) \<Rightarrow> (nat \<Rightarrow> 's \<Rightarrow> line list) \<Rightarrow> nat \<Rightarrow> nat \<Rightarrow> 's \<Rightarrow> line list" where
  "each_below_log f g i n s =
     (if i < n then g i s @ then_log (f i s) (\<lambda>t. each_below_log f g (i + 1) n t) else [])"
  by pat_completeness auto
termination by (relation "measure (\<lambda>(f, g, i, n, s). n - i)") auto

declare each_below_log.simps [simp del]

definition redirect_log :: "'p tty \<Rightarrow> nat \<Rightarrow> 'p sercd \<Rightarrow> line list" where
  "redirect_log T i s =
     (if i < readbuf_size
      then then_log (deref (DeviceFd s)) (\<lambda>fd. EscRedirectChar_log T (readbuf s i) s) else [])"

definition socket_in_log :: "'p tty \<Rightarrow> 'p env \<Rightarrow> 'p sercd \<Rightarrow> line list" where
  "socket_in_log T E s =
     (let trybytes = min (min readbuf_size
            (unat (BufferRoomLeft (ToNetBuf s)) div EscRedirectChar_bytes_SockB (sizeof_long s)))
            (unat (BufferRoomLeft (ToDevBuf s)) div EscRedirectChar_bytes_DevB)
      in then_log (deref (InSocketFd s)) (\<lambda>fd.
        let iobytes = read_result (net_read E) trybytes;
            bs = read_bytes (net_read E) trybytes;
            s1 = s\<lparr>readbuf := overlay bs (readbuf s)\<rparr>
        in IOResultError_log iobytes (read_would_block (net_read E))
             ''Error readbuf from network.'' ''EOF from network'' @
           (if IOResultError iobytes (read_would_block (net_read E)) then []
            else each_below_log (from_readbuf (redirect T)) (redirect_log T) 0
              (loop_bound (sizeof_long s) iobytes) (emit (NetRead bs) s1))))"

definition socket_connect_log :: "'p env \<Rightarrow> 'p sercd \<Rightarrow> line list" where
  "socket_connect_log E s =
     LogMsg LOG_NOTICE ''New connection'' @
     then_log (deref (LSocketFd s)) (\<lambda>l.
       if accepted E < 0 then LogMsg LOG_ERR ''Error accepting socket''
       else if InSocketFd s \<noteq> None \<and> OutSocketFd s \<noteq> None
       then LogMsg LOG_ERR ''Another client connected, dropping new connection''
       else [])"

definition OpenPort_log :: "'p tty \<Rightarrow> int \<Rightarrow> 'p sercd \<Rightarrow> line list" where
  "OpenPort_log T fd s = (if fd = -1 then [] else UnixLogPortSettings (tcgetattr T (port s)))"

definition open_port_log :: "'p tty \<Rightarrow> 'p env \<Rightarrow> 'p sercd \<Rightarrow> line list" where
  "open_port_log T E s =
     (if InSocketFd s \<noteq> None \<and> OutSocketFd s \<noteq> None \<and> DeviceFd s = None then
        OpenPort_log T (opened E) s @
        (if fst (OpenPort T (opened E) s) then []
         else LogStr LOG_ERR (''Unable to open device '' @ c_text (DeviceName s) @ ''. Exiting.''))
      else [])"

definition modem_state_log :: "'p tty \<Rightarrow> 'p sercd \<Rightarrow> line list" where
  "modem_state_log T s =
     then_log (deref (DeviceFd s)) (\<lambda>fd.
       let newstate = GetModemState T (port s) (ModemState s)
       in if newstate AND ModemStateMask s AND TNCOM_MODMASK_NODELTA \<noteq>
             ModemState s AND ModemStateMask s AND TNCOM_MODMASK_NODELTA
          then (let s1 = s\<lparr>ModemState := newstate\<rparr>
                in then_log (SendCPCByteCommand TNASC_NOTIFY_MODEMSTATE
                     (ModemState s1 AND ModemStateMask s1) s1) (\<lambda>s2.
                   LogStr LOG_DEBUG (''Sent modem state: '' @
                     decimal (unat (ModemState s1 AND ModemStateMask s1)))))
          else [])"

section \<open>An iteration\<close>

definition stage_log :: "fault + 'p stage \<Rightarrow> ('p sercd \<Rightarrow> line list) \<Rightarrow> line list" where
  "stage_log r f = (case r of Inr (Next s) \<Rightarrow> f s | _ \<Rightarrow> [])"

definition log_on :: "sercd_ev \<Rightarrow> sercd_ev set \<Rightarrow> ('p sercd \<Rightarrow> line list) \<Rightarrow> 'p sercd \<Rightarrow> line list" where
  "log_on e selret f s = (if e \<in> selret then f s else [])"

definition handle_events_log ::
  "'p tty \<Rightarrow> 'p env \<Rightarrow> sercd_ev set \<Rightarrow> 'p sercd \<Rightarrow> line list" where
  "handle_events_log T E selret s =
     log_on SERCD_EV_DEVICEIN selret (device_in_log E) s @
     stage_log (on SERCD_EV_DEVICEIN selret (device_in T E) s) (\<lambda>s.
     log_on SERCD_EV_DEVICEOUT selret (device_out_log E) s @
     stage_log (on SERCD_EV_DEVICEOUT selret (device_out T E) s) (\<lambda>s.
     log_on SERCD_EV_SOCKETOUT selret (socket_out_log E) s @
     stage_log (on SERCD_EV_SOCKETOUT selret (socket_out T E) s) (\<lambda>s.
     log_on SERCD_EV_SOCKETIN selret (socket_in_log T E) s @
     stage_log (on SERCD_EV_SOCKETIN selret (socket_in T E) s) (\<lambda>s.
     log_on SERCD_EV_SOCKETCONNECT selret (socket_connect_log E) s @
     stage_log (on SERCD_EV_SOCKETCONNECT selret (socket_connect E) s) (\<lambda>s.
     open_port_log T E s @
     stage_log (open_port T E s) (log_on SERCD_EV_MODEMSTATE selret (modem_state_log T)))))))"

text \<open>\<open>exit\<close> as \<open>android.h\<close> defines it: the line of the source is logged before the return.\<close>

definition exit_log :: "nat \<Rightarrow> line list" where
  "exit_log LINE = LogMsg LOG_ERR (''Exiting at '' @ decimal LINE)"

definition main_iteration_log :: "'p tty \<Rightarrow> 'p env \<Rightarrow> int \<Rightarrow> 'p sercd \<Rightarrow> line list" where
  "main_iteration_log T E errno s =
     (if DeviceIn s = None \<and> DeviceOut s = None \<and> SocketOut s = None \<and> SocketIn s = None \<and>
         LSocketFd s = None
      then exit_log 1456
      else
        (case SercdSelect E (DeviceIn s) (DeviceOut s) (Modemstate s) (SocketOut s) (SocketIn s)
             (LSocketFd s) DEFAULT_POLL_INTERVAL s of
           (None, s1) \<Rightarrow> LogStr LOG_ERR (''select error: '' @ decimal_int errno) @ exit_log 1465
         | (Some selret, s1) \<Rightarrow> if selret = {} then [] else handle_events_log T E selret s1))"

text \<open>The start, up to the loop.\<close>

definition SercdService_main_log :: "int \<Rightarrow> int \<Rightarrow> int \<Rightarrow> line list" where
  "SercdService_main_log lsocket bind_result listen_result =
     LogMsg LOG_NOTICE ''sercd started.'' @
     LogStr LOG_INFO (''Log level: '' @ decimal_int MaxLogLevel) @
     LogStr LOG_INFO (''Polling interval (ms): '' @ decimal_int DEFAULT_POLL_INTERVAL) @
     (if lsocket < 0 then exit_log 1383
      else if bind_result \<noteq> 0 then exit_log 1406
      else if listen_result < 0 then exit_log 1410
      else [])"

text \<open>The runs of the loop with the lines logged meanwhile; \<open>errno\<close> is whatever \<open>select\<close> has left.\<close>

inductive logged_runs :: "'p tty \<Rightarrow> 'p sercd \<Rightarrow> line list \<Rightarrow> 'p sercd \<Rightarrow> bool" for T :: "'p tty" where
  logged_refl: "logged_runs T s [] s"
| logged_step: "logged_runs T s ls s1 \<Longrightarrow>
    main_iteration T E (set_port (line_change E) s1) = Inr (Again s2) \<Longrightarrow>
    logged_runs T s (ls @ main_iteration_log T E errno (set_port (line_change E) s1)) s2"

inductive_cases logged_runs_cases: "logged_runs T s ls t"

lemma logged_runs_runs: "runs T s t \<longleftrightarrow> (\<exists>ls. logged_runs T s ls t)"
proof
  show "\<exists>ls. logged_runs T s ls t" if "runs T s t"
    using that by (induction rule: runs.induct) (auto intro: logged_runs.intros)
  show "runs T s t" if "\<exists>ls. logged_runs T s ls t"
  proof -
    from that obtain ls where "logged_runs T s ls t" ..
    then show ?thesis
      by (induction rule: logged_runs.induct) (auto intro: runs.intros)
  qed
qed

section \<open>Lines on connections\<close>

text \<open>
  A connection that is not accepted or not kept leaves one line, and the loss of a client one of nine;
  the last of them names the device.
\<close>

definition refusals :: "string list" where
  "refusals = [''Error accepting socket'', ''Another client connected, dropping new connection'']"

definition losses :: "string list" where
  "losses = [''Error reading from device'', ''EOF from device'', ''Error writing to device.'',
     ''EOF to device'', ''Error writing to network'', ''EOF to network'',
     ''Error readbuf from network.'', ''EOF from network'']"

definition is_refusal :: "string \<Rightarrow> bool" where
  "is_refusal t \<longleftrightarrow> t \<in> set refusals"

definition is_loss :: "string \<Rightarrow> bool" where
  "is_loss t \<longleftrightarrow> t \<in> set losses \<or> prefix ''Unable to open device '' t"

definition weight :: "string \<Rightarrow> int" where
  "weight t =
     (if t = ''New connection'' then 1 else if is_refusal t \<or> is_loss t then -1 else 0)"

definition tally :: "line list \<Rightarrow> int" where
  "tally ls = (\<Sum>l\<leftarrow>ls. weight (snd l))"

lemma tally_simps [simp]: "tally [] = 0" "tally (xs @ ys) = tally xs + tally ys"
  by (simp_all add: tally_def)

lemma tally_LogMsg: "level \<le> 7 \<Longrightarrow> tally (LogMsg level t) = weight t"
  by (simp add: tally_def LogMsg_def MaxLogLevel_def)

lemmas account_defs = refusals_def losses_def is_refusal_def is_loss_def weight_def

text \<open>The lines of the handlers are none of these, whatever numbers and names they hold.\<close>

definition apart :: "string \<Rightarrow> bool" where
  "apart p \<longleftrightarrow> (\<forall>q\<in>set (''New connection'' # refusals @ losses). \<not> prefix p q) \<and>
     \<not> prefix p ''Unable to open device '' \<and> \<not> prefix ''Unable to open device '' p"

lemma weight_apart: "apart p \<Longrightarrow> weight (p @ x) = 0"
proof -
  assume p: "apart p"
  have "q \<noteq> p @ x" if "q \<in> set (''New connection'' # refusals @ losses)" for q
    using p that prefixI [of q p x] unfolding apart_def by blast
  moreover have "\<not> prefix ''Unable to open device '' (p @ x)"
    using p prefix_same_cases [of "''Unable to open device ''" "p @ x" p] by (auto simp: apart_def)
  ultimately show ?thesis
    by (auto simp: weight_def is_refusal_def is_loss_def)
qed

lemma weight_literal: "apart p \<Longrightarrow> weight p = 0"
  using weight_apart [of p "[]"] by simp

definition neutral :: "line list \<Rightarrow> bool" where
  "neutral ls \<longleftrightarrow> (\<forall>l\<in>set ls. weight (snd l) = 0)"

lemma neutral_tally: "neutral ls \<Longrightarrow> tally ls = 0"
  by (induction ls) (simp_all add: neutral_def tally_def)

lemma neutral_simps [simp]:
  "neutral []" "neutral (xs @ ys) \<longleftrightarrow> neutral xs \<and> neutral ys"
  "neutral (if b then xs else ys) \<longleftrightarrow> (if b then neutral xs else neutral ys)"
  by (auto simp: neutral_def)

lemma neutral_LogMsg: "weight t = 0 \<Longrightarrow> neutral (LogMsg level t)"
  by (simp add: neutral_def LogMsg_def)

lemma neutral_cut: "apart p \<Longrightarrow> length p \<le> n \<Longrightarrow> neutral (LogMsg level (take n (p @ x)))"
  by (simp add: neutral_LogMsg weight_apart)

lemma neutral_LogStr: "apart p \<Longrightarrow> length p \<le> 254 \<Longrightarrow> neutral (LogStr level (p @ x))"
  unfolding LogStr_def by (rule neutral_cut) (simp_all add: TmpStrLen_def)

lemma neutral_then: "(\<And>x. neutral (f x)) \<Longrightarrow> neutral (then_log r f)"
  by (cases r) simp_all

lemmas neutral_rules = neutral_LogMsg neutral_LogStr neutral_cut neutral_then weight_apart
  weight_literal apart_def refusals_def losses_def

lemma settings_neutral: "neutral (UnixLogPortSettings t)"
  by (simp add: UnixLogPortSettings_def LogPortSettings_def Termios2TncomSpeed_log_def Let_def
      neutral_rules del: append.simps)

lemma setters_neutral:
  "neutral (SetPortDataSize_log T v p)" "neutral (SetPortParity_log T v p)"
  "neutral (SetPortStopSize_log T v p)" "neutral (SetPortFlowControl_log T v p)"
  "neutral (SetPortSpeed_log T b p)" "neutral (GetPortSpeed_log T p)"
  by (simp_all add: SetPortDataSize_log_def SetPortParity_log_def SetPortStopSize_log_def
      SetPortFlowControl_log_def SetPortSpeed_log_def GetPortSpeed_log_def
      Termios2TncomSpeed_log_def settings_neutral neutral_rules)

lemma control_neutral: "neutral (HandleSetControl_log T c s)"
  by (simp add: HandleSetControl_log_def Let_def setters_neutral neutral_rules del: append.simps)

lemma masks_neutral: "neutral (HandleMasksAndFlow_log C)"
  by (simp add: HandleMasksAndFlow_log_def neutral_rules del: append.simps)

lemma signature_neutral: "neutral (HandleSignature_log C n s)"
  by (simp add: HandleSignature_log_def TmpStrLen_def neutral_rules del: append.simps)

lemma baud_neutral: "neutral (HandleSetBaudRate_log T C s)"
  by (simp add: HandleSetBaudRate_log_def Let_def setters_neutral neutral_rules del: append.simps)

lemma cpc_neutral: "neutral (HandleCPCCommand_log T C n s)"
  by (simp add: HandleCPCCommand_log_def Let_def setters_neutral control_neutral masks_neutral
      signature_neutral baud_neutral neutral_rules del: append.simps)

lemma negotiation_neutral:
  "neutral (HandleWill_log opt)" "neutral (HandleDo_log opt)" "neutral (HandleDont_log opt)"
  "neutral (HandleWont_log opt)"
  by (simp_all add: HandleWill_log_def HandleDo_log_def HandleDont_log_def HandleWont_log_def
      neutral_rules del: append.simps)

lemma handler_neutral: "neutral (HandleIACCommand_log T C n s)"
  by (simp add: HandleIACCommand_log_def cpc_neutral negotiation_neutral neutral_rules
      del: append.simps)

lemma receiver_neutral: "neutral (EscRedirectChar_log T c s)"
  by (simp add: EscRedirectChar_log_def receive_command_log_def receive_signature_log_def
      receive_until_log_def finish_command_log_def handler_neutral neutral_then
      split: IACState.split)

lemma each_below_neutral: "(\<And>i s. neutral (g i s)) \<Longrightarrow> neutral (each_below_log f g i n s)"
proof (induction "n - i" arbitrary: i s)
  case 0
  then show ?case
    by (subst each_below_log.simps) simp
next
  case (Suc k)
  then show ?case
    by (subst each_below_log.simps) (simp add: neutral_then)
qed

lemma redirect_neutral: "neutral (redirect_log T i s)"
  by (simp add: redirect_log_def receiver_neutral neutral_then)

section \<open>The account of a stage\<close>

definition connected_clients :: "'p sercd \<Rightarrow> int" where
  "connected_clients s = (if InSocketFd s = None then 0 else 1)"

lemma connected_clients_simps [simp]:
  "InSocketFd s = None \<Longrightarrow> connected_clients s = 0" "InSocketFd s \<noteq> None \<Longrightarrow> connected_clients s = 1"
  "connected_clients (s\<lparr>LastPoll := l\<rparr>) = connected_clients s"
  "connected_clients (set_port f s) = connected_clients s"
  by (simp_all add: connected_clients_def set_port_def)

text \<open>The lines of a stage add up to what it changes in the number of clients.\<close>

definition accounts :: "'p sercd \<Rightarrow> line list \<Rightarrow> fault + 'p stage \<Rightarrow> bool" where
  "accounts s ls r \<longleftrightarrow>
     (case r of
        Inl e \<Rightarrow> True
      | Inr (Next t) \<Rightarrow> connected_clients t = connected_clients s + tally ls
      | Inr (Continue t) \<Rightarrow> connected_clients t = connected_clients s + tally ls)"

lemma accounts_skip [simp]: "accounts s [] (Inr (Next s))"
  by (simp add: accounts_def)

lemma accounts_then:
  assumes "accounts s ls r" and "\<And>t. r = Inr (Next t) \<Longrightarrow> accounts t (g t) (f t)"
  shows "accounts s (ls @ stage_log r g) (and_then r f)"
proof (cases r)
  case (Inr x)
  then show ?thesis
    using assms by (cases x) (auto simp: accounts_def stage_log_def split: sum.splits stage.splits)
qed (simp add: accounts_def)

lemma accounts_dropped:
  assumes "InSocketFd s \<noteq> None"
  shows "tally ls = -1 \<Longrightarrow> accounts s ls (Inr (Continue (drop_client T t)))"
  using assms by (simp add: accounts_def drop_client_def connected_clients_def)

lemma accounts_kept:
  assumes "stage_ok Q s r" and "InSocketFd s \<noteq> None" and "tally ls = 0"
    and "\<And>t. r \<noteq> Inr (Continue t)"
  shows "accounts s ls r"
proof (cases r)
  case (Inr x)
  then obtain t where t: "r = Inr (Next t)"
    using assms(4) by (cases x) auto
  then have "onward s t"
    using assms(1) by (simp add: stage_ok_def)
  then have "InSocketFd t = InSocketFd s"
    using assms(2) by (simp add: onward_def)
  then show ?thesis
    using assms(3) t by (simp add: accounts_def connected_clients_def)
qed (simp add: accounts_def)

lemma next_r_goes_on [simp]: "next_r r \<noteq> Inr (Continue t)"
  by (cases r) (simp_all add: next_r_def)

lemma IOResultError_tally:
  assumes "weight err = -1" and "weight eof_err = -1"
  shows "tally (IOResultError_log i w err eof_err) = (if IOResultError i w then -1 else 0)"
  using assms by (simp add: IOResultError_log_def IOResultError_def tally_LogMsg)

lemma device_in_accounts:
  assumes "loop_inv s" and "DeviceFd s \<noteq> None"
  shows "accounts s (device_in_log E s) (device_in T E s)"
proof -
  obtain fd where fd: "DeviceFd s = Some fd"
    using assms(2) by blast
  have "InSocketFd s \<noteq> None"
    by (rule inv_open(4) [OF assms])
  then show ?thesis
    using accounts_kept [OF device_in_ok [OF assms, of E T]] fd
    by (auto simp: device_in_log_def device_in_def deref_def Let_def IOResultError_tally
        account_defs intro: accounts_dropped)
qed

lemma device_out_accounts:
  assumes "loop_inv s" and "DeviceFd s \<noteq> None"
  shows "accounts s (device_out_log E s) (device_out T E s)"
proof -
  have *: "InSocketFd s \<noteq> None" "buf_ok (ToDevBuf s)"
    using inv_open(2,4) [OF assms] by (simp_all add: dev_ok_def)
  show ?thesis
  proof (cases "IOResultError (write_result (dev_write E) (unat (GetBufferString (ToDevBuf s))))
      (write_would_block (dev_write E))")
    case True
    with * show ?thesis
      using assms(2) by (auto simp: device_out_log_def device_out_def deref_def Let_def
          IOResultError_tally string_in_array account_defs intro!: accounts_dropped)
  next
    case False
    with * show ?thesis
      using accounts_kept [OF device_out_ok [OF assms, of T E]] assms(2)
      by (auto simp: device_out_log_def device_out_def deref_def Let_def IOResultError_tally
          string_in_array account_defs)
  qed
qed

lemma socket_out_accounts:
  assumes "loop_inv s" and "OutSocketFd s \<noteq> None"
  shows "accounts s (socket_out_log E s) (socket_out T E s)"
proof -
  have *: "InSocketFd s \<noteq> None" "buf_ok (ToNetBuf s)"
    using assms by (auto simp: loop_inv_def net_ok_def)
  show ?thesis
  proof (cases "IOResultError (write_result (net_write E) (unat (GetBufferString (ToNetBuf s))))
      (write_would_block (net_write E))")
    case True
    with * show ?thesis
      using assms(2) by (auto simp: socket_out_log_def socket_out_def deref_def Let_def
          IOResultError_tally string_in_array account_defs intro!: accounts_dropped)
  next
    case False
    with * show ?thesis
      using accounts_kept [OF socket_out_ok [OF assms, of T E]] assms(2)
      by (auto simp: socket_out_log_def socket_out_def deref_def Let_def IOResultError_tally
          string_in_array account_defs)
  qed
qed

lemma socket_in_accounts:
  assumes "loop_inv s" and "DeviceFd s \<noteq> None"
  shows "accounts s (socket_in_log T E s) (socket_in T E s)"
proof -
  obtain fd where fd: "InSocketFd s = Some fd"
    using inv_open(4) [OF assms] by blast
  note loop = neutral_tally [OF each_below_neutral [where g = "redirect_log T", OF redirect_neutral]]
  show ?thesis
    using accounts_kept [OF socket_in_ok [OF assms, of E T]] fd
    by (auto simp: socket_in_log_def socket_in_def deref_def Let_def IOResultError_tally loop
        account_defs intro: accounts_dropped)
qed

lemma connected_client:
  assumes "socket_connect E s = Inr (Next t)" and "InSocketFd s = None" and "\<not> accepted E < 0"
  shows "InSocketFd t \<noteq> None"
proof -
  let ?s1 = "SetSocketOptions (accepted E) (accepted E) (emit (Accepted (accepted E))
    ((emit (ChangeState STATE_CONNECTED) s)\<lparr>
      InSocketFd := Some (accepted E), OutSocketFd := Some (accepted E)\<rparr>))"
  let ?s3 = "InitTelnetStateMachine (?s1\<lparr>ToNetBuf := InitBuffer (ToNetBuf ?s1)\<rparr>)"
  have s3: "net_ok ?s3" "net_bytes ?s3 = []" "InSocketFd ?s3 = Some (accepted E)"
    by (simp_all add: InitTelnetStateMachine_def net_ok_def net_bytes_def)
  have "SendTelnetInitialOptions ?s3 = Inr t"
    using assms by (auto simp: socket_connect_def Let_def next_r_def bind_r_eq_Inr)
  then have "kept ?s3 t"
    using initial_kept [OF s3(1)] s3(2) by auto
  then show ?thesis
    using s3(3) by (simp add: kept_def)
qed

lemma socket_connect_accounts:
  assumes "loop_inv s" and "LSocketFd s \<noteq> None"
  shows "accounts s (socket_connect_log E s) (socket_connect E s)"
proof (cases "accepted E < 0 \<or> InSocketFd s \<noteq> None")
  case True
  then show ?thesis
    using assms coherent [OF assms(1)]
    by (auto simp: socket_connect_log_def socket_connect_def deref_def Let_def accounts_def
        tally_LogMsg account_defs connected_clients_def)
next
  case False
  have "tally (socket_connect_log E s) = 1"
    using False assms(2)
    by (auto simp: socket_connect_log_def deref_def tally_LogMsg account_defs)
  moreover have "socket_connect E s \<noteq> Inr (Continue t)" for t
    using False assms(2) by (auto simp: socket_connect_def deref_def Let_def)
  ultimately show ?thesis
    using False connected_client [of E s]
    by (auto simp: accounts_def split: sum.splits stage.splits)
qed

lemma open_port_accounts:
  assumes "loop_inv s"
  shows "accounts s (open_port_log T E s) (open_port T E s)"
proof -
  have "tally (OpenPort_log T fd t) = 0" for fd and t :: "'a sercd"
    by (simp add: OpenPort_log_def neutral_tally settings_neutral)
  moreover have "tally (LogStr LOG_ERR (''Unable to open device '' @ x)) = -1" for x
    by (simp add: LogStr_def tally_LogMsg TmpStrLen_def account_defs)
  ultimately show ?thesis
    by (auto simp: open_port_log_def open_port_def accounts_def connected_clients_def OpenPort_def Let_def
        set_port_def emit_def simp del: append.simps split: prod.split)
qed

lemma modem_state_accounts:
  assumes "loop_inv s" and "DeviceFd s \<noteq> None"
  shows "accounts s (modem_state_log T s) (modem_state T s)"
proof (rule accounts_kept [OF modem_state_ok [OF assms]])
  have "neutral (modem_state_log T s)"
    by (simp add: modem_state_log_def Let_def neutral_rules del: append.simps)
  then show "tally (modem_state_log T s) = 0"
    by (rule neutral_tally)
  show "modem_state T s \<noteq> Inr (Continue t)" for t
    using assms(2) by (auto simp: modem_state_def deref_def Let_def)
qed (rule inv_open(4) [OF assms])

section \<open>The account of a run\<close>

lemma handle_events_accounts:
  assumes "loop_inv s" and "events_ok evs s"
  shows "accounts s (handle_events_log T E evs s) (handle_events T E evs s)"
proof -
  let ?I = "\<lambda>t. loop_inv t \<and> events_ok evs t"
  let ?J = "\<lambda>t ls r. accounts t ls r \<and> (\<exists>Q. stage_ok Q t r)"
  have keep: "?I u" if "?I t" "?J t ls r" "r = Inr (Next u)" for t u ls r
    using that events_ok_onward [of evs t u] by (auto simp: stage_ok_def)
  have chain: "accounts t (log_on e evs g t @ stage_log (on e evs f t) k)
      (and_then (on e evs f t) h)"
    if I: "?I t" and J: "e \<in> evs \<Longrightarrow> ?J t (g t) (f t)" and go: "\<And>u. ?I u \<Longrightarrow> accounts u (k u) (h u)"
    for e g f t k h
  proof (rule accounts_then)
    show "accounts t (log_on e evs g t) (on e evs f t)"
      using J by (simp add: log_on_def on_def)
    show "accounts u (k u) (h u)" if "on e evs f t = Inr (Next u)" for u
      using that I keep [OF I J] by (intro go) (auto simp: on_def split: if_splits)
  qed
  have 1: "SERCD_EV_DEVICEIN \<in> evs \<Longrightarrow> ?J t (device_in_log E t) (device_in T E t)"
    "SERCD_EV_DEVICEOUT \<in> evs \<Longrightarrow> ?J t (device_out_log E t) (device_out T E t)"
    "SERCD_EV_SOCKETOUT \<in> evs \<Longrightarrow> ?J t (socket_out_log E t) (socket_out T E t)"
    "SERCD_EV_SOCKETIN \<in> evs \<Longrightarrow> ?J t (socket_in_log T E t) (socket_in T E t)"
    "SERCD_EV_SOCKETCONNECT \<in> evs \<Longrightarrow> ?J t (socket_connect_log E t) (socket_connect E t)"
    if "?I t" for t
    using that device_in_accounts [of t E T] device_out_accounts [of t E T]
      socket_out_accounts [of t E T] socket_in_accounts [of t T E] socket_connect_accounts [of t E]
      device_in_ok [of t E T] device_out_ok [of t T E] socket_out_ok [of t T E]
      socket_in_ok [of t E T] socket_connect_ok [of t E]
    by (auto simp: events_ok_def)
  have modem: "accounts t (log_on SERCD_EV_MODEMSTATE evs (modem_state_log T) t)
      (on SERCD_EV_MODEMSTATE evs (modem_state T) t)" if "?I t" for t
    using that modem_state_accounts [of t T] by (auto simp: log_on_def on_def events_ok_def)
  have port: "accounts t (open_port_log T E t @ stage_log (open_port T E t)
        (log_on SERCD_EV_MODEMSTATE evs (modem_state_log T)))
      (and_then (open_port T E t) (on SERCD_EV_MODEMSTATE evs (modem_state T)))" if "?I t" for t
  proof (rule accounts_then)
    show *: "accounts t (open_port_log T E t) (open_port T E t)"
      using that open_port_accounts by blast
    show "accounts u (log_on SERCD_EV_MODEMSTATE evs (modem_state_log T) u)
        (on SERCD_EV_MODEMSTATE evs (modem_state T) u)" if "open_port T E t = Inr (Next u)" for u
      using keep [OF \<open>?I t\<close> _ that] * open_port_ok [of t T E] \<open>?I t\<close> by (intro modem) blast
  qed
  show ?thesis
    unfolding handle_events_def handle_events_log_def
    by (intro chain port 1) (use assms in simp_all)
qed

lemma iteration_accounts:
  assumes "loop_inv s" and "main_iteration T E s = Inr (Again t)"
  shows "connected_clients t = connected_clients s + tally (main_iteration_log T E errno s)"
proof -
  define none where "none \<longleftrightarrow> DeviceIn s = None \<and> DeviceOut s = None \<and> SocketOut s = None \<and>
    SocketIn s = None \<and> LSocketFd s = None"
  obtain r s1 where sel: "SercdSelect E (DeviceIn s) (DeviceOut s) (Modemstate s) (SocketOut s)
      (SocketIn s) (LSocketFd s) DEFAULT_POLL_INTERVAL s = (r, s1)"
    by fastforce
  have "s1 = s\<lparr>LastPoll := LastPoll s1\<rparr>"
    using SercdSelect_state [OF sel] .
  then have s1: "connected_clients s1 = connected_clients s"
    by (metis connected_clients_simps(3))
  have it: "main_iteration T E s = (if none then Inr (Return NoError s)
      else case r of None \<Rightarrow> Inr (Return Error s1)
        | Some evs \<Rightarrow> if evs = {} then Inr (Again s1)
            else bind_r (handle_events T E evs s1)
              (\<lambda>x. case x of Next s2 \<Rightarrow> Inr (Again s2) | Continue s2 \<Rightarrow> Inr (Again s2)))"
    unfolding main_iteration_def sel none_def by (cases r) simp_all
  obtain evs where evs: "\<not> none" "r = Some evs"
    using assms(2) unfolding it by (cases r) (auto split: if_splits)
  have "main_iteration_log T E errno s = (if none then exit_log 1456
      else case r of None \<Rightarrow> LogStr LOG_ERR (''select error: '' @ decimal_int errno) @ exit_log 1465
        | Some evs \<Rightarrow> if evs = {} then [] else handle_events_log T E evs s1)"
    unfolding main_iteration_log_def sel none_def by (cases r) simp_all
  then have log: "main_iteration_log T E errno s =
      (if evs = {} then [] else handle_events_log T E evs s1)"
    using evs by simp
  show ?thesis
  proof (cases "evs = {}")
    case True
    then show ?thesis
      using assms(2) it evs log s1 by simp
  next
    case False
    note ev = select_events_ok [OF assms(1) sel [unfolded evs(2)]]
    have "bind_r (handle_events T E evs s1)
        (\<lambda>x. case x of Next s2 \<Rightarrow> Inr (Again s2) | Continue s2 \<Rightarrow> Inr (Again s2)) = Inr (Again t)"
      using assms(2) it evs False by simp
    then obtain x where "handle_events T E evs s1 = Inr x"
        "(case x of Next s2 \<Rightarrow> Inr (Again s2) | Continue s2 \<Rightarrow> Inr (Again s2)) =
          (Inr (Again t) :: fault + _)"
      unfolding bind_r_eq_Inr by blast
    then have "handle_events T E evs s1 \<in> {Inr (Next t), Inr (Continue t)}"
      by (cases x) simp_all
    then show ?thesis
      using handle_events_accounts [OF ev(2,1), of T E] log False s1 by (auto simp: accounts_def)
  qed
qed

lemma run_accounts:
  "logged_runs T s ls t \<Longrightarrow> loop_inv s \<Longrightarrow> connected_clients t = connected_clients s + tally ls"
proof (induction rule: logged_runs.induct)
  case (logged_step s ls s1 E s2 errno)
  have "loop_inv s1"
    using runs_inv logged_step.hyps(1) logged_step.prems logged_runs_runs by blast
  then have "loop_inv (set_port (line_change E) s1)"
    by simp
  then show ?case
    using iteration_accounts [OF _ logged_step.hyps(2), of errno] logged_step by simp
qed simp

text \<open>How many lines say something.\<close>

definition lines_that :: "(string \<Rightarrow> bool) \<Rightarrow> line list \<Rightarrow> nat" where
  "lines_that P ls = length (filter (\<lambda>l. P (snd l)) ls)"

lemma tally_counts:
  "tally ls = int (lines_that (\<lambda>t. t = ''New connection'') ls) -
    (int (lines_that is_refusal ls) + int (lines_that is_loss ls))"
proof (induction ls)
  case (Cons l ls)
  have "\<not> is_refusal ''New connection''" "\<not> is_loss ''New connection''"
    "\<not> (is_refusal t \<and> is_loss t)" for t
    by (auto simp: account_defs)
  then have "weight (snd l) = of_bool (snd l = ''New connection'') - of_bool (is_refusal (snd l)) -
      of_bool (is_loss (snd l))"
    by (auto simp: weight_def)
  then show ?case
    using Cons.IH by (simp add: tally_def lines_that_def)
qed (simp add: tally_def lines_that_def)

text \<open>
  C24. The log accounts for every connection. From the first start on, the lines that report a new
  connection are as many as those that report one not taken (\<open>accept\<close> failed, or there was a client
  already), those that report how a client was lost (nine messages, which no other line equals whatever
  it quotes of what a client sent), and the client there is now, if there is one.
\<close>

theorem connections_accounted_for:
  assumes "SercdService_main name F l b r (sercd_globals a devb netb rb p) = Again s0"
    and "logged_runs T s0 ls s"
  shows "lines_that (\<lambda>t. t = ''New connection'') ls =
    lines_that is_refusal ls + lines_that is_loss ls + (if InSocketFd s = None then 0 else 1)"
proof -
  have "loop_inv s0" "connected_clients s0 = 0"
    using assms(1)
    by (auto simp: SercdService_main_def Let_def sercd_globals_def loop_inv_def emit_def rx_inv_def
        connected_clients_def split: if_splits)
  then have "connected_clients s = tally ls"
    using run_accounts [OF assms(2)] by simp
  then show ?thesis
    unfolding tally_counts by (simp add: connected_clients_def split: if_splits)
qed

definition refusing_env :: "mem_port env" where
  "refusing_env = quiet_env\<lparr>ready_fds := Some ({3}, {}), accepted := -1\<rparr>"

lemma refused_iteration:
  fixes s :: "mem_port sercd"
  assumes "DeviceFd s = None" and "InSocketFd s = None" and "OutSocketFd s = None"
    and "LSocketFd s = Some 3"
  shows "main_iteration mem_tty refusing_env s = Inr (Again s)"
    and "map snd (main_iteration_log mem_tty refusing_env 0 s) =
      [''New connection'', ''Error accepting socket'']"
proof -
  have fds: "DeviceIn s = None" "DeviceOut s = None" "Modemstate s = None" "SocketOut s = None"
      "SocketIn s = None"
    using assms
    by (simp_all add: DeviceIn_def DeviceOut_def Modemstate_def SocketOut_def SocketIn_def)
  have sel: "SercdSelect refusing_env None None None None None (Some 3) i s =
      (Some {SERCD_EV_SOCKETCONNECT}, s)" for i
    by (simp add: SercdSelect_def refusing_env_def quiet_env_def Let_def event_if_def FD_ISSET_def
        FD_SET_def)
  have steps: "handle_events mem_tty refusing_env {SERCD_EV_SOCKETCONNECT} s = Inr (Next s)"
    "map snd (handle_events_log mem_tty refusing_env {SERCD_EV_SOCKETCONNECT} s) =
      [''New connection'', ''Error accepting socket'']"
    using assms
    by (simp_all add: handle_events_def handle_events_log_def on_def log_on_def stage_log_def
        socket_connect_def socket_connect_log_def open_port_def open_port_log_def deref_def
        refusing_env_def quiet_env_def LogMsg_texts)
  show "main_iteration mem_tty refusing_env s = Inr (Again s)"
    "map snd (main_iteration_log mem_tty refusing_env 0 s) =
      [''New connection'', ''Error accepting socket'']"
    using fds sel steps assms(4)
    by (simp_all add: main_iteration_def main_iteration_log_def)
qed

theorem connections_accounted_for_witness:
  "\<exists>s0 ls s. SercdService_main [] \<lparr>frame_devicefd = 0, frame_insocket = 0,
      frame_ToDevBuf = fresh_buffer, frame_ToNetBuf = fresh_buffer, frame_readbuf = (\<lambda>i. 0)\<rparr> 3 0 0
      (fresh_sercd LP64 sample_port) = Again s0 \<and>
    logged_runs mem_tty s0 ls s \<and> map snd ls = [''New connection'', ''Error accepting socket''] \<and>
    lines_that is_refusal ls + lines_that is_loss ls = 1"
proof -
  obtain s0 where s0: "SercdService_main [] \<lparr>frame_devicefd = 0, frame_insocket = 0,
      frame_ToDevBuf = fresh_buffer, frame_ToNetBuf = fresh_buffer, frame_readbuf = (\<lambda>i. 0)\<rparr> 3 0 0
      (sercd_globals LP64 fresh_buffer fresh_buffer (\<lambda>i. 0) sample_port) = Again s0"
    by (simp add: SercdService_main_def Let_def)
  then have fds: "DeviceFd s0 = None" "InSocketFd s0 = None" "OutSocketFd s0 = None"
      "LSocketFd s0 = Some 3"
    by (auto simp: SercdService_main_def Let_def sercd_globals_def)
  let ?ls = "main_iteration_log mem_tty refusing_env 0 s0"
  have "set_port (line_change refusing_env) s0 = s0"
    by (simp add: refusing_env_def quiet_env_def set_port_def)
  then have run: "logged_runs mem_tty s0 ?ls s0"
    using logged_step [OF logged_refl, of mem_tty refusing_env s0 s0 0] refused_iteration(1) [OF fds]
    by simp
  note texts = refused_iteration(2) [OF fds]
  have "lines_that (\<lambda>t. t = ''New connection'') ls = 1"
    if "map snd ls = [''New connection'', ''Error accepting socket'']" for ls :: "line list"
    using that by (auto simp: lines_that_def map_eq_Cons_conv)
  then show ?thesis
    using connections_accounted_for [OF s0 run] texts run s0 fds(2)
    by (auto simp: fresh_sercd_def intro!: exI [of _ s0] exI [of _ ?ls])
qed

end
