(* ===== verification/Command_Line.thy ===== *)
theory Command_Line
  imports Loop_Behaviour Hdb_Lock
begin

text \<open>
  The desktop program's start (\<open>sercd.c\<close> lines 1260 to 1380): its command line, the port it listens on
  and the start under \<open>inetd\<close>, with the signal handlers of \<open>PlatformInit\<close> (\<open>unix.c\<close>). \<open>getopt\<close> and
  \<open>strtol\<close> are those of POSIX and C; \<open>getopt\<close> may stop at the first operand, as POSIX has it, or look
  for options behind it, as the GNU library does. \<open>inet_addr\<close> is a parameter.
\<close>

section \<open>Options\<close>

text \<open>What \<open>getopt\<close> returns: an option with its \<open>optarg\<close>, or a question mark.\<close>

datatype answer = Opt char "string option" | Unknown

text \<open>Whether a character is an option of \<open>optstring\<close>, and then whether it takes an argument.\<close>

fun option_kind :: "string \<Rightarrow> char \<Rightarrow> bool option" where
  "option_kind [] c = None"
| "option_kind (x # xs) c =
     (if x = c \<and> c \<noteq> CHR '':'' then Some (xs \<noteq> [] \<and> hd xs = CHR '':'') else option_kind xs c)"

text \<open>The options of one argument, which may take the next argument with them.\<close>

fun cluster :: "string \<Rightarrow> string \<Rightarrow> string list \<Rightarrow> answer list \<times> string list" where
  "cluster optstring [] args = ([], args)"
| "cluster optstring (c # cs) args =
     (case option_kind optstring c of
        None \<Rightarrow> (let (as, rest) = cluster optstring cs args in (Unknown # as, rest))
      | Some False \<Rightarrow> (let (as, rest) = cluster optstring cs args in (Opt c None # as, rest))
      | Some True \<Rightarrow>
          if cs \<noteq> [] then ([Opt c (Some cs)], args)
          else (case args of
                  [] \<Rightarrow> ([Unknown], [])
                | a # rest \<Rightarrow> ([Opt c (Some a)], rest)))"

lemma cluster_shortens: "cluster optstring cs args = (as, rest) \<Longrightarrow> length rest \<le> length args"
  by (induction cs arbitrary: as)
    (auto split: option.splits bool.splits prod.splits if_splits list.splits)

text \<open>All calls of \<open>getopt\<close> until it returns -1: the options, and the operands from \<open>optind\<close> on.\<close>

function getopt_all :: "bool \<Rightarrow> string \<Rightarrow> string list \<Rightarrow> answer list \<times> string list" where
  "getopt_all posix optstring [] = ([], [])"
| "getopt_all posix optstring (a # args) =
     (if a = ''--'' then ([], args)
      else if 1 < length a \<and> hd a = CHR ''-'' then
        (let (as, rest) = cluster optstring (tl a) args;
             (as', operands) = getopt_all posix optstring rest
         in (as @ as', operands))
      else if posix then ([], a # args)
      else (let (as, operands) = getopt_all posix optstring args in (as, a # operands)))"
  by pat_completeness auto
termination
  by (relation "measure (\<lambda>(posix, optstring, args). length args)")
    (auto dest: cluster_shortens [OF sym])

section \<open>Numbers\<close>

text \<open>A character as a digit; 36 stands for none.\<close>

definition digit_of :: "byte \<Rightarrow> nat" where
  "digit_of b =
     (if is_digit b then unat b - 48
      else if 97 \<le> b \<and> b \<le> 122 then unat b - 87
      else if 65 \<le> b \<and> b \<le> 90 then unat b - 55
      else 36)"

text \<open>The prefix chooses the base when the base is zero.\<close>

definition number_base :: "nat \<Rightarrow> byte list \<Rightarrow> nat \<times> byte list" where
  "number_base base bs =
     (if base = 0 then
        (case bs of
           z # x # d # ds \<Rightarrow>
             if z = 48 \<and> x \<in> {120, 88} \<and> digit_of d < 16 then (16, d # ds)
             else if z = 48 then (8, bs) else (10, bs)
         | _ \<Rightarrow> if bs \<noteq> [] \<and> hd bs = 48 then (8, bs) else (10, bs))
      else (base, bs))"

definition long_limits :: "abi \<Rightarrow> int \<Rightarrow> int" where
  "long_limits a v =
     (let m = 2 ^ (8 * ulong_size a - 1) in max (- m) (min (m - 1) v))"

text \<open>\<open>strtol\<close>: the value, cut at the limits of \<open>long\<close>, and what \<open>endptr\<close> points at.\<close>

definition strtol :: "abi \<Rightarrow> nat \<Rightarrow> byte list \<Rightarrow> int \<times> byte list" where
  "strtol a base bs =
     (let s = dropWhile is_space bs;
          minus = (s \<noteq> [] \<and> hd s = 45);
          t = (if s \<noteq> [] \<and> hd s \<in> {43, 45} then tl s else s);
          (base', u) = number_base base t;
          ds = takeWhile (\<lambda>b. digit_of b < base') u;
          v = foldl (\<lambda>v b. int base' * v + int (digit_of b)) 0 ds
      in if ds = [] then (0, bs)
         else (long_limits a (if minus then - v else v), dropWhile (\<lambda>b. digit_of b < base') u))"

definition atoi_arg :: "abi \<Rightarrow> string \<Rightarrow> int" where
  "atoi_arg a cs = sint (word_of_int (fst (strtol a 10 (ascii cs))) :: u32)"

section \<open>The command line\<close>

text \<open>The variables the command line sets; the first four are set by options.\<close>

record command_line =
  cl_cisco :: bool
  cl_stderr :: bool
  cl_port :: u32
  cl_inetd :: bool
  cl_addr :: u32
  cl_level :: int
  cl_device :: string
  cl_lock :: string
  cl_interval :: int

text \<open>The complaints before \<open>exit (Error)\<close>.\<close>

datatype complaint = InvalidPort | InvalidAddress | UsageShown | InvalidInterval

text \<open>
  What is written to the standard error output for each; \<open>Usage\<close> in the configuration with a lock file,
  where the version is defined outside this repository.
\<close>

definition Usage :: "string \<Rightarrow> string" where
  "Usage version = concat (map (\<lambda>l. l @ [CHR 0x0A])
     [''sercd '' @ version @ '': RFC 2217 compliant serial port redirector'',
      ''This program can be run by the inetd superserver or standalone'',
      [],
      ''Usage:'',
      ''sercd [-ie] [-p port] [-l addr] <loglevel> <device> <lockfile> [pollingterval]'',
      ''-i       indicates Cisco IOS Bug compatibility'',
      ''-e       send output to standard error instead of syslog'',
      ''-p port  listen on specified port, instead of port 7000'',
      ''-l addr  standalone mode, bind to specified adress, empty string for all'',
      ''Poll interval is in milliseconds, default is '' @ decimal_int DEFAULT_POLL_INTERVAL @ '','',
      ''0 means no polling''])"

definition complaint_text :: "string \<Rightarrow> complaint \<Rightarrow> string" where
  "complaint_text version x =
     (case x of
        InvalidPort \<Rightarrow> ''Invalid port'' @ [CHR 0x0A]
      | InvalidAddress \<Rightarrow> ''Invalid bind address'' @ [CHR 0x0A]
      | UsageShown \<Rightarrow> Usage version
      | InvalidInterval \<Rightarrow> ''Invalid polling interval'' @ [CHR 0x0A])"

text \<open>The four texts tell the complaints apart.\<close>

lemma complaint_text_inj: "inj (complaint_text version)"
  by (rule injI) (auto simp: complaint_text_def Usage_def split: complaint.splits)

definition INADDR_ANY :: u32 where
  "INADDR_ANY = 0"

definition cl_start :: command_line where
  "cl_start = \<lparr>cl_cisco = False, cl_stderr = False, cl_port = 7000, cl_inetd = True,
     cl_addr = INADDR_ANY, cl_level = MaxLogLevel, cl_device = [], cl_lock = [],
     cl_interval = DEFAULT_POLL_INTERVAL\<rparr>"

fun take_option ::
  "abi \<Rightarrow> (string \<Rightarrow> u32) \<Rightarrow> answer \<Rightarrow> command_line \<Rightarrow> complaint + command_line" where
  "take_option a inet_addr (Opt c optarg) cl =
     (if c = CHR ''i'' then Inr (cl\<lparr>cl_cisco := True\<rparr>)
      else if c = CHR ''e'' then Inr (cl\<lparr>cl_stderr := True\<rparr>)
      else if c = CHR ''p'' then
        (let v = word_of_int (fst (strtol a 10 (ascii (the optarg)))) :: u32
         in if v = 0 then Inl InvalidPort else Inr (cl\<lparr>cl_port := v\<rparr>))
      else if c = CHR ''l'' then
        (if the optarg \<noteq> [] then
           (let addr = inet_addr (the optarg)
            in if addr = - 1 then Inl InvalidAddress
               else Inr (cl\<lparr>cl_addr := addr, cl_inetd := False\<rparr>))
         else Inr (cl\<lparr>cl_inetd := False\<rparr>))
      else Inr cl)"
| "take_option a inet_addr Unknown cl = Inr cl"

definition take_operands :: "abi \<Rightarrow> string list \<Rightarrow> command_line \<Rightarrow> complaint + command_line" where
  "take_operands a operands cl =
     (if length operands < 3 \<or> 4 < length operands then Inl UsageShown
      else
        (let cl1 = cl\<lparr>cl_level := atoi_arg a (operands ! 0), cl_device := operands ! 1,
                      cl_lock := operands ! 2\<rparr>
         in if length operands = 4 then
              (let (v, rest) = strtol a 0 (ascii (operands ! 3))
               in if rest \<noteq> [] \<or> v < 0 then Inl InvalidInterval
                  else Inr (cl1\<lparr>cl_interval := v\<rparr>))
            else Inr (cl1\<lparr>cl_interval := DEFAULT_POLL_INTERVAL\<rparr>)))"

definition parse_command_line ::
  "abi \<Rightarrow> (string \<Rightarrow> u32) \<Rightarrow> bool \<Rightarrow> string list \<Rightarrow> complaint + command_line" where
  "parse_command_line a inet_addr posix args =
     (let (as, operands) = getopt_all posix ''iep:l:'' args
      in bind_r (each_r (take_option a inet_addr) as cl_start) (take_operands a operands))"

text \<open>\<open>sin.sin_port = htons (opt_port)\<close>: the port that is listened on has sixteen bits.\<close>

definition listening_port :: "command_line \<Rightarrow> 16 word" where
  "listening_port cl = ucast (cl_port cl)"

section \<open>Reading numbers back\<close>

lemma digit_of_decimal: "digit_of b < 10 \<longleftrightarrow> is_digit b"
  by (auto simp: digit_of_def is_digit_def word_le_nat_alt)

lemma digit_of_value: "is_digit b \<Longrightarrow> int (digit_of b) = uint b - 48"
  by (auto simp: digit_of_def is_digit_def word_le_nat_alt of_nat_diff)

lemma digits_folded:
  "foldl (\<lambda>v b. 10 * v + int (digit_of b)) v (takeWhile is_digit bs) = digits_value bs v"
  by (induction bs arbitrary: v) (simp_all add: digit_of_value)

lemma decimal_head: "0 < n \<Longrightarrow> hd (ascii (decimal n)) \<noteq> 48"
proof (induction n rule: decimal.induct)
  case (1 n)
  show ?case
  proof (cases "n < 10")
    case True
    then have "(of_char (char_of (48 + n)) :: byte) = of_nat (48 + n)"
      by (rule digit_byte)
    moreover have "unat (of_nat (48 + n) :: byte) = 48 + n"
      using True by (simp only: unat_of_nat) simp
    then have "(of_nat (48 + n) :: byte) \<noteq> 48"
      using 1(2) by (auto dest: arg_cong [where f = unat])
    ultimately show ?thesis
      using True by (subst decimal.simps) simp
  next
    case False
    have "ascii (decimal (n div 10)) \<noteq> []"
      using decimal_nonempty by (simp add: ascii_def)
    then show ?thesis
      using False 1(1) by (subst decimal.simps) simp
  qed
qed

lemma decimal_read:
  "takeWhile (\<lambda>b. digit_of b < 10) (ascii (decimal n)) = ascii (decimal n)"
  "dropWhile (\<lambda>b. digit_of b < 10) (ascii (decimal n)) = []"
  "foldl (\<lambda>v b. 10 * v + int (digit_of b)) 0 (ascii (decimal n)) = int n"
proof -
  have digits: "\<forall>b\<in>set (ascii (decimal n)). is_digit b"
    using decimal_digits by blast
  then show "takeWhile (\<lambda>b. digit_of b < 10) (ascii (decimal n)) = ascii (decimal n)"
    "dropWhile (\<lambda>b. digit_of b < 10) (ascii (decimal n)) = []"
    by (simp_all add: digit_of_decimal)
  have "takeWhile is_digit (ascii (decimal n)) = ascii (decimal n)"
    using digits by simp
  moreover have "digits_value (ascii (decimal n)) 0 = int n"
    using decimal_value [of n "[]"] by simp
  ultimately show "foldl (\<lambda>v b. 10 * v + int (digit_of b)) 0 (ascii (decimal n)) = int n"
    using digits_folded [of 0 "ascii (decimal n)"] by metis
qed

lemma decimal_front:
  obtains b cs where "ascii (decimal n) = b # cs" and "\<not> is_space b" and "b \<noteq> 43" and "b \<noteq> 45"
proof -
  obtain b cs where b: "ascii (decimal n) = b # cs"
    using decimal_nonempty [of n] by (cases "ascii (decimal n)") (auto simp: ascii_def)
  then have "is_digit b"
    using decimal_digits [of b n] by simp
  then have "\<not> is_space b" "b \<noteq> 43" "b \<noteq> 45"
    by (auto simp: is_digit_def is_space_def word_le_nat_alt)
  then show thesis
    by (rule that [OF b])
qed

lemma number_base_decimal:
  assumes "0 < n"
  shows "number_base 0 (ascii (decimal n)) = (10, ascii (decimal n))"
proof -
  obtain b cs where b: "ascii (decimal n) = b # cs"
    by (rule decimal_front)
  then have "b \<noteq> 48"
    using decimal_head [OF assms] by simp
  then show ?thesis
    unfolding b number_base_def by (simp split: list.split)
qed

lemma decimal_zero: "ascii (decimal 0) = [48]"
  by (subst decimal.simps) (simp add: digit_byte [of 0, simplified])

lemma strtol_decimal: "strtol a 10 (ascii (decimal n)) = (long_limits a (int n), [])"
proof -
  obtain b cs where b: "ascii (decimal n) = b # cs" "\<not> is_space b" "b \<noteq> 43" "b \<noteq> 45"
    by (rule decimal_front)
  then show ?thesis
    using decimal_read [of n] by (simp add: strtol_def number_base_def Let_def)
qed

lemma strtol_decimal_any: "strtol a 0 (ascii (decimal n)) = (long_limits a (int n), [])"
proof (cases "n = 0")
  case True
  have "\<not> is_space 48"
    by (simp add: is_space_def)
  then show ?thesis
    unfolding True decimal_zero
    by (simp add: strtol_def number_base_def Let_def digit_of_def is_digit_def)
next
  case False
  obtain b cs where b: "ascii (decimal n) = b # cs" "\<not> is_space b" "b \<noteq> 43" "b \<noteq> 45"
    by (rule decimal_front)
  then show ?thesis
    using decimal_read [of n] number_base_decimal [of n] False by (simp add: strtol_def Let_def)
qed

lemma strtol_minus: "strtol a 10 (45 # ascii (decimal n)) = (long_limits a (- int n), [])"
proof -
  obtain b cs where b: "ascii (decimal n) = b # cs"
    by (rule decimal_front)
  have "\<not> is_space 45"
    by (simp add: is_space_def)
  then show ?thesis
    using decimal_read [of n] b by (simp add: strtol_def number_base_def Let_def)
qed

lemma long_limits_int: "- (2 ^ 31) \<le> v \<Longrightarrow> v < 2 ^ 31 \<Longrightarrow> long_limits a v = v"
  by (cases a) (simp_all add: long_limits_def)

lemma strtol_decimal_int:
  assumes "- (2 ^ 31) \<le> v" and "v < 2 ^ 31"
  shows "fst (strtol a 10 (ascii (decimal_int v))) = v"
  using assms strtol_decimal [of a "nat v"] strtol_minus [of a "nat (- v)"]
    long_limits_int [OF assms, of a]
  by (cases "v < 0") (simp_all add: decimal_int_def)

section \<open>Printing a command line\<close>

text \<open>The values a command line can give.\<close>

definition acceptable :: "abi \<Rightarrow> command_line \<Rightarrow> bool" where
  "acceptable a cl \<longleftrightarrow>
     cl_port cl \<noteq> 0 \<and> cl_addr cl \<noteq> - 1 \<and> (cl_inetd cl \<longrightarrow> cl_addr cl = INADDR_ANY) \<and>
     - (2 ^ 31) \<le> cl_level cl \<and> cl_level cl < 2 ^ 31 \<and>
     0 \<le> cl_interval cl \<and> long_limits a (cl_interval cl) = cl_interval cl"

definition print_command_line :: "(u32 \<Rightarrow> string) \<Rightarrow> command_line \<Rightarrow> string list" where
  "print_command_line inet_ntoa cl =
     (if cl_cisco cl then [''-i''] else []) @ (if cl_stderr cl then [''-e''] else []) @
     [''-p'', decimal_int (sint (cl_port cl))] @
     (if cl_inetd cl then [] else [''-l'', inet_ntoa (cl_addr cl)]) @
     [''--'', decimal_int (cl_level cl), cl_device cl, cl_lock cl, decimal (nat (cl_interval cl))]"

lemma getopt_operands [simp]: "getopt_all posix optstring (''--'' # args) = ([], args)"
  by simp

lemma getopt_flag:
  assumes "option_kind optstring c = Some False" and "c \<noteq> CHR ''-''"
  shows "getopt_all posix optstring ([CHR ''-'', c] # args) =
    (Opt c None # fst (getopt_all posix optstring args), snd (getopt_all posix optstring args))"
  using assms by (simp split: prod.split)

lemma getopt_argument:
  assumes "option_kind optstring c = Some True" and "c \<noteq> CHR ''-''"
  shows "getopt_all posix optstring ([CHR ''-'', c] # x # args) =
    (Opt c (Some x) # fst (getopt_all posix optstring args), snd (getopt_all posix optstring args))"
  using assms by (simp split: prod.split)

lemmas getopt_print = getopt_flag [of "''iep:l:''" "CHR ''i''"] getopt_flag [of "''iep:l:''" "CHR ''e''"]
  getopt_argument [of "''iep:l:''" "CHR ''p''"] getopt_argument [of "''iep:l:''" "CHR ''l''"]

lemma getopt_printed:
  "getopt_all posix ''iep:l:'' (print_command_line inet_ntoa cl) =
    ((if cl_cisco cl then [Opt CHR ''i'' None] else []) @
     (if cl_stderr cl then [Opt CHR ''e'' None] else []) @
     [Opt CHR ''p'' (Some (decimal_int (sint (cl_port cl))))] @
     (if cl_inetd cl then [] else [Opt CHR ''l'' (Some (inet_ntoa (cl_addr cl)))]),
     [decimal_int (cl_level cl), cl_device cl, cl_lock cl, decimal (nat (cl_interval cl))])"
  unfolding print_command_line_def
  by (cases "cl_cisco cl"; cases "cl_stderr cl"; cases "cl_inetd cl")
    (simp_all add: getopt_print del: getopt_all.simps)

lemma long_limits_read [simp]: "long_limits a (fst (strtol a base bs)) = fst (strtol a base bs)"
  by (cases a) (auto simp: strtol_def long_limits_def Let_def split: prod.splits)

lemma take_option_acceptable:
  "acceptable a cl \<Longrightarrow> take_option a inet_addr x cl = Inr cl' \<Longrightarrow> acceptable a cl'"
  by (cases x) (auto simp: acceptable_def Let_def split: if_splits)

lemma take_options_acceptable:
  "each_r (take_option a inet_addr) xs cl = Inr cl' \<Longrightarrow> acceptable a cl \<Longrightarrow> acceptable a cl'"
  by (induction xs arbitrary: cl) (auto simp: bind_r_eq_Inr dest: take_option_acceptable)

lemma atoi_arg_bounds: "- (2 ^ 31) \<le> atoi_arg a cs" "atoi_arg a cs < 2 ^ 31"
  using sint_greater_eq [of "word_of_int (fst (strtol a 10 (ascii cs))) :: u32"]
    sint_less [of "word_of_int (fst (strtol a 10 (ascii cs))) :: u32"]
  by (simp_all add: atoi_arg_def)

lemma take_operands_acceptable:
  assumes "take_operands a operands cl = Inr cl'" and "acceptable a cl"
  shows "acceptable a cl'"
proof -
  have "long_limits a DEFAULT_POLL_INTERVAL = DEFAULT_POLL_INTERVAL"
    by (rule long_limits_int) (simp_all add: DEFAULT_POLL_INTERVAL_def)
  moreover have "long_limits a v = v" if "strtol a 0 (ascii (operands ! 3)) = (v, r)" for v r
    using long_limits_read [of a 0 "ascii (operands ! 3)"] that by simp
  ultimately show ?thesis
    using assms atoi_arg_bounds [of a]
    by (auto simp: take_operands_def acceptable_def Let_def DEFAULT_POLL_INTERVAL_def
        split: if_splits prod.splits)
qed

lemma cl_start_acceptable: "acceptable a cl_start"
proof -
  have "long_limits a DEFAULT_POLL_INTERVAL = DEFAULT_POLL_INTERVAL"
    by (rule long_limits_int) (simp_all add: DEFAULT_POLL_INTERVAL_def)
  then show ?thesis
    by (simp add: acceptable_def cl_start_def INADDR_ANY_def MaxLogLevel_def DEFAULT_POLL_INTERVAL_def)
qed

lemma parsed_acceptable:
  "parse_command_line a inet_addr posix args = Inr cl \<Longrightarrow> acceptable a cl"
  using take_operands_acceptable take_options_acceptable [OF _ cl_start_acceptable]
  by (auto simp: parse_command_line_def bind_r_eq_Inr split: prod.splits)

lemma printed_operands:
  assumes "acceptable a cl"
  shows "take_operands a [decimal_int (cl_level cl), cl_device cl, cl_lock cl,
      decimal (nat (cl_interval cl))] cl' =
    Inr (cl'\<lparr>cl_level := cl_level cl, cl_device := cl_device cl, cl_lock := cl_lock cl,
      cl_interval := cl_interval cl\<rparr>)"
proof -
  have "sint (word_of_int (cl_level cl) :: u32) = cl_level cl"
    using assms unfolding acceptable_def sint_sbintrunc'
    by (intro signed_take_bit_int_eq_self) simp_all
  then have "atoi_arg a (decimal_int (cl_level cl)) = cl_level cl"
    using assms strtol_decimal_int [of "cl_level cl" a] by (simp add: acceptable_def atoi_arg_def)
  then show ?thesis
    using assms strtol_decimal_any [of a "nat (cl_interval cl)"]
    by (simp add: acceptable_def take_operands_def Let_def)
qed

lemma printed_port:
  fixes p :: u32
  shows "word_of_int (fst (strtol a 10 (ascii (decimal_int (sint p))))) = p"
  using strtol_decimal_int [of "sint p" a] sint_greater_eq [of p] sint_less [of p] by simp

lemma printed_parsed:
  assumes "acceptable a cl"
    and "\<not> cl_inetd cl \<Longrightarrow> inet_addr (inet_ntoa (cl_addr cl)) = cl_addr cl"
    and "\<not> cl_inetd cl \<Longrightarrow> inet_ntoa (cl_addr cl) \<noteq> []"
  shows "parse_command_line a inet_addr posix (print_command_line inet_ntoa cl) = Inr cl"
  unfolding parse_command_line_def getopt_printed prod.case Let_def
  using assms
  by (cases "cl_cisco cl"; cases "cl_stderr cl"; cases "cl_inetd cl")
    (simp_all add: printed_operands printed_port cl_start_def acceptable_def)

text \<open>
  The command lines accepted are those that give acceptable values, and such values can be written
  as a command line that gives them again, on each ABI and with either \<open>getopt\<close>: a nonzero port, an
  address other than the one that stands for a failure, and none under \<open>inetd\<close>, a log level of an
  \<open>int\<close> and an interval of a \<open>long\<close> that is not negative, with any names of device and lock file.
\<close>

theorem command_line_roundtrip:
  assumes "inet_addr (inet_ntoa (cl_addr cl)) = cl_addr cl" and "inet_ntoa (cl_addr cl) \<noteq> []"
  shows "(acceptable a cl \<longleftrightarrow> (\<exists>posix args. parse_command_line a inet_addr posix args = Inr cl)) \<and>
    (acceptable a cl \<longrightarrow>
      (\<forall>posix. parse_command_line a inet_addr posix (print_command_line inet_ntoa cl) = Inr cl))"
  using printed_parsed [of a cl inet_addr inet_ntoa] assms parsed_acceptable by blast

theorem command_line_roundtrip_witness:
  "\<exists>cl. cl_port cl = 2217 \<and> cl_level cl = - 1 \<and> cl_device cl = ''-dev'' \<and> \<not> cl_inetd cl \<and>
    parse_command_line LP64 (\<lambda>t. 127) True
      (print_command_line (\<lambda>n. ''127.0.0.0'') cl) = Inr cl"
proof -
  let ?cl = "cl_start\<lparr>cl_port := 2217, cl_level := - 1, cl_device := ''-dev'', cl_inetd := False,
    cl_addr := 127\<rparr>"
  have "acceptable LP64 ?cl"
    using cl_start_acceptable [of LP64] by (simp add: acceptable_def cl_start_def)
  then show ?thesis
    using command_line_roundtrip [of "\<lambda>t. 127" "\<lambda>n. ''127.0.0.0''" ?cl LP64]
    by (intro exI [of _ ?cl]) simp
qed

text \<open>The check for a zero port comes before the port is cut to sixteen bits.\<close>

lemma port_is_cut:
  "\<exists>cl. acceptable a cl \<and> cl_port cl = 65616 \<and> listening_port cl = 80 \<and>
    parse_command_line a (\<lambda>t. 127) posix (print_command_line (\<lambda>n. ''127.0.0.0'') cl) = Inr cl"
proof -
  let ?cl = "cl_start\<lparr>cl_port := 65616\<rparr>"
  have ok: "acceptable a ?cl"
    using cl_start_acceptable [of a] by (simp add: acceptable_def cl_start_def)
  then have "parse_command_line a (\<lambda>t. 127) posix (print_command_line (\<lambda>n. ''127.0.0.0'') ?cl) =
      Inr ?cl"
    by (rule printed_parsed) (simp_all add: cl_start_def)
  then show ?thesis
    using ok by (intro exI [of _ ?cl]) (simp add: listening_port_def)
qed

text \<open>Only \<open>-l\<close> leaves \<open>inetd\<close> mode: a port given without it is never listened on.\<close>

lemma port_needs_address:
  "each_r (take_option a inet_addr) xs cl = Inr cl' \<Longrightarrow>
    cl_inetd cl' \<longleftrightarrow> cl_inetd cl \<and> (\<forall>x. Opt CHR ''l'' x \<notin> set xs)"
proof (induction xs arbitrary: cl)
  case (Cons x xs)
  then show ?case
    by (cases x) (auto simp: bind_r_eq_Inr Let_def split: if_splits)
qed simp

section \<open>The start\<close>

definition STDIN_FILENO :: int where
  "STDIN_FILENO = 0"

definition STDOUT_FILENO :: int where
  "STDOUT_FILENO = 1"

text \<open>Under \<open>inetd\<close> the client is there already, on the standard input and output.\<close>

definition start_inetd :: "'p sercd \<Rightarrow> fault + 'p sercd" where
  "start_inetd s =
     (let s1 = SetSocketOptions STDIN_FILENO STDOUT_FILENO
            (s\<lparr>InSocketFd := Some STDIN_FILENO, OutSocketFd := Some STDOUT_FILENO\<rparr>);
          s2 = InitTelnetStateMachine (s1\<lparr>ToNetBuf := InitBuffer (ToNetBuf s1)\<rparr>)
      in SendTelnetInitialOptions s2)"

text \<open>\<open>None\<close> is the exit with \<open>Error\<close>; the answers are those of \<open>socket\<close>, \<open>bind\<close> and \<open>listen\<close>.\<close>

definition start_listener :: "int \<Rightarrow> int \<Rightarrow> int \<Rightarrow> 'p sercd \<Rightarrow> 'p sercd option" where
  "start_listener lsocket bind_result listen_result s =
     (if lsocket < 0 then None
      else (let s1 = emit (SocketOption lsocket SO_REUSEADDR) s
            in if bind_result \<noteq> 0 then None
               else if listen_result < 0 then None
               else Some (s1\<lparr>LSocketFd := Some lsocket\<rparr>)))"

datatype 'p start = Complains complaint | Exits | Fails fault | Started "'p sercd"

definition desktop_main ::
  "abi \<Rightarrow> (string \<Rightarrow> u32) \<Rightarrow> bool \<Rightarrow> string list \<Rightarrow> int \<Rightarrow> int \<Rightarrow> int \<Rightarrow> 'p sercd \<Rightarrow> 'p start" where
  "desktop_main a inet_addr posix args lsocket bind_result listen_result s =
     (case parse_command_line a inet_addr posix args of
        Inl c \<Rightarrow> Complains c
      | Inr cl \<Rightarrow>
          (let s1 = s\<lparr>CiscoIOSCompatible := cl_cisco cl, DeviceName := ascii (cl_device cl)\<rparr>
           in if cl_inetd cl then
                (case start_inetd s1 of Inl e \<Rightarrow> Fails e | Inr s2 \<Rightarrow> Started s2)
              else
                (case start_listener lsocket bind_result listen_result s1 of
                   None \<Rightarrow> Exits | Some s2 \<Rightarrow> Started s2)))"

lemma SetSocketOptions_keeps [simp]:
  "LSocketFd (SetSocketOptions i j s) = LSocketFd s" "DeviceFd (SetSocketOptions i j s) = DeviceFd s"
  "InSocketFd (SetSocketOptions i j s) = InSocketFd s"
  "OutSocketFd (SetSocketOptions i j s) = OutSocketFd s"
  "ToNetBuf (SetSocketOptions i j s) = ToNetBuf s"
  by (simp_all add: SetSocketOptions_def emit_def)

text \<open>
  The listener of the service and that of the desktop program are the same; they differ in where the
  settings come from.
\<close>

lemma service_listens:
  "SercdService_main serialport F l b r s =
    (let s1 = s\<lparr>DeviceName := serialport,
                DeviceFd := map_option (\<lambda>d. frame_devicefd F) (DeviceFd s),
                InSocketFd := map_option (\<lambda>d. frame_insocket F) (InSocketFd s),
                OutSocketFd := map_option (\<lambda>d. frame_insocket F) (OutSocketFd s),
                ToDevBuf := frame_ToDevBuf F, ToNetBuf := frame_ToNetBuf F,
                readbuf := frame_readbuf F\<rparr>
     in case start_listener l b r s1 of
          None \<Rightarrow> Return Error (if l < 0 then s1 else emit (SocketOption l SO_REUSEADDR) s1)
        | Some s2 \<Rightarrow> Again (emit (ChangeState STATE_READY) s2))"
  by (simp add: SercdService_main_def start_listener_def Let_def)

text \<open>
  Under \<open>inetd\<close> the program starts with its client connected, the port closed and the opening
  negotiation in the buffer; otherwise with a listener and no client.
\<close>

lemma desktop_started:
  assumes "parse_command_line a inet_addr posix args = Inr cl"
  shows "case desktop_main a inet_addr posix args l b r (sercd_globals a devb netb rb p) of
      Complains c \<Rightarrow> False
    | Exits \<Rightarrow> \<not> cl_inetd cl \<and> (l < 0 \<or> b \<noteq> 0 \<or> r < 0)
    | Fails e \<Rightarrow> False
    | Started s \<Rightarrow> DeviceFd s = None \<and>
        (if cl_inetd cl then InSocketFd s = Some 0 \<and> OutSocketFd s = Some 1 \<and> LSocketFd s = None \<and>
           net_ok s \<and> net_bytes s = initial_options
         else InSocketFd s = None \<and> OutSocketFd s = None \<and> LSocketFd s = Some l)"
proof (cases "cl_inetd cl")
  case True
  let ?s = "(sercd_globals a devb netb rb p)\<lparr>CiscoIOSCompatible := cl_cisco cl,
    DeviceName := ascii (cl_device cl)\<rparr>"
  let ?s1 = "SetSocketOptions 0 1 (?s\<lparr>InSocketFd := Some 0, OutSocketFd := Some 1\<rparr>)"
  let ?s2 = "InitTelnetStateMachine (?s1\<lparr>ToNetBuf := InitBuffer (ToNetBuf ?s1)\<rparr>)"
  have empty: "net_ok ?s2" "net_bytes ?s2 = []"
    by (simp_all add: InitTelnetStateMachine_def net_ok_def net_bytes_def)
  obtain t where t: "SendTelnetInitialOptions ?s2 = Inr t" "kept ?s2 t" "net_ok t"
      "net_bytes t = initial_options"
    using initial_client_state [of ?s2] initial_sent [of ?s2] empty by auto
  then show ?thesis
    using True assms
    by (simp add: desktop_main_def start_inetd_def STDIN_FILENO_def STDOUT_FILENO_def Let_def
        kept_def InitTelnetStateMachine_def sercd_globals_def)
next
  case False
  then show ?thesis
    using assms
    by (simp add: desktop_main_def start_listener_def sercd_globals_def emit_def Let_def
        split: option.split)
qed

section \<open>Signals\<close>

text \<open>The handlers \<open>PlatformInit\<close> installs, by the number of the signal.\<close>

datatype handler = CallsSignalFunction | CallsBreakFunction

definition PlatformInit :: "(int \<times> handler) list" where
  "PlatformInit =
     [(1, CallsSignalFunction), (3, CallsSignalFunction), (6, CallsSignalFunction),
      (15, CallsSignalFunction), (2, CallsBreakFunction)]"

text \<open>What follows the handler: the program goes on, or ends with a status.\<close>

datatype 'a after = Goes_on 'a | Ends int 'a

text \<open>\<open>exit (NoError)\<close>, with \<open>ExitFunction\<close> run by \<open>atexit\<close>.\<close>

definition BreakFunction ::
  "'p tty \<Rightarrow> int \<Rightarrow> 'p sercd \<Rightarrow> ((priority option \<times> string) list \<times> 'p sercd) after" where
  "BreakFunction T unused s = Ends NoError (ExitFunction T s)"

definition deliver ::
  "'p tty \<Rightarrow> int \<Rightarrow> 'p sercd \<Rightarrow> ((priority option \<times> string) list \<times> 'p sercd) after option" where
  "deliver T sig s =
     map_option (\<lambda>h. case h of
         CallsSignalFunction \<Rightarrow> Goes_on (SignalFunction T sig s)
       | CallsBreakFunction \<Rightarrow> BreakFunction T sig s) (map_of PlatformInit sig)"

text \<open>
  A request to terminate, and then a break: the first closes everything and the program goes on with
  descriptors that are closed, the second ends it and closes them again.
\<close>

lemma terminate_then_break:
  assumes "DeviceFd s = Some d" and "InSocketFd s = Some c" and "OutSocketFd s = Some c"
  shows "\<exists>m t m' u. deliver T 15 s = Some (Goes_on (m, t)) \<and> DeviceFd t = Some d \<and>
    InSocketFd t = Some c \<and> deliver T 2 t = Some (Ends NoError (m', u)) \<and>
    trace u = trace s @ [Closed d, Closed c, Closed c] @ [Closed d, Closed c, Closed c]"
proof -
  obtain m t where t: "SignalFunction T 15 s = (m, t)"
    by (cases "SignalFunction T 15 s")
  obtain m' u where u: "ExitFunction T t = (m', u)"
    by (cases "ExitFunction T t")
  have "DeviceFd t = Some d" "InSocketFd t = Some c"
    using t assms
    by (auto simp: SignalFunction_def ExitFunction_def DropConnection_def ClosePort_def close_fd_def
        set_port_def emit_def split: option.splits)
  moreover have "trace u = trace s @ [Closed d, Closed c, Closed c] @ [Closed d, Closed c, Closed c]"
    using signal_then_exit_closes_twice [OF assms, of T 15] t u by simp
  ultimately show ?thesis
    using t u by (simp add: deliver_def PlatformInit_def BreakFunction_def)
qed

end
