(* ===== verification/Byte_Utils.thy ===== *)
theory Byte_Utils
  imports Prelude
begin

text \<open>
  The conversions of the Kotlin library (\<open>ByteUtils.kt\<close>): hexadecimal text, numbers of two and four
  bytes in either byte order, and arrays of bits. A Kotlin \<open>Byte\<close> is a word of eight bits, which the
  code reads unsigned with \<open>and 0xFF\<close>; characters are those of Latin-1.
\<close>

text \<open>A Kotlin \<open>Int\<close> that is computed with: an integer that wraps at 32 bits.\<close>

definition i32 :: "int \<Rightarrow> int" where
  "i32 x = sint (word_of_int x :: 32 word)"

lemma i32_id [simp]: "- (2 ^ 31) \<le> x \<Longrightarrow> x < 2 ^ 31 \<Longrightarrow> i32 x = x"
  unfolding i32_def sint_sbintrunc' by (rule signed_take_bit_int_eq_self) simp_all

lemma i32_range: "- (2 ^ 31) \<le> i32 x" "i32 x < 2 ^ 31"
  using sint_greater_eq [of "word_of_int x :: 32 word"] sint_less [of "word_of_int x :: 32 word"]
  by (simp_all add: i32_def)

text \<open>The exceptions: \<open>require\<close> that fails, and an index outside an array.\<close>

datatype kotlin_error = IllegalArgument | IndexOutOfBounds

datatype byte_order = BIG_ENDIAN | LITTLE_ENDIAN

section \<open>Hexadecimal text\<close>

definition hex_digit :: "nat \<Rightarrow> char" where
  "hex_digit n = char_of (if n < 10 then 48 + n else 55 + n)"

definition hex_byte :: "byte \<Rightarrow> string" where
  "hex_byte b = [hex_digit (unat b div 16), hex_digit (unat b mod 16)]"

fun toHex :: "byte list \<Rightarrow> string \<Rightarrow> string" where
  "toHex [] separator = []"
| "toHex [b] separator = hex_byte b"
| "toHex (b # c # bs) separator = hex_byte b @ separator @ toHex (c # bs) separator"

text \<open>\<open>Char.isWhitespace\<close> of the JVM: white space of Java or a space of Unicode.\<close>

definition isWhitespace :: "char \<Rightarrow> bool" where
  "isWhitespace c \<longleftrightarrow>
     (let n = of_char c :: nat in 9 \<le> n \<and> n \<le> 13 \<or> 28 \<le> n \<and> n \<le> 32 \<or> n = 160)"

text \<open>\<open>digitToIntOrNull (16)\<close>\<close>

definition digitToIntOrNull :: "char \<Rightarrow> nat option" where
  "digitToIntOrNull c =
     (let n = of_char c :: nat
      in if 48 \<le> n \<and> n \<le> 57 then Some (n - 48)
         else if 65 \<le> n \<and> n \<le> 70 then Some (n - 55)
         else if 97 \<le> n \<and> n \<le> 102 then Some (n - 87)
         else None)"

fun hex_pairs :: "string \<Rightarrow> kotlin_error + byte list" where
  "hex_pairs (h # l # cs) =
     (case (digitToIntOrNull h, digitToIntOrNull l) of
        (Some high, Some low) \<Rightarrow>
          bind_r (hex_pairs cs) (\<lambda>bs. Inr ((push_bit 4 (of_nat high) OR of_nat low) # bs))
      | _ \<Rightarrow> Inl IllegalArgument)"
| "hex_pairs cs = Inr []"

definition hexToByteArray :: "string \<Rightarrow> kotlin_error + byte list" where
  "hexToByteArray s =
     (let value = filter (\<lambda>c. \<not> isWhitespace c) s
      in if length value mod 2 \<noteq> 0 then Inl IllegalArgument else hex_pairs value)"

section \<open>Numbers\<close>

text \<open>\<open>buffer (offset, length, order)\<close>: the bytes a number is read from.\<close>

definition buffer :: "byte list \<Rightarrow> int \<Rightarrow> nat \<Rightarrow> kotlin_error + byte list" where
  "buffer bs offset len =
     (if 0 \<le> offset \<and> offset \<le> int (length bs) - int len
      then Inr (take len (drop (nat offset) bs)) else Inl IllegalArgument)"

fun little_endian :: "byte list \<Rightarrow> 'a::len word" where
  "little_endian [] = 0"
| "little_endian (b # bs) = ucast b OR push_bit 8 (little_endian bs)"

definition in_order :: "byte_order \<Rightarrow> byte list \<Rightarrow> byte list" where
  "in_order order bs = (if order = BIG_ENDIAN then rev bs else bs)"

definition toShort :: "byte list \<Rightarrow> int \<Rightarrow> byte_order \<Rightarrow> kotlin_error + 16 word" where
  "toShort bs offset order =
     bind_r (buffer bs offset 2) (\<lambda>ds. Inr (little_endian (in_order order ds)))"

definition toInt :: "byte list \<Rightarrow> int \<Rightarrow> byte_order \<Rightarrow> kotlin_error + 32 word" where
  "toInt bs offset order =
     bind_r (buffer bs offset 4) (\<lambda>ds. Inr (little_endian (in_order order ds)))"

definition word_bytes :: "nat \<Rightarrow> 'a::len word \<Rightarrow> byte list" where
  "word_bytes n w = map (\<lambda>i. ucast (drop_bit (8 * i) w)) [0..<n]"

definition short_bytes :: "16 word \<Rightarrow> byte_order \<Rightarrow> byte list" where
  "short_bytes w order = in_order order (word_bytes 2 w)"

definition int_bytes :: "32 word \<Rightarrow> byte_order \<Rightarrow> byte list" where
  "int_bytes w order = in_order order (word_bytes 4 w)"

section \<open>Bits\<close>

definition bit_shift :: "byte_order \<Rightarrow> nat \<Rightarrow> nat" where
  "bit_shift order bitIndex = (if order = BIG_ENDIAN then 7 - bitIndex else bitIndex)"

definition byte_bits :: "byte_order \<Rightarrow> byte \<Rightarrow> bool list" where
  "byte_bits order b = map (\<lambda>i. b AND push_bit (bit_shift order i) 1 \<noteq> 0) [0..<8]"

definition toBooleanArray :: "byte list \<Rightarrow> byte_order \<Rightarrow> bool list" where
  "toBooleanArray bs order = concat (map (byte_bits order) bs)"

definition bits_byte :: "byte_order \<Rightarrow> (nat \<Rightarrow> bool) \<Rightarrow> byte" where
  "bits_byte order f =
     foldl (\<lambda>v i. if f i then v OR push_bit (bit_shift order i) 1 else v) 0 [0..<8]"

definition toByteArray :: "bool list \<Rightarrow> byte_order \<Rightarrow> kotlin_error + byte list" where
  "toByteArray bits order =
     (if length bits mod 8 \<noteq> 0 then Inl IllegalArgument
      else Inr (map (\<lambda>k. bits_byte order (\<lambda>i. bits ! (8 * k + i))) [0..<length bits div 8]))"

definition toByte :: "bool list \<Rightarrow> byte_order \<Rightarrow> kotlin_error + byte" where
  "toByte bits order =
     (if length bits \<noteq> 8 then Inl IllegalArgument
      else Inr (bits_byte order (\<lambda>i. bits ! i)))"

section \<open>Text reads back\<close>

lemma digit_read: "n < 16 \<Longrightarrow> digitToIntOrNull (hex_digit n) = Some n"
proof -
  assume "n < 16"
  then have "of_char (hex_digit n) = (if n < 10 then 48 + n else 55 + n :: nat)"
    by (simp add: hex_digit_def)
  then show ?thesis
    using \<open>n < 16\<close> by (simp add: digitToIntOrNull_def Let_def)
qed

lemma digit_no_space: "n < 16 \<Longrightarrow> \<not> isWhitespace (hex_digit n)"
proof -
  assume "n < 16"
  then have "of_char (hex_digit n) = (if n < 10 then 48 + n else 55 + n :: nat)"
    by (simp add: hex_digit_def)
  then show ?thesis
    using \<open>n < 16\<close> by (simp add: isWhitespace_def Let_def)
qed

lemma nibbles: "push_bit 4 (of_nat (unat b div 16)) OR of_nat (unat b mod 16) = (b :: byte)"
proof -
  have "of_nat (unat b mod 16) = take_bit 4 b"
    by (simp add: take_bit_eq_mod word_arith_nat_mod)
  moreover have "of_nat (unat b div 16) = drop_bit 4 b"
    by (simp add: drop_bit_eq_div word_arith_nat_div)
  ultimately show ?thesis
    by (auto simp: bit_eq_iff bit_simps)
qed

lemma byte_less: "unat (b :: byte) < 256"
  using unsigned_less [of b, where 'a = nat] by simp

lemma hex_pairs_byte: "hex_pairs (hex_byte b @ cs) = bind_r (hex_pairs cs) (\<lambda>bs. Inr (b # bs))"
  using byte_less [of b] by (simp add: hex_byte_def digit_read nibbles less_mult_imp_div_less)

lemma hex_byte_kept: "filter (\<lambda>c. \<not> isWhitespace c) (hex_byte b) = hex_byte b"
  using byte_less [of b] by (simp add: hex_byte_def digit_no_space less_mult_imp_div_less)

lemma toHex_value:
  assumes "\<forall>c\<in>set separator. isWhitespace c"
  shows "filter (\<lambda>c. \<not> isWhitespace c) (toHex bs separator) = concat (map hex_byte bs)"
  using assms by (induction bs separator rule: toHex.induct) (simp_all add: hex_byte_kept)

lemma hex_read:
  assumes "\<forall>c\<in>set separator. isWhitespace c"
  shows "hexToByteArray (toHex bs separator) = Inr bs"
proof -
  have "length (concat (map hex_byte bs)) = 2 * length bs"
    by (induction bs) (simp_all add: hex_byte_def)
  moreover have "hex_pairs (concat (map hex_byte bs)) = Inr bs"
    by (induction bs) (simp_all add: hex_pairs_byte)
  ultimately show ?thesis
    using toHex_value [OF assms] by (simp add: hexToByteArray_def)
qed

section \<open>Numbers read back\<close>

lemma in_order_twice [simp]: "in_order order (in_order order bs) = bs"
  by (simp add: in_order_def)

lemma length_in_order [simp]: "length (in_order order bs) = length bs"
  by (simp add: in_order_def)

lemma length_word_bytes [simp]: "length (word_bytes n w) = n"
  by (simp add: word_bytes_def)

lemma bit_little_endian:
  "bit (little_endian bs :: 'a::len word) i \<longleftrightarrow>
    i < LENGTH('a) \<and> i div 8 < length bs \<and> bit (bs ! (i div 8)) (i mod 8)"
proof (induction bs arbitrary: i)
  case (Cons b bs)
  show ?case
  proof (cases "i < 8")
    case True
    then show ?thesis
      by (auto simp: bit_simps)
  next
    case False
    then have "i div 8 = Suc ((i - 8) div 8)" "i mod 8 = (i - 8) mod 8"
      by (simp_all add: le_div_geq le_mod_geq)
    then show ?thesis
      using False Cons.IH [of "i - 8"] bit_imp_le_length [of b i] by (auto simp: bit_simps)
  qed
qed simp

lemma little_endian_bytes:
  assumes "LENGTH('a::len) \<le> 8 * n"
  shows "little_endian (word_bytes n w) = (w :: 'a word)"
proof (rule bit_word_eqI)
  fix i assume i: "i < LENGTH('a)"
  then have "i div 8 < n"
    using assms by linarith
  then show "bit (little_endian (word_bytes n w) :: 'a word) i = bit w i"
    using i by (simp add: bit_little_endian word_bytes_def bit_simps)
qed

lemma bytes_little_endian:
  assumes "LENGTH('a::len) = 8 * length bs"
  shows "word_bytes (length bs) (little_endian bs :: 'a word) = bs"
proof (rule nth_equalityI)
  fix k assume k: "k < length (word_bytes (length bs) (little_endian bs :: 'a word))"
  show "word_bytes (length bs) (little_endian bs :: 'a word) ! k = bs ! k"
  proof (rule bit_word_eqI)
    fix i assume "i < LENGTH(8)"
    then show "bit (word_bytes (length bs) (little_endian bs :: 'a word) ! k) i = bit (bs ! k) i"
      using k assms by (auto simp: word_bytes_def bit_little_endian bit_simps)
  qed
qed simp

lemma buffer_inside:
  "buffer (xs @ ys @ zs) (int (length xs)) (length ys) = Inr ys"
  by (simp add: buffer_def)

lemma buffer_outcome:
  "buffer bs offset n = (if 0 \<le> offset \<and> offset + int n \<le> int (length bs)
    then Inr (take n (drop (nat offset) bs)) else Inl IllegalArgument)"
  by (auto simp: buffer_def)

lemma short_read:
  "toShort (xs @ short_bytes v order @ zs) (int (length xs)) order = Inr v"
  using buffer_inside [of xs "short_bytes v order" zs]
  by (simp add: toShort_def short_bytes_def little_endian_bytes)

lemma int_read:
  "toInt (xs @ int_bytes v order @ zs) (int (length xs)) order = Inr v"
  using buffer_inside [of xs "int_bytes v order" zs]
  by (simp add: toInt_def int_bytes_def little_endian_bytes)

section \<open>Bits read back\<close>

lemma bit_shift_less: "i < 8 \<Longrightarrow> bit_shift order i < 8"
  unfolding bit_shift_def by (cases "order = BIG_ENDIAN") simp_all

lemma bit_shift_twice: "i < 8 \<Longrightarrow> bit_shift order (bit_shift order i) = i"
  by (simp add: bit_shift_def)

lemma byte_bits_nth: "i < 8 \<Longrightarrow> byte_bits order b ! i = bit b (bit_shift order i)"
  by (simp add: byte_bits_def and_exp_eq_0_iff_not_bit)

lemma bit_bits_byte:
  assumes "j < 8"
  shows "bit (bits_byte order f) j = f (bit_shift order j)"
proof -
  have "bit (foldl (\<lambda>v i. if f i then v OR push_bit (bit_shift order i) 1 else v) v is :: byte) j \<longleftrightarrow>
      bit v j \<or> (\<exists>i\<in>set is. f i \<and> bit_shift order i = j)" for v "is"
    using assms by (induction "is" arbitrary: v) (auto simp: bit_simps)
  from this [of 0 "[0..<8]"] have "bit (bits_byte order f) j \<longleftrightarrow>
      (\<exists>i\<in>{0..<8}. f i \<and> bit_shift order i = j)"
    by (simp add: bits_byte_def)
  also have "\<dots> \<longleftrightarrow> f (bit_shift order j)"
    using bit_shift_twice [of _ order] bit_shift_less [of j order] assms by auto
  finally show ?thesis .
qed

lemma length_byte_bits [simp]: "length (byte_bits order b) = 8"
  by (simp add: byte_bits_def)

lemma length_bits [simp]: "length (toBooleanArray bs order) = 8 * length bs"
  by (induction bs) (simp_all add: toBooleanArray_def)

lemma bits_nth:
  "k < length bs \<Longrightarrow> i < 8 \<Longrightarrow> toBooleanArray bs order ! (8 * k + i) = byte_bits order (bs ! k) ! i"
proof (induction bs arbitrary: k)
  case (Cons b bs)
  then show ?case
    by (cases k) (simp_all add: toBooleanArray_def nth_append)
qed simp

lemma byte_read: "bits_byte order (\<lambda>i. byte_bits order b ! i) = b"
  by (rule bit_word_eqI) (simp add: bit_bits_byte byte_bits_nth bit_shift_less bit_shift_twice)

lemma bits_byte_cong: "(\<And>i. i < 8 \<Longrightarrow> f i = g i) \<Longrightarrow> bits_byte order f = bits_byte order g"
  by (rule bit_word_eqI) (simp add: bit_bits_byte bit_shift_less)

lemma bits_read: "toByteArray (toBooleanArray bs order) order = Inr bs"
proof -
  have "bits_byte order (\<lambda>i. toBooleanArray bs order ! (8 * k + i)) = bs ! k" if "k < length bs" for k
    using bits_byte_cong [of "\<lambda>i. toBooleanArray bs order ! (8 * k + i)"
        "\<lambda>i. byte_bits order (bs ! k) ! i" order] bits_nth [OF that] byte_read by simp
  then show ?thesis
    by (auto simp: toByteArray_def intro: nth_equalityI)
qed

lemma bits_given:
  assumes "toByteArray bits order = Inr bs"
  shows "toBooleanArray bs order = bits"
proof (rule nth_equalityI)
  have len: "8 dvd length bits"
    and bs: "bs = map (\<lambda>k. bits_byte order (\<lambda>i. bits ! (8 * k + i))) [0..<length bits div 8]"
    using assms by (auto simp: toByteArray_def split: if_splits)
  then show n: "length (toBooleanArray bs order) = length bits"
    by simp
  fix j assume "j < length (toBooleanArray bs order)"
  then have j: "j div 8 < length bs" "j = 8 * (j div 8) + j mod 8"
    by (simp_all add: less_mult_imp_div_less)
  have "toBooleanArray bs order ! j = byte_bits order (bs ! (j div 8)) ! (j mod 8)"
    using bits_nth [OF j(1), of "j mod 8" order] j(2) by simp
  also have "\<dots> = bits ! j"
    using j bs by (simp add: byte_bits_nth bit_bits_byte bit_shift_less bit_shift_twice)
  finally show "toBooleanArray bs order ! j = bits ! j" .
qed

lemma byte_given: "toByte (toBooleanArray [b] order) order = Inr b"
  using byte_read [of order b] by (simp add: toByte_def toBooleanArray_def)

text \<open>
  C30. The conversions undo each other: hexadecimal text with any white space between the bytes reads
  back, a number reads back from any place it is written to, and bytes and bits are given back, in
  either byte order.
\<close>

theorem conversions_read_back:
  assumes "\<forall>c\<in>set separator. isWhitespace c"
  shows "hexToByteArray (toHex bs separator) = Inr bs \<and>
    toShort (xs @ short_bytes v order @ zs) (int (length xs)) order = Inr v \<and>
    toInt (xs @ int_bytes w order @ zs) (int (length xs)) order = Inr w \<and>
    toByteArray (toBooleanArray bs order) order = Inr bs \<and>
    (case toByteArray bits order of
       Inl e \<Rightarrow> length bits mod 8 \<noteq> 0
     | Inr ds \<Rightarrow> toBooleanArray ds order = bits) \<and>
    toByte (toBooleanArray [b] order) order = Inr b"
  using hex_read [OF assms] short_read int_read bits_read byte_given bits_given
  by (auto simp: toByteArray_def split: sum.split if_splits)

theorem conversions_read_back_witness:
  "hexToByteArray (toHex [0x0A, 0xFF] '' '') = Inr [0x0A, 0xFF] \<and>
    toInt ([7] @ int_bytes 0x12345678 LITTLE_ENDIAN @ []) (int (length [7 :: byte])) LITTLE_ENDIAN =
      Inr 0x12345678"
  using conversions_read_back [where separator = "'' ''" and bs = "[0x0A, 0xFF]" and xs = "[7]"
      and zs = "[]" and w = 305419896 and order = LITTLE_ENDIAN]
  by (simp add: isWhitespace_def)

end
