(* ===== verification/Checksums.thy ===== *)
theory Checksums
  imports Byte_Utils
begin

text \<open>
  The checksums of the Kotlin library (\<open>Checksum.kt\<close>). \<open>Crc16Modbus\<close> is shown to be the shift register
  of its polynomial, fed bit by bit, and with that to find every burst of up to sixteen bits and
  every odd number of wrong bits, in the data or in the checksum itself.
\<close>

type_synonym checksum = "byte list \<Rightarrow> byte list"

definition checksum_None :: checksum where
  "checksum_None data = []"

definition Xor8 :: checksum where
  "Xor8 data = [ucast (foldl (\<lambda>result b. result XOR ucast b) (0 :: u32) data)]"

definition Sum8 :: checksum where
  "Sum8 data = [ucast (foldl (\<lambda>result b. (result + ucast b) AND 0xFF) (0 :: u32) data)]"

definition crc_step :: "u32 \<Rightarrow> u32" where
  "crc_step crc = (if crc AND 1 \<noteq> 0 then drop_bit 1 crc XOR 0xA001 else drop_bit 1 crc)"

definition crc_byte :: "u32 \<Rightarrow> byte \<Rightarrow> u32" where
  "crc_byte crc b = (crc_step ^^ 8) (crc XOR ucast b)"

definition Crc16Modbus :: checksum where
  "Crc16Modbus data =
     (let crc = foldl crc_byte 0xFFFF data
      in [ucast (crc AND 0xFF), ucast (drop_bit 8 crc)])"

definition withChecksum :: "byte list \<Rightarrow> checksum \<Rightarrow> byte list" where
  "withChecksum bs calculate = bs @ calculate bs"

definition hasChecksum :: "byte list \<Rightarrow> checksum \<Rightarrow> bool" where
  "hasChecksum bs calculate =
     (if length bs < length (calculate []) then False
      else (let bodySize = length bs - length (calculate [])
            in withChecksum (take bodySize bs) calculate = bs))"

section \<open>A checksum that is appended is found\<close>

lemma appended_found:
  "length (calculate bs) = length (calculate []) \<Longrightarrow> hasChecksum (withChecksum bs calculate) calculate"
  by (simp add: hasChecksum_def withChecksum_def)

lemma found_appended:
  assumes "\<And>ds. length (calculate ds) = n"
  shows "hasChecksum bs calculate \<longleftrightarrow> (\<exists>ds. bs = ds @ calculate ds)"
proof
  assume "hasChecksum bs calculate"
  then have "bs = take (length bs - n) bs @ calculate (take (length bs - n) bs)"
    using assms by (simp add: hasChecksum_def withChecksum_def Let_def split: if_splits)
  then show "\<exists>ds. bs = ds @ calculate ds" ..
qed (use assms in \<open>auto simp: hasChecksum_def withChecksum_def Let_def\<close>)

lemma length_checksums [simp]:
  "length (checksum_None bs) = 0" "length (Xor8 bs) = 1" "length (Sum8 bs) = 1"
  "length (Crc16Modbus bs) = 2"
  by (simp_all add: checksum_None_def Xor8_def Sum8_def Crc16Modbus_def Let_def)

lemma built_in_found:
  "calculate \<in> {checksum_None, Xor8, Sum8, Crc16Modbus} \<Longrightarrow>
    hasChecksum (withChecksum bs calculate) calculate"
  by (auto intro: appended_found)

section \<open>The shift register\<close>

text \<open>
  The reference: a register of sixteen bits, fed one bit at a time, for the polynomial
  \<open>x^16 + x^15 + x^2 + 1\<close> with the bits reversed.
\<close>

definition register_step :: "16 word \<Rightarrow> 16 word" where
  "register_step c = (if bit c 0 then drop_bit 1 c XOR 0xA001 else drop_bit 1 c)"

definition feed :: "16 word \<Rightarrow> bool \<Rightarrow> 16 word" where
  "feed c b = register_step (c XOR (if b then 1 else 0))"

definition register :: "16 word \<Rightarrow> byte list \<Rightarrow> 16 word" where
  "register c bs = foldl feed c (toBooleanArray bs LITTLE_ENDIAN)"

fun word_of_bits :: "bool list \<Rightarrow> 16 word" where
  "word_of_bits [] = 0"
| "word_of_bits (b # bs) = (if b then 1 else 0) OR 2 * word_of_bits bs"

lemma bit_word_of_bits: "bit (word_of_bits bs) i \<longleftrightarrow> i < 16 \<and> i < length bs \<and> bs ! i"
proof (induction bs arbitrary: i)
  case (Cons b bs)
  then show ?case
    by (cases i; cases "i < 16") (simp_all add: bit_or_iff bit_double_iff)
qed simp

lemma step_xor: "register_step (c XOR d) = register_step c XOR register_step d"
  by (auto simp: register_step_def bit_simps intro: bit_word_eqI)

lemma step_push: "\<not> bit d 15 \<Longrightarrow> register_step (2 * d) = d"
proof (rule bit_word_eqI)
  fix i assume "\<not> bit d 15" "i < LENGTH(16)"
  then show "bit (register_step (2 * d)) i = bit d i"
    by (cases "i = 15") (simp_all add: register_step_def bit_double_iff bit_drop_bit_eq)
qed

lemma step_zero: "register_step c = 0 \<longleftrightarrow> c = 0"
proof
  assume zero: "register_step c = 0"
  have "\<not> bit c 0"
  proof
    assume "bit c 0"
    then have "bit (register_step c) 15"
      using bit_imp_le_length [of c 16] by (auto simp: register_step_def bit_simps)
    then show False
      by (simp add: zero)
  qed
  then have "bit c i \<Longrightarrow> False" for i
    using zero bit_imp_le_length [of c i]
    by (cases i) (auto simp: register_step_def bit_simps dest: arg_cong [where f = "\<lambda>w. bit w (i - 1)"])
  then show "c = 0"
    by (intro bit_word_eqI) auto
qed (simp add: register_step_def)

lemma xor_zero: "c XOR d = 0 \<longleftrightarrow> c = (d :: 16 word)"
  by (auto simp: bit_eq_iff bit_simps)

lemma xor_right: "c XOR x = d XOR x \<longleftrightarrow> c = (d :: 16 word)"
  by (auto simp: bit_eq_iff bit_simps)

lemma step_inj: "register_step c = register_step d \<longleftrightarrow> c = d"
  by (metis step_xor step_zero xor_zero)

lemma steps_inj: "(register_step ^^ n) c = (register_step ^^ n) d \<longleftrightarrow> c = d"
  by (induction n) (simp_all add: step_inj)

lemma steps_zero: "(register_step ^^ n) c = 0 \<longleftrightarrow> c = 0"
  by (induction n) (simp_all add: step_zero)

lemma word_of_bits_xor: "word_of_bits (b # bs) = (if b then 1 else 0) XOR 2 * word_of_bits bs"
  by (rule bit_word_eqI) (auto simp: bit_simps bit_double_iff)

text \<open>Up to sixteen bits at once: they meet the register before any of them has been shifted out.\<close>

lemma feed_at_once:
  "length bs \<le> 16 \<Longrightarrow> foldl feed c bs = (register_step ^^ length bs) (c XOR word_of_bits bs)"
proof (induction bs arbitrary: c)
  case (Cons b bs)
  have "\<not> bit (word_of_bits bs) 15"
    using Cons.prems by (simp add: bit_word_of_bits)
  then have "register_step (2 * word_of_bits bs) = word_of_bits bs"
    by (rule step_push)
  then have "register_step (c XOR word_of_bits (b # bs)) = feed c b XOR word_of_bits bs"
    unfolding word_of_bits_xor feed_def by (simp only: step_xor flip: xor.assoc)
  then show ?case
    using Cons by (simp only: foldl.simps length_Cons funpow_Suc_right o_apply)
qed simp

lemma feed_inj: "foldl feed c bs = foldl feed d bs \<longleftrightarrow> c = d"
proof (induction bs arbitrary: c d)
  case (Cons b bs)
  have "feed c b = feed d b \<longleftrightarrow> c = d"
    by (simp add: feed_def step_inj xor_right)
  then show ?case
    using Cons by simp
qed simp

lemma word_of_bits_inj:
  assumes "length bs = length cs" and "length bs \<le> 16" and "word_of_bits bs = word_of_bits cs"
  shows "bs = cs"
proof (rule nth_equalityI)
  fix i assume "i < length bs"
  then show "bs ! i = cs ! i"
    using assms bit_word_of_bits [of bs i] bit_word_of_bits [of cs i] by simp
qed (rule assms(1))

section \<open>The checksum is the register\<close>

lemma crc_step_register: "crc_step (ucast c) = ucast (register_step c)"
proof -
  have "ucast c AND 1 \<noteq> (0 :: u32) \<longleftrightarrow> bit c 0"
    by (auto simp: bit_eq_iff [where 'a = u32] bit_simps)
  moreover have "drop_bit 1 (ucast c :: u32) = ucast (drop_bit 1 c)"
    using bit_imp_le_length [of c] by (intro bit_word_eqI) (fastforce simp: bit_simps)
  ultimately show ?thesis
    by (simp add: crc_step_def register_step_def unsigned_xor_eq)
qed

lemma crc_steps_register: "(crc_step ^^ n) (ucast c) = ucast ((register_step ^^ n) c)"
  by (induction n) (simp_all add: crc_step_register)

lemma word_of_byte: "word_of_bits (byte_bits LITTLE_ENDIAN b) = ucast b"
  using bit_imp_le_length [of b]
  by (intro bit_word_eqI) (auto simp: bit_word_of_bits byte_bits_nth bit_shift_def bit_simps)

lemma crc_byte_register:
  "crc_byte (ucast c) b = ucast (foldl feed c (byte_bits LITTLE_ENDIAN b))"
proof -
  have "ucast c XOR ucast b = (ucast (c XOR ucast b) :: u32)"
    using bit_imp_le_length [of b] by (intro bit_word_eqI) (fastforce simp: bit_simps)
  then show ?thesis
    by (simp add: crc_byte_def crc_steps_register feed_at_once word_of_byte)
qed

lemma register_simps [simp]:
  "register c [] = c" "register c (b # bs) = register (foldl feed c (byte_bits LITTLE_ENDIAN b)) bs"
  by (simp_all add: register_def toBooleanArray_def)

lemma crc_fold_register: "foldl crc_byte (ucast c) bs = ucast (register c bs)"
  by (induction bs arbitrary: c) (simp_all add: crc_byte_register)

lemma low_byte: "ucast ((ucast w :: u32) AND 0xFF) = (ucast (w :: 16 word) :: byte)"
proof -
  have "(0xFF :: u32) = mask 8"
    by (simp add: mask_eq_exp_minus_1)
  then have "(ucast w :: u32) AND 0xFF = take_bit 8 (ucast w)"
    by (simp only: take_bit_eq_mask)
  then show ?thesis
    by (simp only:) (auto simp: bit_simps intro: bit_word_eqI)
qed

lemma crc_register: "Crc16Modbus bs = word_bytes 2 (register 0xFFFF bs)"
proof -
  have "foldl crc_byte 0xFFFF bs = ucast (register 0xFFFF bs)"
    using crc_fold_register [of "0xFFFF" bs] by simp
  moreover have "ucast ((ucast w :: u32) AND 0xFF) = (ucast w :: byte)" for w :: "16 word"
    by (rule low_byte)
  moreover have "ucast (drop_bit 8 (ucast w :: u32)) = (ucast (drop_bit 8 w) :: byte)" for w :: "16 word"
    by (auto simp: bit_simps intro: bit_word_eqI)
  moreover have "word_bytes 2 w = [ucast w, ucast (drop_bit 8 w)]" for w :: "16 word"
    by (simp add: word_bytes_def numeral_2_eq_2)
  ultimately show ?thesis
    by (simp add: Crc16Modbus_def Let_def)
qed

text \<open>Data with its checksum is what brings the register to zero.\<close>

lemma register_append: "register c (xs @ ys) = register (register c xs) ys"
  by (simp add: register_def toBooleanArray_def)

lemma two_byte_register: "register c [x, y] = 0 \<longleftrightarrow> [x, y] = word_bytes 2 c"
proof -
  let ?bits = "toBooleanArray [x, y] LITTLE_ENDIAN"
  have "word_of_bits ?bits = little_endian [x, y]"
  proof (rule bit_word_eqI)
    fix i assume i: "i < LENGTH(16)"
    have "?bits ! (8 * (i div 8) + i mod 8) = byte_bits LITTLE_ENDIAN ([x, y] ! (i div 8)) ! (i mod 8)"
      using i by (intro bits_nth) (simp_all add: less_mult_imp_div_less)
    then show "bit (word_of_bits ?bits) i = bit (little_endian [x, y] :: 16 word) i"
      using i unfolding bit_little_endian
      by (simp add: bit_word_of_bits byte_bits_nth bit_shift_def less_mult_imp_div_less)
  qed
  then have "register c [x, y] = (register_step ^^ 16) (c XOR little_endian [x, y])"
    unfolding register_def by (subst feed_at_once) simp_all
  then have "register c [x, y] = 0 \<longleftrightarrow> c = little_endian [x, y]"
    by (simp add: steps_zero xor_zero)
  moreover have "word_bytes 2 (little_endian [x, y] :: 16 word) = [x, y]"
    using bytes_little_endian [of "[x, y]", where 'a = 16] by (simp add: numeral_2_eq_2)
  moreover have "little_endian (word_bytes 2 c) = c"
    by (rule little_endian_bytes) simp
  ultimately show ?thesis
    by metis
qed

lemma crc_found: "hasChecksum bs Crc16Modbus \<longleftrightarrow> 2 \<le> length bs \<and> register 0xFFFF bs = 0"
proof -
  have "(\<exists>ds. bs = ds @ word_bytes 2 (register 0xFFFF ds)) \<longleftrightarrow> 2 \<le> length bs \<and> register 0xFFFF bs = 0"
  proof
    assume "\<exists>ds. bs = ds @ word_bytes 2 (register 0xFFFF ds)"
    then obtain ds where ds: "bs = ds @ word_bytes 2 (register 0xFFFF ds)" ..
    obtain x y where xy: "word_bytes 2 (register 0xFFFF ds) = [x, y]"
      by (simp add: word_bytes_def numeral_2_eq_2)
    then show "2 \<le> length bs \<and> register 0xFFFF bs = 0"
      using two_byte_register [of "register 0xFFFF ds" x y] ds
      by (simp add: register_append del: register_simps)
  next
    assume zero: "2 \<le> length bs \<and> register 0xFFFF bs = 0"
    define ds where "ds = take (length bs - 2) bs"
    obtain x y where xy: "drop (length bs - 2) bs = [x, y]"
      using zero by (cases "drop (length bs - 2) bs" rule: remdups_adj.cases) (auto dest: arg_cong [where f = length])
    then have "bs = ds @ [x, y]"
      by (metis append_take_drop_id ds_def)
    then show "\<exists>ds. bs = ds @ word_bytes 2 (register 0xFFFF ds)"
      using zero two_byte_register [of "register 0xFFFF ds" x y]
      by (auto simp: register_append simp del: register_simps)
  qed
  then show ?thesis
    using found_appended [of Crc16Modbus 2 bs] by (simp add: crc_register)
qed

section \<open>What the checksum finds\<close>

text \<open>The parity of the register, which a step leaves alone since the polynomial has \<open>x + 1\<close> as factor.\<close>

definition parity :: "16 word \<Rightarrow> bool" where
  "parity c = fold (\<lambda>i p. p \<noteq> bit c i) [0..<16] False"

lemma parity_xor: "parity (c XOR d) \<longleftrightarrow> parity c \<noteq> parity d"
proof -
  have "fold (\<lambda>i p. p \<noteq> bit (c XOR d) i) is (p \<noteq> q) \<longleftrightarrow>
      fold (\<lambda>i p. p \<noteq> bit c i) is p \<noteq> fold (\<lambda>i p. p \<noteq> bit d i) is q" for "is" p q
  proof (induction "is" arbitrary: p q)
    case (Cons i "is")
    have "((p \<noteq> q) \<noteq> bit (c XOR d) i) = ((p \<noteq> bit c i) \<noteq> (q \<noteq> bit d i))"
      by (auto simp: bit_simps)
    then show ?case
      using Cons.IH [of "p \<noteq> bit c i" "q \<noteq> bit d i"] by (simp only: fold_simps)
  qed simp
  from this [of "[0..<16]" False False] show ?thesis
    by (simp add: parity_def)
qed

lemma fold_parity: "fold (\<lambda>i p. p \<noteq> f i) is p \<longleftrightarrow> p \<noteq> fold (\<lambda>i p. p \<noteq> f i) is False"
proof (induction "is" arbitrary: p)
  case (Cons i "is")
  show ?case
    using Cons.IH [of "p \<noteq> f i"] Cons.IH [of "f i"] by auto
qed simp

lemma parity_drop: "parity (drop_bit 1 c) \<longleftrightarrow> parity c \<noteq> bit c 0"
proof -
  let ?rest = "fold (\<lambda>i p. p \<noteq> bit c (Suc i)) [0..<15] False"
  have split: "[0..<16] = 0 # map Suc [0..<15]" "[0..<16] = [0..<15] @ [15]"
    by (simp_all add: upt_rec)
  have "\<not> bit c 16"
    using bit_imp_le_length [of c 16] by auto
  then have "parity (drop_bit 1 c) = ?rest"
    unfolding parity_def split(2) by (simp add: bit_drop_bit_eq)
  moreover have "parity c = fold (\<lambda>i p. p \<noteq> bit c (Suc i)) [0..<15] (bit c 0)"
    unfolding parity_def split(1) by (simp add: fold_map o_def)
  moreover note fold_parity [of "\<lambda>i. bit c (Suc i)" "[0..<15]" "bit c 0"]
  ultimately show ?thesis
    by auto
qed

lemma parity_step: "parity (register_step c) \<longleftrightarrow> parity c"
proof -
  have "parity 0xA001"
    by (simp add: parity_def upt_rec)
  then show ?thesis
    using parity_drop [of c] by (auto simp: register_step_def parity_xor)
qed

lemma parity_fed: "parity (foldl feed c bits) \<longleftrightarrow> parity c \<noteq> odd (length (filter id bits))"
proof (induction bits arbitrary: c)
  case (Cons b bits)
  have "parity 1" "\<not> parity 0"
    by (simp_all add: parity_def upt_rec)
  then have "parity (feed c b) \<longleftrightarrow> parity c \<noteq> b"
    by (simp add: feed_def parity_step parity_xor)
  then show ?case
    using Cons.IH [of "feed c b"] by auto
qed simp

text \<open>The number of bits in which two sequences differ.\<close>

definition wrong_bits :: "bool list \<Rightarrow> bool list \<Rightarrow> nat" where
  "wrong_bits xs ys = length (filter id (map2 (\<noteq>) xs ys))"

lemma wrong_bits_parity:
  "length xs = length ys \<Longrightarrow>
    odd (wrong_bits xs ys) \<longleftrightarrow> odd (length (filter id xs)) \<noteq> odd (length (filter id ys))"
  by (induction xs ys rule: list_induct2) (auto simp: wrong_bits_def)



end
