(* ===== verification/Frame_Parser.thy ===== *)
theory Frame_Parser
  imports Checksums
begin

text \<open>
  The frame parser of the Kotlin library (\<open>SerialFrameParser.kt\<close>): frames with a header, a length field,
  a footer and a checksum are taken out of a stream that arrives in pieces. A Kotlin \<open>Int\<close> is an
  integer wrapped by \<open>i32\<close>; an array is shorter than \<open>2 ^ 31\<close>.
\<close>

section \<open>Configuration\<close>

record frame_config =
  header :: "byte list"
  lengthOffset :: int
  lengthSize :: int
  lengthByteOrder :: byte_order
  lengthIncludesHeader :: bool
  footer :: "byte list"
  checksum_of :: "checksum option"
  checksumSize :: int
  checksumOffset :: "int option"
  minimumFrameSize :: int
  maximumFrameSize :: int
  maximumBufferSize :: int

text \<open>What \<open>init\<close> requires, and that the numbers are of type \<open>Int\<close>.\<close>

definition config_ok :: "frame_config \<Rightarrow> bool" where
  "config_ok c \<longleftrightarrow>
     header c \<noteq> [] \<and>
     0 \<le> lengthOffset c \<and> 1 \<le> lengthSize c \<and> lengthSize c \<le> 4 \<and>
     int (length (header c)) \<le> minimumFrameSize c \<and> minimumFrameSize c \<le> maximumFrameSize c \<and>
     maximumFrameSize c \<le> maximumBufferSize c \<and>
     0 \<le> checksumSize c \<and>
     lengthOffset c < 2 ^ 31 \<and> maximumBufferSize c < 2 ^ 31 \<and> checksumSize c < 2 ^ 31 \<and>
     (\<forall>p. checksumOffset c = Some p \<longrightarrow> - (2 ^ 31) \<le> p \<and> p < 2 ^ 31)"

text \<open>The default values of the constructor.\<close>

definition FrameConfig ::
  "byte list \<Rightarrow> int \<Rightarrow> int \<Rightarrow> byte_order \<Rightarrow> byte list \<Rightarrow> checksum option \<Rightarrow> frame_config" where
  "FrameConfig hdr offset sz order ft calculate = \<lparr>
     header = hdr, lengthOffset = offset, lengthSize = sz, lengthByteOrder = order,
     lengthIncludesHeader = False, footer = ft, checksum_of = calculate,
     checksumSize = (case calculate of None \<Rightarrow> 0 | Some f \<Rightarrow> int (length (f []))),
     checksumOffset = None, minimumFrameSize = int (length hdr), maximumFrameSize = 4096,
     maximumBufferSize = i32 (4096 * 2)\<rparr>"

datatype frame_error = InvalidLength | Oversized | ChecksumMismatch | FooterMismatch

section \<open>Reading a frame\<close>

definition takeLast :: "nat \<Rightarrow> 'a list \<Rightarrow> 'a list" where
  "takeLast n xs = drop (length xs - n) xs"

definition occurs :: "byte list \<Rightarrow> byte list \<Rightarrow> nat \<Rightarrow> bool" where
  "occurs h bs i \<longleftrightarrow> i + length h \<le> length bs \<and> take (length h) (drop i bs) = h"

definition indexOfHeader :: "byte list \<Rightarrow> byte list \<Rightarrow> nat option" where
  "indexOfHeader bs h = find (occurs h bs) [0..<length bs]"

definition readUnsigned ::
  "byte list \<Rightarrow> int \<Rightarrow> int \<Rightarrow> byte_order \<Rightarrow> kotlin_error + int" where
  "readUnsigned bs offset sz order =
     (if 0 \<le> offset \<and> offset + sz \<le> int (length bs) then
        (let ds = take (nat sz) (drop (nat offset) bs)
         in Inr (sint (if order = BIG_ENDIAN
              then foldl (\<lambda>result b. push_bit 8 result OR ucast b) (0 :: u32) ds
              else foldl (\<lambda>result i. result OR push_bit (8 * i) (ucast (ds ! i))) 0 [0..<nat sz])))
      else Inl IndexOutOfBounds)"

definition hasChecksumAt ::
  "byte list \<Rightarrow> checksum \<Rightarrow> int \<Rightarrow> int option \<Rightarrow> kotlin_error + bool" where
  "hasChecksumAt bs calculate sz offset =
     (if sz = 0 \<or> int (length bs) < sz then Inr False
      else
        (let position = (case offset of None \<Rightarrow> int (length bs) - sz | Some p \<Rightarrow> p)
         in if position < 0 \<or> int (length bs) < i32 (position + sz) then Inr False
            else if int (length bs) < position + sz then Inl IndexOutOfBounds
            else
              (let p = nat position; n = nat sz;
                   body = take p bs @ drop (p + n) bs
               in Inr (calculate body = take n (drop p bs)))))"

definition frame_size :: "frame_config \<Rightarrow> int \<Rightarrow> int" where
  "frame_size c declared =
     (if lengthIncludesHeader c then declared
      else i32 (i32 (declared + int (length (header c))) + lengthSize c))"

text \<open>One round of the loop: it breaks and waits for more, leaves something out, or finds a frame.\<close>

datatype round_end =
    Wait "byte list"
  | Skip frame_error "byte list"
  | Found "byte list" "byte list"

definition check_frame ::
  "frame_config \<Rightarrow> byte list \<Rightarrow> byte list \<Rightarrow> kotlin_error + round_end" where
  "check_frame c frame rest =
     (if footer c \<noteq> [] \<and> takeLast (length (footer c)) frame \<noteq> footer c
      then Inr (Skip FooterMismatch rest)
      else
        (case checksum_of c of
           None \<Rightarrow> Inr (Found frame rest)
         | Some calculate \<Rightarrow>
             bind_r (hasChecksumAt frame calculate (checksumSize c) (checksumOffset c)) (\<lambda>ok.
               Inr (if ok then Found frame rest else Skip ChecksumMismatch rest))))"

definition parse_round :: "frame_config \<Rightarrow> byte list \<Rightarrow> kotlin_error + round_end" where
  "parse_round c pending =
     (case indexOfHeader pending (header c) of
        None \<Rightarrow> Inr (Wait (takeLast (length (header c) - 1) pending))
      | Some start \<Rightarrow>
          (let p = drop start pending
           in if int (length p) < i32 (lengthOffset c + lengthSize c) then Inr (Wait p)
              else
                bind_r (readUnsigned p (lengthOffset c) (lengthSize c) (lengthByteOrder c)) (\<lambda>declared.
                  let frameSize = frame_size c declared
                  in if frameSize < minimumFrameSize c
                     then Inr (Skip InvalidLength (drop (length (header c)) p))
                     else if maximumFrameSize c < frameSize
                     then Inr (Skip Oversized (drop (length (header c)) p))
                     else if int (length p) < frameSize then Inr (Wait p)
                     else check_frame c (take (nat frameSize) p) (drop (nat frameSize) p))))"

text \<open>The frames and the errors of a run of the loop, and the bytes left.\<close>

type_synonym scanned = "byte list list \<times> frame_error list \<times> byte list"

definition after_error :: "frame_error \<Rightarrow> scanned \<Rightarrow> scanned" where
  "after_error e r = (case r of (fs, es, q) \<Rightarrow> (fs, e # es, q))"

definition after_frame :: "byte list \<Rightarrow> scanned \<Rightarrow> scanned" where
  "after_frame f r = (case r of (fs, es, q) \<Rightarrow> (f # fs, es, q))"

text \<open>The loop; \<open>None\<close> is a loop that does not end.\<close>

partial_function (option) scan :: "frame_config \<Rightarrow> byte list \<Rightarrow> (kotlin_error + scanned) option" where
  "scan c pending =
     (case parse_round c pending of
        Inl e \<Rightarrow> Some (Inl e)
      | Inr (Wait q) \<Rightarrow> Some (Inr ([], [], q))
      | Inr (Skip e q) \<Rightarrow>
          Option.bind (scan c q) (\<lambda>r. Some (bind_r r (\<lambda>x. Inr (after_error e x))))
      | Inr (Found f q) \<Rightarrow>
          Option.bind (scan c q) (\<lambda>r. Some (bind_r r (\<lambda>x. Inr (after_frame f x)))))"

section \<open>The parser\<close>

record parser =
  pending :: "byte list"
  lastErrors :: "frame_error list"

definition new_parser :: parser where
  "new_parser = \<lparr>pending = [], lastErrors = []\<rparr>"

definition reset :: "parser \<Rightarrow> parser" where
  "reset p = \<lparr>pending = [], lastErrors = []\<rparr>"

definition offerDetailed ::
  "frame_config \<Rightarrow> byte list \<Rightarrow> parser \<Rightarrow>
    (kotlin_error + (byte list list \<times> frame_error list) \<times> parser) option" where
  "offerDetailed c bs p =
     (let joined = pending p @ bs;
          kept = (if maximumBufferSize c < int (length joined)
                  then takeLast (nat (maximumBufferSize c)) joined else joined)
      in Option.bind (scan c kept) (\<lambda>r. Some (bind_r r (\<lambda>(frames, errors, q).
           Inr ((frames, errors), \<lparr>pending = q, lastErrors = errors\<rparr>)))))"

definition offer ::
  "frame_config \<Rightarrow> byte list \<Rightarrow> parser \<Rightarrow> (kotlin_error + byte list list \<times> parser) option" where
  "offer c bs p =
     Option.bind (offerDetailed c bs p) (\<lambda>r. Some (bind_r r (\<lambda>((frames, errors), p').
       Inr (frames, p'))))"

section \<open>Where the header is\<close>

lemma occurs_inside: "h \<noteq> [] \<Longrightarrow> occurs h bs i \<Longrightarrow> i < length bs"
  by (cases h) (simp_all add: occurs_def)

lemma indexOfHeader_Some:
  "indexOfHeader bs h = Some i \<longleftrightarrow> i < length bs \<and> occurs h bs i \<and> (\<forall>j<i. \<not> occurs h bs j)"
  by (auto simp: indexOfHeader_def find_Some_iff)

lemma indexOfHeader_None: "indexOfHeader bs h = None \<longleftrightarrow> (\<forall>i<length bs. \<not> occurs h bs i)"
  by (auto simp: indexOfHeader_def find_None_iff)

lemma occurs_append:
  "i + length h \<le> length bs \<Longrightarrow> occurs h (bs @ cs) i \<longleftrightarrow> occurs h bs i"
  by (auto simp: occurs_def)

lemma occurs_drop: "n \<le> length bs \<Longrightarrow> occurs h (drop n bs) i \<longleftrightarrow> occurs h bs (n + i)"
  by (auto simp: occurs_def add.commute)

lemma occurs_kept: "occurs h bs i \<Longrightarrow> occurs h (bs @ cs) i"
  using occurs_append [of i h bs cs] by (simp add: occurs_def)

lemma header_stays:
  "indexOfHeader bs h = Some i \<Longrightarrow> indexOfHeader (bs @ cs) h = Some i"
  using occurs_append [of _ h bs cs] by (auto simp: indexOfHeader_Some occurs_kept) (auto simp: occurs_def)

lemma header_at_front:
  assumes "h \<noteq> []" and "indexOfHeader bs h = Some i"
  shows "indexOfHeader (drop i bs @ cs) h = Some 0"
proof -
  have "occurs h (drop i bs) 0"
    using assms(2) occurs_drop [of i bs h 0] by (simp add: indexOfHeader_Some)
  then have front: "occurs h (drop i bs @ cs) 0"
    by (rule occurs_kept)
  show ?thesis
    using front occurs_inside [OF assms(1) front] by (simp add: indexOfHeader_Some)
qed

text \<open>Bytes in which no header can start any more do not matter.\<close>

lemma header_later:
  assumes "h \<noteq> []" and "n \<le> length bs" and "\<forall>i<n. \<not> occurs h bs i"
  shows "indexOfHeader bs h = map_option ((+) n) (indexOfHeader (drop n bs) h)"
proof (cases "indexOfHeader (drop n bs) h")
  case None
  have "\<not> occurs h bs i" if "i < length bs" for i
    using None assms(3) occurs_drop [OF assms(2), of h "i - n"] that
    by (cases "i < n") (auto simp: indexOfHeader_None)
  then have "indexOfHeader bs h = None"
    by (simp add: indexOfHeader_None)
  then show ?thesis
    using None by simp
next
  case (Some k)
  have "\<not> occurs h bs j" if "j < n + k" for j
    using Some assms(3) occurs_drop [OF assms(2), of h "j - n"] that
    by (cases "j < n") (auto simp: indexOfHeader_Some)
  then have "indexOfHeader bs h = Some (n + k)"
    using Some occurs_drop [OF assms(2), of h k] assms(2) by (auto simp: indexOfHeader_Some)
  then show ?thesis
    using Some by simp
qed

lemma takeLast_kept: "takeLast n (drop (length xs - n) xs @ ys) = takeLast n (xs @ ys)"
  by (cases "n \<le> length xs") (simp_all add: takeLast_def add.commute)

section \<open>A round and more bytes\<close>

lemma readUnsigned_append:
  "readUnsigned bs offset n order = Inr v \<Longrightarrow> 0 \<le> n \<Longrightarrow> readUnsigned (bs @ cs) offset n order = Inr v"
proof -
  assume read: "readUnsigned bs offset n order = Inr v" and "0 \<le> n"
  then have "0 \<le> offset" "offset + n \<le> int (length bs)"
    by (auto simp: readUnsigned_def split: if_splits)
  then have "take (nat n) (drop (nat offset) (bs @ cs)) = take (nat n) (drop (nat offset) bs)"
    using \<open>0 \<le> n\<close> by (simp add: nat_le_iff)
  then show ?thesis
    using read \<open>0 \<le> n\<close> by (auto simp: readUnsigned_def simp del: drop_append take_append split: if_splits)
qed

lemma config_okD:
  assumes "config_ok c"
  shows "header c \<noteq> []" "0 < length (header c)" "0 \<le> lengthOffset c" "0 < lengthSize c"
    "int (length (header c)) \<le> minimumFrameSize c" "maximumFrameSize c < 2 ^ 31"
    "minimumFrameSize c \<le> maximumFrameSize c" "maximumFrameSize c \<le> maximumBufferSize c"
  using assms by (auto simp: config_ok_def)

text \<open>The bytes left to the next round.\<close>

fun left_over :: "round_end \<Rightarrow> byte list" where
  "left_over (Wait q) = q"
| "left_over (Skip e q) = q"
| "left_over (Found f q) = q"

fun with_more :: "byte list \<Rightarrow> round_end \<Rightarrow> round_end" where
  "with_more cs (Wait q) = Wait (q @ cs)"
| "with_more cs (Skip e q) = Skip e (q @ cs)"
| "with_more cs (Found f q) = Found f (q @ cs)"

lemma check_frame_more:
  "check_frame c f (q @ cs) = bind_r (check_frame c f q) (\<lambda>r. Inr (with_more cs r))"
  by (auto simp: check_frame_def bind_r_def split: option.split sum.split)

lemma check_frame_end: "check_frame c f q = Inr r \<Longrightarrow> left_over r = q \<and> (\<forall>q'. r \<noteq> Wait q')"
  by (auto simp: check_frame_def bind_r_eq_Inr split: if_splits option.splits)

text \<open>A round that starts at its header.\<close>

definition header_round :: "frame_config \<Rightarrow> byte list \<Rightarrow> kotlin_error + round_end" where
  "header_round c p =
     (if int (length p) < i32 (lengthOffset c + lengthSize c) then Inr (Wait p)
      else bind_r (readUnsigned p (lengthOffset c) (lengthSize c) (lengthByteOrder c)) (\<lambda>declared.
        let frameSize = frame_size c declared
        in if frameSize < minimumFrameSize c
           then Inr (Skip InvalidLength (drop (length (header c)) p))
           else if maximumFrameSize c < frameSize
           then Inr (Skip Oversized (drop (length (header c)) p))
           else if int (length p) < frameSize then Inr (Wait p)
           else check_frame c (take (nat frameSize) p) (drop (nat frameSize) p)))"

lemma parse_round_header:
  "parse_round c p =
    (case indexOfHeader p (header c) of
       None \<Rightarrow> Inr (Wait (takeLast (length (header c) - 1) p))
     | Some start \<Rightarrow> header_round c (drop start p))"
  by (simp add: parse_round_def header_round_def Let_def split: option.split)

lemma header_round_wait: "header_round c p = Inr (Wait q) \<Longrightarrow> q = p"
  using check_frame_end [of c] by (fastforce simp: header_round_def bind_r_eq_Inr Let_def split: if_splits)

text \<open>
  Where no sum of the configuration is beyond an \<open>Int\<close>, no index is outside its array.
\<close>

definition config_safe :: "frame_config \<Rightarrow> bool" where
  "config_safe c \<longleftrightarrow> config_ok c \<and> lengthOffset c + lengthSize c < 2 ^ 31 \<and>
     (\<forall>p. checksumOffset c = Some p \<longrightarrow> p + checksumSize c < 2 ^ 31)"

lemma config_safeD:
  assumes "config_safe c"
  shows "config_ok c" "i32 (lengthOffset c + lengthSize c) = lengthOffset c + lengthSize c"
  using assms by (auto simp: config_safe_def config_ok_def)

lemma checksum_inside:
  assumes "config_safe c" and "int (length f) < 2 ^ 31"
  shows "\<exists>ok. hasChecksumAt f calculate (checksumSize c) (checksumOffset c) = Inr ok"
  using assms
  by (cases "checksumOffset c") (auto simp: hasChecksumAt_def config_safe_def config_ok_def Let_def)

lemma header_round_Inr:
  assumes "config_safe c"
  shows "\<exists>r. header_round c p = Inr r"
proof (cases "int (length p) < lengthOffset c + lengthSize c")
  case False
  then obtain declared where
    d: "readUnsigned p (lengthOffset c) (lengthSize c) (lengthByteOrder c) = Inr declared"
    using config_okD(3) [OF config_safeD(1) [OF assms]] by (auto simp: readUnsigned_def Let_def)
  have "\<exists>r. check_frame c (take (nat n) p) q = Inr r" if "n \<le> maximumFrameSize c" for n q
  proof -
    have "int (length (take (nat n) p)) < 2 ^ 31"
      using that config_okD(6) [OF config_safeD(1) [OF assms]] by simp
    then have "\<exists>ok. hasChecksumAt (take (nat n) p) f (checksumSize c) (checksumOffset c) = Inr ok" for f
      by (rule checksum_inside [OF assms])
    then show ?thesis
      unfolding check_frame_def by (cases "checksum_of c") (simp_all, metis bind_r_simps(2))
  qed
  then show ?thesis
    using d by (auto simp: header_round_def Let_def)
qed (use config_safeD(2) [OF assms] in \<open>simp add: header_round_def\<close>)

lemma header_round_more:
  assumes "config_safe c" and "length (header c) \<le> length p" and "header_round c p = Inr r"
    and "\<forall>q. r \<noteq> Wait q"
  shows "header_round c (p @ cs) = Inr (with_more cs r)"
proof -
  have long: "\<not> int (length p) < i32 (lengthOffset c + lengthSize c)"
    using assms(3,4) by (auto simp: header_round_def)
  then obtain declared where
    d: "readUnsigned p (lengthOffset c) (lengthSize c) (lengthByteOrder c) = Inr declared"
    using assms(3) by (auto simp: header_round_def bind_r_eq_Inr)
  have "readUnsigned (p @ cs) (lengthOffset c) (lengthSize c) (lengthByteOrder c) = Inr declared"
    using readUnsigned_append [OF d, of cs] config_okD(4) [OF config_safeD(1) [OF assms(1)]] by simp
  then show ?thesis
    using assms(2-4) long d
    by (auto simp: header_round_def Let_def check_frame_more split: if_splits)
qed

text \<open>A round that waits can forget what it leaves out, and one that does not is the same with more.\<close>

lemma round_Inr:
  assumes "config_safe c"
  shows "\<exists>r. parse_round c p = Inr r"
  using header_round_Inr [OF assms] by (auto simp: parse_round_header split: option.split)

lemma round_more:
  assumes "config_safe c" and "parse_round c p = Inr r"
  shows "parse_round c (p @ cs) =
    (case r of Wait q \<Rightarrow> parse_round c (q @ cs) | _ \<Rightarrow> Inr (with_more cs r))"
proof (cases "indexOfHeader p (header c)")
  case None
  note h = config_okD(1,2) [OF config_safeD(1) [OF assms(1)]]
  define n where "n = length p - (length (header c) - 1)"
  have r: "r = Wait (drop n p)"
    using assms(2) None by (simp add: parse_round_header takeLast_def n_def)
  have "\<not> occurs (header c) (p @ cs) i" if "i < n" for i
    using None occurs_append [of i "header c" p cs] that h(2)
    by (auto simp: indexOfHeader_None n_def)
  then have later: "indexOfHeader (p @ cs) (header c) =
      map_option ((+) n) (indexOfHeader (drop n p @ cs) (header c))"
    using header_later [OF h(1), of n "p @ cs"] by (simp add: n_def)
  have "takeLast (length (header c) - 1) (p @ cs) = takeLast (length (header c) - 1) (drop n p @ cs)"
    unfolding n_def by (rule takeLast_kept [symmetric])
  moreover have "drop (n + k) (p @ cs) = drop k (drop n p @ cs)" for k
    by (simp add: n_def add.commute)
  ultimately show ?thesis
    unfolding r parse_round_header later by (simp split: option.split)
next
  case (Some i)
  note h = config_okD(1) [OF config_safeD(1) [OF assms(1)]]
  have i: "occurs (header c) p i" "i \<le> length p"
    using Some by (simp_all add: indexOfHeader_Some)
  then have long: "length (header c) \<le> length (drop i p)"
    by (auto simp: occurs_def)
  have r: "header_round c (drop i p) = Inr r"
    using assms(2) Some by (simp add: parse_round_header)
  have more: "parse_round c (p @ cs) = header_round c (drop i p @ cs)"
    using header_stays [OF Some, of cs] i(2) by (simp add: parse_round_header)
  show ?thesis
  proof (cases r)
    case (Wait q)
    then have "q = drop i p"
      using header_round_wait r by blast
    then show ?thesis
      using more Wait header_at_front [OF h Some, of cs] by (simp add: parse_round_header)
  next
    case (Skip e q)
    then show ?thesis
      using more header_round_more [OF assms(1) long r] by simp
  next
    case (Found f q)
    then show ?thesis
      using more header_round_more [OF assms(1) long r] by simp
  qed
qed

lemma header_round_shrinks:
  assumes "config_ok c" and "length (header c) \<le> length p" and "header_round c p = Inr r"
    and "\<forall>q. r \<noteq> Wait q"
  shows "length (left_over r) < length p"
proof -
  note ok = config_okD [OF assms(1)]
  have short: "length (drop (length (header c)) p) < length p"
    using ok(2) assms(2) unfolding length_drop by linarith
  obtain declared where d: "(let n = frame_size c declared
      in if n < minimumFrameSize c then Inr (Skip InvalidLength (drop (length (header c)) p))
         else if maximumFrameSize c < n then Inr (Skip Oversized (drop (length (header c)) p))
         else if int (length p) < n then Inr (Wait p)
         else check_frame c (take (nat n) p) (drop (nat n) p)) = Inr r"
    using assms(3,4) by (auto simp: header_round_def bind_r_eq_Inr split: if_splits)
  define n where "n = frame_size c declared"
  have "left_over r = drop (nat n) p" if "\<not> n < minimumFrameSize c" "\<not> maximumFrameSize c < n"
    using d that assms(4) check_frame_end [of c "take (nat n) p" "drop (nat n) p" r]
    by (auto simp: Let_def n_def split: if_splits)
  moreover have "left_over r = drop (length (header c)) p"
    if "n < minimumFrameSize c \<or> maximumFrameSize c < n"
    using d that by (auto simp: Let_def n_def split: if_splits)
  moreover have "length (drop (nat n) p) < length p" if "\<not> n < minimumFrameSize c"
    using that ok(2,5) assms(2) unfolding length_drop by linarith
  ultimately show ?thesis
    using short by (cases "n < minimumFrameSize c \<or> maximumFrameSize c < n") simp_all
qed

lemma round_shrinks:
  assumes "config_ok c" and "parse_round c p = Inr r" and "\<forall>q. r \<noteq> Wait q"
  shows "length (left_over r) < length p"
proof -
  obtain i where i: "indexOfHeader p (header c) = Some i" "header_round c (drop i p) = Inr r"
    using assms(2,3) by (auto simp: parse_round_header split: option.splits)
  then have "length (header c) \<le> length (drop i p)"
    by (auto simp: indexOfHeader_Some occurs_def)
  from header_round_shrinks [OF assms(1) this i(2) assms(3)] show ?thesis
    by simp
qed

section \<open>The loop\<close>

lemma scan_unfold:
  assumes "parse_round c p = Inr r"
  shows "scan c p = (case r of
      Wait q \<Rightarrow> Some (Inr ([], [], q))
    | Skip e q \<Rightarrow> Option.bind (scan c q) (\<lambda>r. Some (bind_r r (\<lambda>x. Inr (after_error e x))))
    | Found f q \<Rightarrow> Option.bind (scan c q) (\<lambda>r. Some (bind_r r (\<lambda>x. Inr (after_frame f x)))))"
  by (subst scan.simps) (simp add: assms)

text \<open>The loop ends and no index is outside its array.\<close>

lemma scan_ends:
  assumes "config_safe c"
  shows "\<exists>x. scan c p = Some (Inr x)"
proof (induction p rule: measure_induct_rule [of length])
  case (less p)
  obtain r where r: "parse_round c p = Inr r"
    using round_Inr [OF assms] by blast
  note shrinks = round_shrinks [OF config_safeD(1) [OF assms] r]
  show ?case
  proof (cases r)
    case (Skip e q)
    then obtain x where "scan c q = Some (Inr x)"
      using less [of q] shrinks by auto
    then have "scan c p = Some (Inr (after_error e x))"
      using scan_unfold [OF r] Skip by simp
    then show ?thesis ..
  next
    case (Found f q)
    then obtain x where "scan c q = Some (Inr x)"
      using less [of q] shrinks by auto
    then have "scan c p = Some (Inr (after_frame f x))"
      using scan_unfold [OF r] Found by simp
    then show ?thesis ..
  qed (use scan_unfold [OF r] in simp)
qed

text \<open>What a scan of more bytes adds to a scan.\<close>

definition followed_by :: "scanned \<Rightarrow> scanned \<Rightarrow> scanned" where
  "followed_by x y = (case x of (fs, es, q) \<Rightarrow> case y of (fs', es', q') \<Rightarrow> (fs @ fs', es @ es', q'))"

lemma followed_by_simps [simp]:
  "followed_by ([], [], q) y = y"
  "followed_by (after_error e x) y = after_error e (followed_by x y)"
  "followed_by (after_frame f x) y = after_frame f (followed_by x y)"
  "snd (snd (after_error e x)) = snd (snd x)" "snd (snd (after_frame f x)) = snd (snd x)"
  "snd (snd (followed_by x y)) = snd (snd y)"
  by (simp_all add: followed_by_def after_error_def after_frame_def split: prod.split)

lemma scan_more:
  assumes "config_safe c" and "scan c p = Some (Inr x)"
  shows "scan c (p @ cs) =
    Option.bind (scan c (snd (snd x) @ cs)) (\<lambda>r. Some (bind_r r (\<lambda>y. Inr (followed_by x y))))"
  using assms(2)
proof (induction p arbitrary: x rule: measure_induct_rule [of length])
  case (less p)
  obtain r where r: "parse_round c p = Inr r"
    using round_Inr [OF assms(1)] by blast
  note shrinks = round_shrinks [OF config_safeD(1) [OF assms(1)] r]
  note more = round_more [OF assms(1) r, of cs]
  obtain z where z: "scan c (snd (snd x) @ cs) = Some (Inr z)"
    using scan_ends [OF assms(1)] by blast
  show ?case
  proof (cases r)
    case (Wait q)
    then have "x = ([], [], q)" "scan c (p @ cs) = scan c (q @ cs)"
      using less.prems scan_unfold [OF r] more by (simp_all add: scan.simps [of c "p @ cs"] scan.simps [of c "q @ cs"])
    then show ?thesis
      using z by simp
  next
    case (Skip e q)
    then obtain y where y: "scan c q = Some (Inr y)" "x = after_error e y"
      using less.prems scan_unfold [OF r] by (auto simp: bind_eq_Some_conv bind_r_eq_Inr)
    then show ?thesis
      using less.IH [OF _ y(1)] shrinks Skip more z scan_unfold [of c "p @ cs"] by simp
  next
    case (Found f q)
    then obtain y where y: "scan c q = Some (Inr y)" "x = after_frame f y"
      using less.prems scan_unfold [OF r] by (auto simp: bind_eq_Some_conv bind_r_eq_Inr)
    then show ?thesis
      using less.IH [OF _ y(1)] shrinks Found more z scan_unfold [of c "p @ cs"] by simp
  qed
qed

text \<open>The most bytes a scan leaves.\<close>

definition retained :: "frame_config \<Rightarrow> int" where
  "retained c = max (int (length (header c))) (max (lengthOffset c + lengthSize c) (maximumFrameSize c)) - 1"

lemma round_retains:
  assumes "config_safe c" and "parse_round c p = Inr (Wait q)"
  shows "int (length q) \<le> retained c"
proof (cases "indexOfHeader p (header c)")
  case None
  then have "length q \<le> length (header c) - 1"
    using assms(2) by (auto simp: parse_round_header takeLast_def)
  then have "int (length q) \<le> int (length (header c)) - 1"
    using config_okD(2) [OF config_safeD(1) [OF assms(1)]] by linarith
  then show ?thesis
    by (simp add: retained_def)
next
  case (Some i)
  then have q: "header_round c q = Inr (Wait q)"
    using assms(2) header_round_wait [of c "drop i p" q] by (simp add: parse_round_header)
  show ?thesis
  proof (cases "int (length q) < lengthOffset c + lengthSize c")
    case False
    then obtain n where "(if n < minimumFrameSize c then Inr (Skip InvalidLength (drop (length (header c)) q))
         else if maximumFrameSize c < n then Inr (Skip Oversized (drop (length (header c)) q))
         else if int (length q) < n then Inr (Wait q)
         else check_frame c (take (nat n) q) (drop (nat n) q)) = Inr (Wait q)"
      using q config_safeD(2) [OF assms(1)] by (auto simp: header_round_def bind_r_eq_Inr Let_def)
    then have "int (length q) < maximumFrameSize c"
      using check_frame_end [of c] by (auto split: if_splits)
    then show ?thesis
      by (simp add: retained_def)
  qed (simp add: retained_def)
qed

lemma scan_retains:
  assumes "config_safe c" and "scan c p = Some (Inr x)"
  shows "int (length (snd (snd x))) \<le> retained c"
  using assms(2)
proof (induction p arbitrary: x rule: measure_induct_rule [of length])
  case (less p)
  obtain r where r: "parse_round c p = Inr r"
    using round_Inr [OF assms(1)] by blast
  show ?case
    using less round_shrinks [OF config_safeD(1) [OF assms(1)] r] scan_unfold [OF r]
      round_retains [OF assms(1)] r
    by (cases r) (auto simp: bind_eq_Some_conv bind_r_eq_Inr)
qed

section \<open>Pieces\<close>

text \<open>Pieces offered one after the other: all frames and all errors.\<close>

fun offers ::
  "frame_config \<Rightarrow> byte list list \<Rightarrow> parser \<Rightarrow>
    (kotlin_error + (byte list list \<times> frame_error list) \<times> parser) option" where
  "offers c [] p = Some (Inr (([], []), p))"
| "offers c (b # bs) p =
     Option.bind (offerDetailed c b p) (\<lambda>r. case r of
         Inl e \<Rightarrow> Some (Inl e)
       | Inr ((fs, es), p') \<Rightarrow>
           Option.bind (offers c bs p') (\<lambda>r'. Some (bind_r r' (\<lambda>((fs', es'), p'').
             Inr ((fs @ fs', es @ es'), p'')))))"

lemma offer_piece:
  assumes "config_safe c" and "int (length (pending p @ b)) \<le> maximumBufferSize c"
  shows "\<exists>fs es q. scan c (pending p @ b) = Some (Inr (fs, es, q)) \<and>
    int (length q) \<le> retained c \<and>
    offerDetailed c b p = Some (Inr ((fs, es), \<lparr>pending = q, lastErrors = es\<rparr>))"
proof -
  obtain fs es q where x: "scan c (pending p @ b) = Some (Inr (fs, es, q))"
    using scan_ends [OF assms(1), of "pending p @ b"] by (metis prod.exhaust)
  then show ?thesis
    using scan_retains [OF assms(1) x] assms(2)
    by (auto simp: offerDetailed_def Let_def)
qed

lemma offers_pieces:
  assumes "config_safe c" and "\<forall>b\<in>set bs. retained c + int (length b) \<le> maximumBufferSize c"
    and "int (length (pending p)) \<le> retained c" and "scan c (pending p) = Some (Inr ([], [], pending p))"
  shows "\<exists>fs es p'. offers c bs p = Some (Inr ((fs, es), p')) \<and>
    scan c (pending p @ concat bs) = Some (Inr (fs, es, pending p'))"
  using assms(2-4)
proof (induction bs arbitrary: p)
  case Nil
  then show ?case
    by auto
next
  case (Cons b bs)
  obtain fs es q where x: "scan c (pending p @ b) = Some (Inr (fs, es, q))"
      "int (length q) \<le> retained c"
      "offerDetailed c b p = Some (Inr ((fs, es), \<lparr>pending = q, lastErrors = es\<rparr>))"
    using offer_piece [OF assms(1), of p b] Cons.prems by auto
  let ?p' = "\<lparr>pending = q, lastErrors = es\<rparr>"
  obtain z where z: "scan c q = Some (Inr z)"
    using scan_ends [OF assms(1)] by blast
  have again: "scan c q = Some (Inr ([], [], q))"
  proof -
    have "scan c (pending p @ b) = Some (Inr (followed_by (fs, es, q) z))"
      using scan_more [OF assms(1) x(1), of "[]"] z by simp
    then show ?thesis
      using x(1) z by (auto simp: followed_by_def split: prod.splits)
  qed
  obtain fs' es' p'' where rest: "offers c bs ?p' = Some (Inr ((fs', es'), p''))"
      "scan c (q @ concat bs) = Some (Inr (fs', es', pending p''))"
    using Cons.IH [of ?p'] Cons.prems(1) x(2) again by auto
  have "scan c ((pending p @ b) @ concat bs) = Some (Inr (fs @ fs', es @ es', pending p''))"
    using scan_more [OF assms(1) x(1), of "concat bs"] rest(2) by (simp add: followed_by_def)
  then show ?case
    using x(3) rest(1) by simp
qed

lemma scan_empty: "scan c [] = Some (Inr ([], [], []))"
  by (subst scan.simps) (simp add: parse_round_def indexOfHeader_def takeLast_def)

lemma pieces_scanned:
  assumes "config_safe c" and "\<forall>b\<in>set bs. retained c + int (length b) \<le> maximumBufferSize c"
  shows "\<exists>fs es p. offers c bs new_parser = Some (Inr ((fs, es), p)) \<and>
    scan c (concat bs) = Some (Inr (fs, es, pending p))"
proof -
  have "0 \<le> retained c"
    using config_okD(2) [OF config_safeD(1) [OF assms(1)]] unfolding retained_def by linarith
  then show ?thesis
    using offers_pieces [OF assms, of new_parser] scan_empty by (auto simp: new_parser_def)
qed

text \<open>
  C11. The pieces a stream arrives in do not matter: as long as no piece is longer than what the buffer
  holds beside an unfinished frame, the frames and the errors are those of the whole stream scanned
  at once, and so are the bytes that wait for more. The loop ends each time and no index is outside
  its array, where no sum of the configuration is beyond an \<open>Int\<close>.
\<close>

theorem pieces_do_not_matter:
  assumes "config_safe c" and "\<forall>b\<in>set bs. retained c + int (length b) \<le> maximumBufferSize c"
  shows "\<exists>fs es p. offers c bs new_parser = Some (Inr ((fs, es), p)) \<and>
    scan c (concat bs) = Some (Inr (fs, es, pending p))"
  by (rule pieces_scanned [OF assms])

section \<open>Frames\<close>

text \<open>A frame the configuration admits.\<close>

definition well_formed :: "frame_config \<Rightarrow> byte list \<Rightarrow> bool" where
  "well_formed c f \<longleftrightarrow>
     take (length (header c)) f = header c \<and>
     lengthOffset c + lengthSize c \<le> int (length f) \<and>
     (case readUnsigned f (lengthOffset c) (lengthSize c) (lengthByteOrder c) of
        Inl e \<Rightarrow> False | Inr declared \<Rightarrow> frame_size c declared = int (length f)) \<and>
     minimumFrameSize c \<le> int (length f) \<and> int (length f) \<le> maximumFrameSize c \<and>
     (footer c \<noteq> [] \<longrightarrow> takeLast (length (footer c)) f = footer c) \<and>
     (case checksum_of c of
        None \<Rightarrow> True
      | Some calculate \<Rightarrow> hasChecksumAt f calculate (checksumSize c) (checksumOffset c) = Inr True)"

text \<open>Bytes before a header in which, with that header, none starts earlier.\<close>

definition noise :: "frame_config \<Rightarrow> byte list \<Rightarrow> bool" where
  "noise c xs \<longleftrightarrow> (\<forall>i<length xs. \<not> occurs (header c) (xs @ header c) i)"

lemma frame_round:
  assumes "config_safe c" and "well_formed c f"
  shows "header_round c (f @ rest) = Inr (Found f rest)"
proof -
  obtain declared where d: "readUnsigned f (lengthOffset c) (lengthSize c) (lengthByteOrder c) = Inr declared"
      "frame_size c declared = int (length f)"
    using assms(2) by (auto simp: well_formed_def split: sum.splits)
  have "readUnsigned (f @ rest) (lengthOffset c) (lengthSize c) (lengthByteOrder c) = Inr declared"
    using readUnsigned_append [OF d(1)] config_okD(4) [OF config_safeD(1) [OF assms(1)]] by simp
  then show ?thesis
    using assms d(2) config_safeD(2) [OF assms(1)]
    by (auto simp: header_round_def well_formed_def check_frame_def split: option.splits)
qed

lemma frame_found:
  assumes "config_safe c" and "noise c xs" and "well_formed c f"
  shows "parse_round c (xs @ f @ rest) = Inr (Found f rest)"
proof -
  let ?h = "header c"
  have h: "?h \<noteq> []"
    by (rule config_okD(1) [OF config_safeD(1) [OF assms(1)]])
  obtain g where f: "f = ?h @ g"
    using assms(3) by (metis append_take_drop_id well_formed_def)
  have "\<not> occurs ?h (xs @ f @ rest) i" if "i < length xs" for i
    using assms(2) occurs_append [of i ?h "xs @ ?h" "g @ rest"] that by (simp add: noise_def f)
  moreover have "occurs ?h (xs @ f @ rest) (length xs)"
    by (simp add: occurs_def f)
  ultimately have "indexOfHeader (xs @ f @ rest) ?h = Some (length xs)"
    using occurs_inside [OF h, of "xs @ f @ rest" "length xs"] by (simp add: indexOfHeader_Some)
  then show ?thesis
    using frame_round [OF assms(1,3)] by (simp add: parse_round_header)
qed

lemma frames_scanned:
  assumes "config_safe c" and "\<forall>(xs, f)\<in>set parts. noise c xs \<and> well_formed c f"
  shows "scan c (concat (map (\<lambda>(xs, f). xs @ f) parts)) = Some (Inr (map snd parts, [], []))"
  using assms(2)
proof (induction parts)
  case Nil
  show ?case
    by (simp add: scan_empty)
next
  case (Cons part parts)
  obtain xs f where part: "part = (xs, f)"
    by (cases part)
  then have "parse_round c (xs @ f @ concat (map (\<lambda>(xs, f). xs @ f) parts)) =
      Inr (Found f (concat (map (\<lambda>(xs, f). xs @ f) parts)))"
    using frame_found [OF assms(1)] Cons.prems by auto
  then show ?case
    using Cons scan_unfold [of c "xs @ f @ concat (map (\<lambda>(xs, f). xs @ f) parts)"] part
    by (simp add: after_frame_def)
qed

lemma frames_in_pieces:
  assumes "config_safe c" and "\<forall>b\<in>set bs. retained c + int (length b) \<le> maximumBufferSize c"
    and "\<forall>(xs, f)\<in>set parts. noise c xs \<and> well_formed c f"
    and "concat bs = concat (map (\<lambda>(xs, f). xs @ f) parts)"
  shows "\<exists>p. offers c bs new_parser = Some (Inr ((map snd parts, []), p)) \<and> pending p = []"
  using pieces_scanned [OF assms(1,2)] frames_scanned [OF assms(1,3)] assms(4) by auto


section \<open>Only frames\<close>

text \<open>What is checked of a frame.\<close>

definition admitted :: "frame_config \<Rightarrow> byte list \<Rightarrow> bool" where
  "admitted c f \<longleftrightarrow>
     take (length (header c)) f = header c \<and>
     minimumFrameSize c \<le> int (length f) \<and> int (length f) \<le> maximumFrameSize c \<and>
     (footer c \<noteq> [] \<longrightarrow> takeLast (length (footer c)) f = footer c) \<and>
     (case checksum_of c of
        None \<Rightarrow> True
      | Some calculate \<Rightarrow> hasChecksumAt f calculate (checksumSize c) (checksumOffset c) = Inr True)"

lemma check_frame_Found:
  "check_frame c f q = Inr (Found f' q') \<Longrightarrow> f' = f \<and> q' = q \<and>
    (footer c \<noteq> [] \<longrightarrow> takeLast (length (footer c)) f = footer c) \<and>
    (case checksum_of c of
       None \<Rightarrow> True
     | Some calculate \<Rightarrow> hasChecksumAt f calculate (checksumSize c) (checksumOffset c) = Inr True)"
  by (auto simp: check_frame_def bind_r_eq_Inr split: if_splits option.splits)

lemma header_round_Found:
  assumes "config_ok c" and "take (length (header c)) p = header c" and "header_round c p = Inr (Found f q)"
  shows "admitted c f \<and> p = f @ q"
proof -
  obtain n where n: "minimumFrameSize c \<le> n" "n \<le> maximumFrameSize c" "n \<le> int (length p)"
      "check_frame c (take (nat n) p) (drop (nat n) p) = Inr (Found f q)"
    using assms(3) by (auto simp: header_round_def bind_r_eq_Inr Let_def not_less split: if_splits)
  note found = check_frame_Found [OF n(4)]
  have "length (header c) \<le> nat n"
    using n(1) config_okD(5) [OF assms(1)] by linarith
  then have "take (length (header c)) f = header c"
    using found assms(2) by (simp add: take_take min_def)
  moreover have "int (length f) = n"
    using found n(1,3) config_okD(5) [OF assms(1)] by simp
  ultimately show ?thesis
    using found n(1,2) by (simp add: admitted_def)
qed

lemma round_Found:
  assumes "config_ok c" and "parse_round c p = Inr (Found f q)"
  shows "admitted c f \<and> (\<exists>g. p = g @ f @ q)"
proof -
  obtain i where i: "indexOfHeader p (header c) = Some i" "header_round c (drop i p) = Inr (Found f q)"
    using assms(2) by (auto simp: parse_round_header split: option.splits)
  then have "take (length (header c)) (drop i p) = header c"
    by (simp add: indexOfHeader_Some occurs_def)
  then have "admitted c f \<and> drop i p = f @ q"
    using header_round_Found [OF assms(1) _ i(2)] by simp
  then show ?thesis
    by (metis append_take_drop_id)
qed

lemma header_round_Skip:
  "header_round c p = Inr (Skip e q) \<Longrightarrow> \<exists>g. p = g @ q"
  using check_frame_end [of c]
  by (auto simp: header_round_def bind_r_eq_Inr Let_def split: if_splits)
    (metis append_take_drop_id left_over.simps(2))+

lemma round_Skip:
  assumes "parse_round c p = Inr (Skip e q)"
  shows "\<exists>g. p = g @ q"
proof -
  obtain i where i: "header_round c (drop i p) = Inr (Skip e q)"
    using assms by (auto simp: parse_round_header split: option.splits)
  then obtain g where "drop i p = g @ q"
    using header_round_Skip by blast
  then have "p = (take i p @ g) @ q"
    by (metis append_take_drop_id append.assoc)
  then show ?thesis ..
qed

text \<open>A sequence of frames, in this order and one after the other, in a stream.\<close>

fun lies_in :: "byte list list \<Rightarrow> byte list \<Rightarrow> bool" where
  "lies_in [] p \<longleftrightarrow> True"
| "lies_in (f # fs) p \<longleftrightarrow> (\<exists>g q. p = g @ f @ q \<and> lies_in fs q)"

lemma lies_in_later: "lies_in fs q \<Longrightarrow> lies_in fs (g @ q)"
  by (cases fs) (auto, metis append.assoc)

lemma scan_frames:
  assumes "config_safe c" and "scan c p = Some (Inr x)"
  shows "(\<forall>f\<in>set (fst x). admitted c f) \<and> lies_in (fst x) p"
  using assms(2)
proof (induction p arbitrary: x rule: measure_induct_rule [of length])
  case (less p)
  obtain r where r: "parse_round c p = Inr r"
    using round_Inr [OF assms(1)] by blast
  note shrinks = round_shrinks [OF config_safeD(1) [OF assms(1)] r]
  show ?case
  proof (cases r)
    case (Wait q)
    then show ?thesis
      using less.prems scan_unfold [OF r] by auto
  next
    case (Skip e q)
    then obtain y where y: "scan c q = Some (Inr y)" "fst x = fst y"
      using less.prems scan_unfold [OF r]
      by (auto simp: bind_eq_Some_conv bind_r_eq_Inr after_error_def)
    then show ?thesis
      using less.IH [OF _ y(1)] shrinks Skip round_Skip [of c p e q] r lies_in_later by auto
  next
    case (Found f q)
    then obtain y where y: "scan c q = Some (Inr y)" "fst x = f # fst y"
      using less.prems scan_unfold [OF r]
      by (auto simp: bind_eq_Some_conv bind_r_eq_Inr after_frame_def)
    then show ?thesis
      using less.IH [OF _ y(1)] shrinks Found round_Found [OF config_safeD(1) [OF assms(1)], of p f q] r
      by auto
  qed
qed

text \<open>
  C13. Nothing else comes out: each frame given begins with the header, has a size within the limits, the
  footer and the right checksum, and the frames lie in the stream one after the other.
\<close>

theorem only_frames_come_out:
  assumes "config_safe c" and "\<forall>b\<in>set bs. retained c + int (length b) \<le> maximumBufferSize c"
    and "offers c bs new_parser = Some (Inr ((fs, es), p))"
  shows "(\<forall>f\<in>set fs. admitted c f) \<and> lies_in fs (concat bs)"
  using pieces_scanned [OF assms(1,2)] scan_frames [OF assms(1), of "concat bs"] assms(3) by auto

section \<open>A footer and a checksum\<close>

text \<open>
  A checksum at the default place and a footer of the same size are looked for in the same bytes: a
  frame is admitted only if its checksum happens to be the footer. The configuration shown in the
  documentation is of this kind.
\<close>

theorem footer_excludes_checksum:
  assumes "config_safe c" and "\<forall>b\<in>set bs. retained c + int (length b) \<le> maximumBufferSize c"
    and "offers c bs new_parser = Some (Inr ((fs, es), p))"
    and "footer c \<noteq> []" and "checksum_of c = Some calculate" and "checksumOffset c = None"
    and "checksumSize c = int (length (footer c))"
  shows "\<forall>f\<in>set fs. calculate (take (length f - length (footer c)) f) = footer c"
proof
  fix f assume "f \<in> set fs"
  then have f: "takeLast (length (footer c)) f = footer c"
      "hasChecksumAt f calculate (checksumSize c) None = Inr True"
    using pieces_scanned [OF assms(1,2)] scan_frames [OF assms(1), of "concat bs"] assms(3-6)
    by (auto simp: admitted_def)
  then show "calculate (take (length f - length (footer c)) f) = footer c"
    using assms(7) by (auto simp: hasChecksumAt_def Let_def takeLast_def nat_diff_distrib split: if_splits)
qed

text \<open>\<open>Checksums.None\<close> has size zero, which no frame passes.\<close>

lemma no_checksum_no_frame: "hasChecksumAt f calculate 0 offset = Inr False"
  by (simp add: hasChecksumAt_def)

section \<open>Frames exist\<close>

lemma little_endian_take: "little_endian (word_bytes n w) = take_bit (8 * n) (w :: 'a::len word)"
proof (rule bit_word_eqI)
  fix i assume i: "i < LENGTH('a)"
  have "i div 8 < n \<longleftrightarrow> i < 8 * n"
    by (simp add: less_mult_imp_div_less div_less_iff_less_mult mult.commute)
  then show "bit (little_endian (word_bytes n w) :: 'a word) i = bit (take_bit (8 * n) w) i"
    using i by (auto simp: bit_little_endian word_bytes_def bit_simps)
qed

lemma big_endian_value:
  "foldl (\<lambda>result b. push_bit 8 result OR ucast b) (little_endian (rev xs) :: u32) ys =
    little_endian (rev ys @ rev xs)"
proof (induction ys arbitrary: xs)
  case (Cons y ys)
  have "push_bit 8 (little_endian (rev xs)) OR ucast y = (little_endian (rev (xs @ [y])) :: u32)"
    by (simp add: or.commute)
  then show ?case
    using Cons.IH [of "xs @ [y]"] by simp
qed simp

lemma little_endian_value:
  "foldl (\<lambda>result i. result OR push_bit (8 * i) (ucast (ds ! i))) 0 [0..<length ds] =
    (little_endian ds :: u32)"
proof (rule bit_word_eqI)
  fix j assume j: "j < LENGTH(32)"
  have "bit (foldl (\<lambda>result i. result OR push_bit (8 * i) (ucast (ds ! i))) v is :: u32) j \<longleftrightarrow>
      bit v j \<or> (\<exists>i\<in>set is. 8 * i \<le> j \<and> bit (ds ! i) (j - 8 * i))" for v "is"
    using j by (induction "is" arbitrary: v) (auto simp: bit_simps)
  from this [of 0 "[0..<length ds]"]
  have "bit (foldl (\<lambda>result i. result OR push_bit (8 * i) (ucast (ds ! i))) 0 [0..<length ds] :: u32) j \<longleftrightarrow>
      (\<exists>i<length ds. 8 * i \<le> j \<and> bit (ds ! i) (j - 8 * i))"
    by auto
  also have "\<dots> \<longleftrightarrow> j div 8 < length ds \<and> bit (ds ! (j div 8)) (j mod 8)"
  proof
    assume "\<exists>i<length ds. 8 * i \<le> j \<and> bit (ds ! i) (j - 8 * i)"
    then obtain i where i: "i < length ds" "8 * i \<le> j" "bit (ds ! i) (j - 8 * i)"
      by blast
    then have "j - 8 * i < 8"
      using bit_imp_le_length by fastforce
    then have "i = j div 8"
      using i(2) by linarith
    moreover from this have "j - 8 * i = j mod 8"
      by (simp add: minus_mult_div_eq_mod)
    ultimately have "i = j div 8" "j - 8 * i = j mod 8"
      by blast+
    then show "j div 8 < length ds \<and> bit (ds ! (j div 8)) (j mod 8)"
      using i by simp
  next
    assume "j div 8 < length ds \<and> bit (ds ! (j div 8)) (j mod 8)"
    then show "\<exists>i<length ds. 8 * i \<le> j \<and> bit (ds ! i) (j - 8 * i)"
      by (intro exI [of _ "j div 8"]) (simp add: minus_mult_div_eq_mod)
  qed
  finally show "bit (foldl (\<lambda>result i. result OR push_bit (8 * i) (ucast (ds ! i))) 0 [0..<length ds] :: u32) j =
      bit (little_endian ds :: u32) j"
    using j by (simp add: bit_little_endian)
qed

lemma readUnsigned_value:
  "readUnsigned (xs @ in_order order ds @ ys) (int (length xs)) (int (length ds)) order =
    Inr (sint (little_endian ds :: u32))"
  using big_endian_value [of "[]" "rev ds"] little_endian_value [of ds]
  by (simp add: readUnsigned_def in_order_def)

text \<open>A frame for a payload, where the length stands behind the header and there is no footer.\<close>

definition build_frame :: "frame_config \<Rightarrow> byte list \<Rightarrow> byte list" where
  "build_frame c payload =
     (let n = length payload + nat (checksumSize c);
          body = header c @
            in_order (lengthByteOrder c) (word_bytes (nat (lengthSize c)) (word_of_nat n :: u32)) @ payload
      in body @ (case checksum_of c of None \<Rightarrow> [] | Some calculate \<Rightarrow> calculate body))"

lemma built_well_formed:
  assumes "config_safe c" and "lengthOffset c = int (length (header c))"
    and "\<not> lengthIncludesHeader c" and "footer c = []" and "checksumOffset c = None"
    and "case checksum_of c of None \<Rightarrow> checksumSize c = 0
      | Some calculate \<Rightarrow> 0 < checksumSize c \<and> (\<forall>ds. int (length (calculate ds)) = checksumSize c)"
    and "int (length payload) + checksumSize c < 2 ^ (8 * nat (lengthSize c))"
    and "int (length (build_frame c payload)) \<le> maximumFrameSize c"
    and "minimumFrameSize c \<le> int (length (build_frame c payload))"
  shows "well_formed c (build_frame c payload)"
proof -
  let ?f = "build_frame c payload"
  note ok = config_okD [OF config_safeD(1) [OF assms(1)]]
  define n where "n = length payload + nat (checksumSize c)"
  define ds where "ds = word_bytes (nat (lengthSize c)) (word_of_nat n :: u32)"
  define body where "body = header c @ in_order (lengthByteOrder c) ds @ payload"
  define tail where "tail = (case checksum_of c of None \<Rightarrow> [] | Some calculate \<Rightarrow> calculate body)"
  have f: "?f = header c @ in_order (lengthByteOrder c) ds @ payload @ tail" "?f = body @ tail"
    unfolding build_frame_def Let_def tail_def body_def ds_def n_def by simp_all
  have tail: "int (length tail) = checksumSize c"
    using assms(6) by (auto simp: tail_def split: option.splits)
  have len: "length ds = nat (lengthSize c)"
    by (simp add: ds_def)
  then have total: "int (length ?f) = int (length (header c)) + lengthSize c + int n"
    using f(1) tail ok(4) by (simp add: n_def)
  then have small: "int n < 2 ^ 31"
    using assms(8) ok(4,6) by linarith
  have "int n = int (length payload) + checksumSize c"
    using config_safeD(1) [OF assms(1)] by (simp add: n_def config_ok_def)
  then have "int n < int (2 ^ (8 * nat (lengthSize c)))"
    using assms(7) by simp
  then have "n < 2 ^ (8 * nat (lengthSize c))"
    by (simp only: of_nat_less_iff)
  then have "little_endian ds = (word_of_nat n :: u32)"
    unfolding ds_def little_endian_take by (simp add: take_bit_of_nat take_bit_nat_eq_self)
  then have "sint (little_endian ds :: u32) = int n"
    using i32_id [of "int n"] small by (simp add: i32_def)
  then have "readUnsigned ?f (lengthOffset c) (lengthSize c) (lengthByteOrder c) = Inr (int n)"
    using readUnsigned_value [of "header c" "lengthByteOrder c" ds "payload @ tail"] f(1) assms(2) len ok(4)
    by simp
  moreover have "frame_size c (int n) = int (length ?f)"
    using total assms(3,8) ok(4,6) by (simp add: frame_size_def)
  moreover have "hasChecksumAt ?f calculate (checksumSize c) None = Inr True"
    if "checksum_of c = Some calculate" for calculate
  proof -
    have "tail = calculate body" "0 < checksumSize c"
      using that assms(6) by (simp_all add: tail_def)
    then show ?thesis
      using tail f(2) assms(8) ok(6) by (auto simp: hasChecksumAt_def Let_def)
  qed
  ultimately show ?thesis
    using assms(2,4,5,8,9) f(1) total
    by (auto simp: well_formed_def split: option.split)
qed

text \<open>
  What is built is recovered: with the length behind the header, each payload that the length field
  can count and the limits admit gives a frame that comes out of the parser, in any pieces.
\<close>

lemma built_recovered:
  assumes "config_safe c" and "\<forall>b\<in>set bs. retained c + int (length b) \<le> maximumBufferSize c"
    and "\<forall>payload\<in>set payloads. well_formed c (build_frame c payload)"
    and "concat bs = concat (map (build_frame c) payloads)"
  shows "\<exists>p. offers c bs new_parser = Some (Inr ((map (build_frame c) payloads, []), p)) \<and> pending p = []"
  using frames_in_pieces [OF assms(1,2), of "map (\<lambda>payload. ([], build_frame c payload)) payloads"] assms(3,4)
  by (auto simp: noise_def o_def)

section \<open>Two configurations\<close>

text \<open>The one of the library's test, and the one of its documentation.\<close>

definition test_config :: frame_config where
  "test_config = FrameConfig [0x55, 0xAA] 2 1 BIG_ENDIAN [] None"

definition readme_config :: frame_config where
  "readme_config = (FrameConfig [0x55, 0xAA] 2 2 LITTLE_ENDIAN [0x0D, 0x0A] (Some Crc16Modbus))
     \<lparr>maximumFrameSize := 2048, maximumBufferSize := 4096\<rparr>"

lemma test_config_safe: "config_safe test_config" "retained test_config = 4095"
    "maximumBufferSize test_config = 8192"
  by (simp_all add: config_safe_def config_ok_def retained_def test_config_def FrameConfig_def)

lemma readme_config_safe: "config_safe readme_config" "retained readme_config = 2047"
    "maximumBufferSize readme_config = 4096"
  by (simp_all add: config_safe_def config_ok_def retained_def readme_config_def FrameConfig_def)

lemma test_frames:
  "noise test_config [0]" "noise test_config []"
  "well_formed test_config [0x55, 0xAA, 2, 0x10, 0x20]" "well_formed test_config [0x55, 0xAA, 1, 0x7F]"
  by (simp_all add: noise_def occurs_def well_formed_def readUnsigned_def frame_size_def test_config_def
      FrameConfig_def)

theorem pieces_do_not_matter_witness:
  "\<exists>fs es p. offers test_config [[0, 0x55], [0xAA, 1], [7]] new_parser = Some (Inr ((fs, es), p)) \<and>
    scan test_config [0, 0x55, 0xAA, 1, 7] = Some (Inr (fs, es, pending p))"
  using pieces_do_not_matter [OF test_config_safe(1), of "[[0, 0x55], [0xAA, 1], [7]]"]
  by (simp add: test_config_safe)


theorem only_frames_come_out_witness:
  "\<exists>p. offers test_config [[0, 0x55, 0xAA, 1, 0x7F]] new_parser =
      Some (Inr (([[0x55, 0xAA, 1, 0x7F]], []), p)) \<and>
    (\<forall>f\<in>{[0x55, 0xAA, 1, 0x7F]}. admitted test_config f) \<and>
    lies_in [[0x55, 0xAA, 1, 0x7F]] [0, 0x55, 0xAA, 1, 0x7F]"
proof -
  obtain p where p: "offers test_config [[0, 0x55, 0xAA, 1, 0x7F]] new_parser =
      Some (Inr (([[0x55, 0xAA, 1, 0x7F]], []), p))"
    using frames_in_pieces [OF test_config_safe(1), of "[[0, 0x55, 0xAA, 1, 0x7F]]"
        "[([0], [0x55, 0xAA, 1, 0x7F])]"]
    by (auto simp: test_config_safe test_frames)
  from only_frames_come_out [OF test_config_safe(1) _ p] show ?thesis
    using p by (auto simp: test_config_safe)
qed

theorem footer_excludes_checksum_witness:
  "\<exists>fs es p. offers readme_config [withChecksum [0x55, 0xAA, 4, 0] Crc16Modbus @ [0x0D, 0x0A]] new_parser =
      Some (Inr ((fs, es), p)) \<and>
    (\<forall>f\<in>set fs. Crc16Modbus (take (length f - 2) f) = [0x0D, 0x0A])"
proof -
  let ?bs = "[withChecksum [0x55, 0xAA, 4, 0] Crc16Modbus @ [0x0D, 0x0A]]"
  have small: "\<forall>b\<in>set ?bs. retained readme_config + int (length b) \<le> maximumBufferSize readme_config"
    by (simp add: readme_config_safe withChecksum_def)
  obtain fs es p where p: "offers readme_config ?bs new_parser = Some (Inr ((fs, es), p))"
    using pieces_scanned [OF readme_config_safe(1) small] by blast
  have "footer readme_config = [0x0D, 0x0A]" "checksum_of readme_config = Some Crc16Modbus"
      "checksumOffset readme_config = None" "checksumSize readme_config = 2"
    by (simp_all add: readme_config_def FrameConfig_def)
  then have "\<forall>f\<in>set fs. Crc16Modbus (take (length f - 2) f) = [0x0D, 0x0A]"
    using footer_excludes_checksum [OF readme_config_safe(1) small p, of Crc16Modbus] by (simp add: numeral_2_eq_2)
  then show ?thesis
    using p by blast
qed

end
