(* ===== verification/Serial_Api.thy ===== *)
theory Serial_Api
  imports Byte_Utils Complex_Main
begin

text \<open>
  The data of the Kotlin interface: errors (\<open>SerialError.kt\<close>), configuration (\<open>SerialConfig.kt\<close>),
  reconnection policy (\<open>ReconnectPolicy.kt\<close>), commands and their results (\<open>SerialCommand.kt\<close>), response
  matchers (\<open>ResponseMatcher.kt\<close>), states, events, and the search for devices
  (\<open>AndroidDeviceScanner.kt\<close>). A constructor checks its arguments as the \<open>init\<close> block does. A
  \<open>Duration\<close> is its number of nanoseconds, an exception the error it carries or its name.
\<close>

section \<open>Errors\<close>

datatype SerialError =
    DeviceNotFound
  | PermissionDenied
  | UnsupportedAbi
  | OpenFailed "throwable option"
  | ReadError "throwable option"
  | WriteError "throwable option"
  | AlreadyClosed
  | NotConnected
  | QueueFull
  | ErrorCancelled
and throwable =
    AndroidSerialException SerialError
  | NullPointerException
  | OtherThrowable string

section \<open>Reconnection\<close>

definition toMillis :: "int \<Rightarrow> int" where
  "toMillis duration = duration div 1000000"

record ReconnectPolicy =
  reconnectEnabled :: bool
  maxAttempts :: int
  initialDelay :: int
  maxDelay :: int
  multiplier :: real

definition policy_ok :: "ReconnectPolicy \<Rightarrow> bool" where
  "policy_ok p \<longleftrightarrow> 0 \<le> maxAttempts p \<and> (0 \<le> initialDelay p \<and> 0 \<le> maxDelay p) \<and>
     initialDelay p \<le> maxDelay p \<and> 1 \<le> multiplier p"

text \<open>
  The product of a number of milliseconds and a power of the multiplier, cut to a \<open>Long\<close>, is
  floating-point arithmetic and a parameter.
\<close>

definition delayFor ::
  "(int \<Rightarrow> real \<Rightarrow> int \<Rightarrow> int) \<Rightarrow> ReconnectPolicy \<Rightarrow> int \<Rightarrow> kotlin_error + int" where
  "delayFor scaled p attempt =
     (if attempt < 0 then Inl IllegalArgument
      else (let millis = scaled (toMillis (initialDelay p)) (multiplier p) attempt
            in Inr (min millis (toMillis (maxDelay p)) * 1000000)))"

text \<open>The exact product, cut to the range of a \<open>Long\<close>: a multiplication without rounding.\<close>

definition exact_scaled :: "int \<Rightarrow> real \<Rightarrow> int \<Rightarrow> int" where
  "exact_scaled millis m attempt =
     max (- (2 ^ 63)) (min (2 ^ 63 - 1) \<lfloor>of_int millis * m ^ nat attempt\<rfloor>)"

lemma delay_bounded:
  assumes "policy_ok p" and "0 \<le> attempt" and "toMillis (initialDelay p) < 2 ^ 63"
  shows "\<exists>d. delayFor exact_scaled p attempt = Inr d \<and>
    toMillis (initialDelay p) \<le> toMillis d \<and> toMillis d \<le> toMillis (maxDelay p)"
proof -
  let ?i = "toMillis (initialDelay p)"
  have i: "0 \<le> ?i" "?i \<le> toMillis (maxDelay p)"
    using assms(1) by (auto simp: policy_ok_def toMillis_def zdiv_mono1)
  have "1 \<le> multiplier p ^ nat attempt"
    using assms(1) by (simp add: policy_ok_def)
  then have "of_int ?i * 1 \<le> of_int ?i * multiplier p ^ nat attempt"
    using i(1) by (intro mult_left_mono) auto
  then have "?i \<le> exact_scaled ?i (multiplier p) attempt"
    using i(1) assms(3) by (simp add: exact_scaled_def le_floor_iff max_def min_def)
  then show ?thesis
    using i assms(2) by (simp add: delayFor_def Let_def toMillis_def)
qed

section \<open>Configuration\<close>

datatype SerialMode = ReadOnly | WriteOnly | ReadWrite

fun ordinal :: "SerialMode \<Rightarrow> int" where
  "ordinal ReadOnly = 0"
| "ordinal WriteOnly = 1"
| "ordinal ReadWrite = 2"

datatype QueueOverflow = Reject | DropOldest

record QueueConfig =
  capacity :: int
  overflow :: QueueOverflow
  defaultWriteDelay :: int
  defaultTimeout :: int

definition queue_ok :: "QueueConfig \<Rightarrow> bool" where
  "queue_ok q \<longleftrightarrow> 0 < capacity q \<and> 0 \<le> defaultWriteDelay q \<and> 0 \<le> defaultTimeout q"

record SerialConfig =
  path :: string
  baudRate :: int
  mode :: SerialMode
  readBufferSize :: int
  queue_config :: QueueConfig
  reconnect_policy :: ReconnectPolicy

definition serial_config_ok :: "SerialConfig \<Rightarrow> bool" where
  "serial_config_ok c \<longleftrightarrow>
     list_ex (\<lambda>x. \<not> isWhitespace x) (path c) \<and> 0 < baudRate c \<and> 0 < readBufferSize c \<and>
     queue_ok (queue_config c) \<and> policy_ok (reconnect_policy c)"

section \<open>Response matchers\<close>

type_synonym ResponseMatcher = "byte list \<Rightarrow> byte list \<Rightarrow> bool"

definition match_Any :: ResponseMatcher where
  "match_Any request response = True"

definition match_exact :: "byte list \<Rightarrow> ResponseMatcher" where
  "match_exact expected request response \<longleftrightarrow> response = expected"

definition match_prefix :: "byte list \<Rightarrow> ResponseMatcher" where
  "match_prefix pre request response \<longleftrightarrow>
     length pre \<le> length response \<and> take (length pre) response = pre"

section \<open>Commands\<close>

record SerialCommand =
  payload :: "byte list"
  timeout :: "int option"
  delay :: "int option"
  maxRetries :: int
  retryDelay :: int
  responseMatcher :: "ResponseMatcher option"
  responseTimeout :: "int option"
  tag :: "string option"
  command_id :: string

definition command_ok :: "SerialCommand \<Rightarrow> bool" where
  "command_ok c \<longleftrightarrow> payload c \<noteq> [] \<and> 0 \<le> maxRetries c \<and> 0 \<le> retryDelay c"

datatype CommandResult =
    Sent int
  | Response "byte list"
  | TimedOut int
  | Failed SerialError
  | Cancelled

section \<open>States and events\<close>

datatype CloseReason = Requested | CloseFailed

text \<open>The counters of \<open>Connected\<close> are left at zero by the whole library.\<close>

datatype SerialState =
    Idle
  | Connecting
  | Connected SerialConfig
  | Closing CloseReason
  | StateFailed SerialError bool
  | StateClosed

datatype SerialEvent =
    StateChanged SerialState
  | DataReceived "byte list"
  | CommandSent string int
  | CommandTimedOut string "string option" int
  | ErrorRaised SerialError
  | Reconnecting int int
  | ReconnectSucceeded
  | ReconnectExhausted

section \<open>Devices\<close>

record SerialDevice =
  device_path :: string
  readable :: bool
  writable :: bool

definition digits_of :: "nat \<Rightarrow> string" where
  "digits_of n = (if n < 10 then [char_of (48 + n)] else [char_of (48 + n div 10), char_of (48 + n mod 10)])"

definition candidates :: "string list" where
  "candidates = concat (map (\<lambda>pre. map (\<lambda>i. pre @ digits_of i) [0..<32])
     [''/dev/ttyS'', ''/dev/ttyUSB'', ''/dev/ttyACM''])"

text \<open>The file system is a parameter: whether a file exists, can be read and can be written.\<close>

type_synonym files = "string \<Rightarrow> (bool \<times> bool) option"

definition scan_devices :: "files \<Rightarrow> SerialDevice list" where
  "scan_devices fs =
     map (\<lambda>p. \<lparr>device_path = p, readable = fst (the (fs p)), writable = snd (the (fs p))\<rparr>)
       (filter (\<lambda>p. fs p \<noteq> None) candidates)"

lemma digits_of_inj: "i < 100 \<Longrightarrow> j < 100 \<Longrightarrow> digits_of i = digits_of j \<Longrightarrow> i = j"
proof -
  assume ij: "i < 100" "j < 100" "digits_of i = digits_of j"
  have c: "char_of m = (char_of n :: char) \<longleftrightarrow> m = n" if "m < 256" "n < 256" for m n :: nat
    using that by (metis mod_less of_char_of)
  show ?thesis
    using ij by (auto simp: digits_of_def c split: if_splits) (metis div_mult_mod_eq)
qed

lemma candidates_distinct: "distinct candidates"
  by code_simp

text \<open>Each device is reported once, and exactly those of the 96 names that exist.\<close>

lemma scan_devices_once:
  "distinct (map device_path (scan_devices fs)) \<and>
   set (map device_path (scan_devices fs)) = {p \<in> set candidates. fs p \<noteq> None}"
  by (auto simp: scan_devices_def comp_def candidates_distinct)

text \<open>A configuration for examples.\<close>

definition sample_config :: "SerialMode \<Rightarrow> SerialConfig" where
  "sample_config m = \<lparr>path = ''/dev/ttyS4'', baudRate = 9600, mode = m, readBufferSize = 512,
     queue_config = \<lparr>capacity = 2, overflow = Reject, defaultWriteDelay = 0, defaultTimeout = 500000000\<rparr>,
     reconnect_policy = \<lparr>reconnectEnabled = True, maxAttempts = 1, initialDelay = 0, maxDelay = 0,
       multiplier = 1\<rparr>\<rparr>"

end
