(* ===== verification/Serial_Transport.thy ===== *)
theory Serial_Transport
  imports Serial_Api Jni_Serial
begin

text \<open>
  The transport of a session on Android (\<open>AndroidSerialTransport.kt\<close>) over the port opened by the
  native code (\<open>serial.c\<close>, theory \<open>Jni_Serial\<close>). The file system and the answers of the system are
  parameters, and so is the conversion of a path to the bytes given to C.
\<close>

section \<open>The transport\<close>

text \<open>The descriptor, and the descriptors the input and the output stream are made of.\<close>

record transport =
  descriptor :: "int option"
  input_stream :: "int option"
  output_stream :: "int option"

definition new_transport :: transport where
  "new_transport = \<lparr>descriptor = None, input_stream = None, output_stream = None\<rparr>"

text \<open>
  \<open>open\<close>: the mode's ordinal is what the native code takes for flags. A null descriptor is stored
  before the constructor of the stream refuses it.
\<close>

definition transport_open ::
  "(string \<Rightarrow> byte list) \<Rightarrow> files \<Rightarrow> jni_answers \<Rightarrow> SerialConfig \<Rightarrow> transport \<Rightarrow>
    (throwable + unit) \<times> jni_call list \<times> transport" where
  "transport_open utf fs A c t =
     (case fs (path c) of
        None \<Rightarrow> (Inl (AndroidSerialException DeviceNotFound), [], t)
      | Some (canRead, canWrite) \<Rightarrow>
          if \<not> canRead \<or> \<not> canWrite
          then (Inl (AndroidSerialException PermissionDenied), [], t)
          else
            (case SerialPort_open A (utf (path c)) (baudRate c) (word_of_int (ordinal (mode c))) of
               (None, calls) \<Rightarrow> (Inl NullPointerException, calls, t\<lparr>descriptor := None\<rparr>)
             | (Some fd, calls) \<Rightarrow>
                 (Inr (), calls, \<lparr>descriptor = Some fd, input_stream = Some fd, output_stream = Some fd\<rparr>)))"

text \<open>
  Reading and writing: what the stream does is a parameter. A write gives the size of the payload.
\<close>

definition transport_read ::
  "(int \<Rightarrow> throwable + int \<times> byte list) \<Rightarrow> transport \<Rightarrow> throwable + int \<times> byte list" where
  "transport_read stream t =
     (case input_stream t of
        None \<Rightarrow> Inl (AndroidSerialException NotConnected)
      | Some fd \<Rightarrow> stream fd)"

definition transport_write ::
  "(int \<Rightarrow> byte list \<Rightarrow> throwable + unit) \<Rightarrow> byte list \<Rightarrow> transport \<Rightarrow> throwable + int" where
  "transport_write stream bytes t =
     (case output_stream t of
        None \<Rightarrow> Inl (AndroidSerialException NotConnected)
      | Some fd \<Rightarrow> bind_r (stream fd bytes) (\<lambda>_. Inr (int (length bytes))))"

text \<open>
  \<open>close\<close>: the streams are closed. Whether a stream that was made of a descriptor closes it is a
  matter of the platform, the parameter \<open>owned\<close>.
\<close>

definition transport_close :: "bool \<Rightarrow> transport \<Rightarrow> jni_call list \<times> transport" where
  "transport_close owned t =
     ((case input_stream t of None \<Rightarrow> [] | Some fd \<Rightarrow> if owned then [SysClose fd] else []) @
      (case output_stream t of None \<Rightarrow> [] | Some fd \<Rightarrow> if owned \<and> input_stream t \<noteq> Some fd then [SysClose fd] else []),
      \<lparr>descriptor = None, input_stream = None, output_stream = None\<rparr>)"

section \<open>Opening\<close>

definition access_mode :: "u32 \<Rightarrow> u32" where
  "access_mode flags = flags AND 3"

lemma native_open:
  "fst (SerialPort_open A p b f) = fst (SerialPort_open A p b 0)"
  "fst (SerialPort_open A p b f) = Some d \<Longrightarrow> d = open_answer A"
  "SysOpen q g \<in> set (snd (SerialPort_open A p b f)) \<Longrightarrow> q = p \<and> g = O_RDWR OR f"
  by (auto simp: SerialPort_open_def Let_def split: option.splits if_splits)



text \<open>A transport that is opened again without having been closed forgets a descriptor.\<close>

lemma reopened_forgets:
  assumes "transport_open utf fs A c t = (Inr (), calls, t')" and "input_stream t = Some fd"
    and "open_answer A \<noteq> fd"
  shows "input_stream t' \<noteq> Some fd \<and> SysClose fd \<notin> set calls"
  using assms
  by (auto simp: transport_open_def SerialPort_open_def Let_def split: option.splits prod.splits if_splits)

end
