(* ===== verification/Serial_Session.thy ===== *)
theory Serial_Session
  imports Serial_Api
begin

text \<open>
  The session (\<open>SerialSession.kt\<close>): a queue of commands, a reader and a writer coroutine for each
  connection, request and response, and reconnection. An operation of the code is a function on the
  state for each stretch between two points where it waits, and a step relation runs the stretches
  of all coroutines in any order.

  What a coroutine does between two waits is taken to be one step, and to emit an event is taken not
  to wait. A coroutine that is cancelled ends when it next waits, which may be at once; until then it
  goes on, so that a cancelled worker can do all that it could before, and can end. Time does not
  occur: whatever waits for time may go on at any moment. The transport is a parameter: it opens or
  throws, reads any data, and a write gives the number of bytes, times out or throws; to close it
  does not throw.
\<close>

section \<open>State\<close>

text \<open>A command in a queue and the number of its handle, the object its result is put in.\<close>

type_synonym QueuedCommand = "nat \<times> SerialCommand"

record command_channel =
  buffer_of :: "QueuedCommand list"
  channel_capacity :: "int option"
  channel_closed :: bool

text \<open>\<open>Channel (capacity)\<close>: the largest \<open>Int\<close> stands for no limit.\<close>

definition new_channel :: "int \<Rightarrow> command_channel" where
  "new_channel n = \<lparr>buffer_of = [],
     channel_capacity = (if n = 2 ^ 31 - 1 then None else Some n), channel_closed = False\<rparr>"

definition channel_full :: "command_channel \<Rightarrow> bool" where
  "channel_full c =
     (case channel_capacity c of None \<Rightarrow> False | Some n \<Rightarrow> n \<le> int (length (buffer_of c)))"

definition trySend :: "QueuedCommand \<Rightarrow> command_channel \<Rightarrow> command_channel option" where
  "trySend q c =
     (if channel_closed c \<or> channel_full c then None
      else Some (c\<lparr>buffer_of := buffer_of c @ [q]\<rparr>))"

definition tryReceive :: "command_channel \<Rightarrow> QueuedCommand list \<times> command_channel" where
  "tryReceive c = (take 1 (buffer_of c), c\<lparr>buffer_of := drop 1 (buffer_of c)\<rparr>)"

text \<open>The writer waits for a command, writes one, or is about to report what became of it.\<close>

datatype writer_phase = Waiting | Writing QueuedCommand | Settling QueuedCommand CommandResult

record writer_job =
  active_config :: SerialConfig
  phase :: writer_phase
  writer_cancelled :: bool

text \<open>The reconnection: launched, closing the transport, in a delay, or opening.\<close>

datatype reconnect_phase =
    Launched SerialConfig
  | ReClosing SerialConfig
  | ReDelay SerialConfig int
  | ReOpening SerialConfig int

datatype close_phase = NotClosing | CloseLaunched | CloseTransport | CloseFinished

text \<open>
  The fields of the class, the objects and coroutines it makes, and three histories: what each
  channel accepted, what its writer took, and what was thrown out of it. Connection \<open>g\<close> has the
  channel, the reader and the writer of this number; channel 0 is the one a new session has.
\<close>

record session =
  session_state :: SerialState
  event_log :: "SerialEvent list"
  commands :: nat
  current_config :: "SerialConfig option"
  reader :: "nat option"
  writer :: "nat option"
  terminal :: bool
  pendingResponse :: "QueuedCommand option"
  reconnecting :: bool
  channels :: "nat \<Rightarrow> command_channel"
  readers :: "nat \<Rightarrow> bool option"
  writers :: "nat \<Rightarrow> writer_job option"
  results :: "nat \<Rightarrow> CommandResult option"
  handles :: nat
  generations :: nat
  opens :: "SerialConfig list"
  disconnects :: nat
  close_job :: close_phase
  timers :: "(QueuedCommand \<times> int) list"
  reconnect_job :: "reconnect_phase option"
  scope_active :: bool
  channel_accepted :: "nat \<Rightarrow> QueuedCommand list"
  channel_taken :: "nat \<Rightarrow> QueuedCommand list"
  channel_dropped :: "nat \<Rightarrow> QueuedCommand list"

definition new_session :: session where
  "new_session = \<lparr>session_state = Idle, event_log = [], commands = 0, current_config = None,
     reader = None, writer = None, terminal = False, pendingResponse = None, reconnecting = False,
     channels = (\<lambda>_. new_channel (2 ^ 31 - 1)), readers = (\<lambda>_. None), writers = (\<lambda>_. None),
     results = (\<lambda>_. None), handles = 0, generations = 1, opens = [], disconnects = 0,
     close_job = NotClosing, timers = [], reconnect_job = None, scope_active = True,
     channel_accepted = (\<lambda>_. []), channel_taken = (\<lambda>_. []), channel_dropped = (\<lambda>_. [])\<rparr>"

definition emit_event :: "SerialEvent \<Rightarrow> session \<Rightarrow> session" where
  "emit_event e s = s\<lparr>event_log := event_log s @ [e]\<rparr>"

text \<open>\<open>_state.value = x\<close> and the event that tells of it\<close>

definition enter :: "SerialState \<Rightarrow> session \<Rightarrow> session" where
  "enter x s = emit_event (StateChanged x) (s\<lparr>session_state := x\<rparr>)"

fun is_Connected :: "SerialState \<Rightarrow> bool" where
  "is_Connected (Connected c) = True"
| "is_Connected _ = False"

text \<open>\<open>CompletableDeferred.complete\<close>: the first result stays.\<close>

definition complete_handle :: "nat \<Rightarrow> CommandResult \<Rightarrow> session \<Rightarrow> session" where
  "complete_handle h r s = (if results s h = None then s\<lparr>results := (results s)(h \<mapsto> r)\<rparr> else s)"

section \<open>Coroutines\<close>

text \<open>A coroutine started in a scope that is cancelled does not run.\<close>

definition startWorkers :: "SerialConfig \<Rightarrow> session \<Rightarrow> session" where
  "startWorkers c s =
     (let g = commands s
      in s\<lparr>reader := Some g, writer := Some g,
           readers := (readers s)(g := if scope_active s then Some False else None),
           writers := (writers s)(g := if scope_active s
             then Some \<lparr>active_config = c, phase = Waiting, writer_cancelled = False\<rparr> else None)\<rparr>)"

text \<open>\<open>commands = Channel (config.queue.capacity)\<close> and the workers, with the state and its event\<close>

definition connected :: "SerialConfig \<Rightarrow> session \<Rightarrow> session" where
  "connected c s =
     (let g = generations s
      in enter (Connected c) (startWorkers c
           (s\<lparr>commands := g, generations := g + 1,
              channels := (channels s)(g := new_channel (capacity (queue_config c)))\<rparr>)))"

definition cancel_reader :: "nat \<Rightarrow> session \<Rightarrow> session" where
  "cancel_reader g s = s\<lparr>readers := (readers s)(g := map_option (\<lambda>_. True) (readers s g))\<rparr>"

definition cancel_writer :: "nat \<Rightarrow> session \<Rightarrow> session" where
  "cancel_writer g s =
     s\<lparr>writers := (writers s)(g := map_option (writer_cancelled_update (\<lambda>_. True)) (writers s g))\<rparr>"

text \<open>\<open>reader?.cancel (); writer?.cancel ()\<close>\<close>

definition cancel_workers :: "session \<Rightarrow> session" where
  "cancel_workers s =
     (let s1 = (case reader s of None \<Rightarrow> s | Some g \<Rightarrow> cancel_reader g s)
      in case writer s1 of None \<Rightarrow> s1 | Some g \<Rightarrow> cancel_writer g s1)"

text \<open>\<open>scope.coroutineContext[Job]?.cancel ()\<close>\<close>

definition cancel_scope :: "session \<Rightarrow> session" where
  "cancel_scope s = s\<lparr>scope_active := False,
     readers := (\<lambda>g. map_option (\<lambda>_. True) (readers s g)),
     writers := (\<lambda>g. map_option (writer_cancelled_update (\<lambda>_. True)) (writers s g))\<rparr>"

definition fail :: "SerialError \<Rightarrow> session \<Rightarrow> session" where
  "fail error s =
     (let x = StateFailed error True;
          s1 = emit_event (StateChanged x) (emit_event (ErrorRaised error) (s\<lparr>session_state := x\<rparr>))
      in case current_config s1 of
           None \<Rightarrow> s1
         | Some c \<Rightarrow>
             if reconnectEnabled (reconnect_policy c) \<and> \<not> reconnecting s1
             then (let s2 = s1\<lparr>reconnecting := True\<rparr>
                   in if \<not> terminal s2 \<and> scope_active s2 then s2\<lparr>reconnect_job := Some (Launched c)\<rparr> else s2)
             else s1)"

section \<open>Connecting\<close>

text \<open>The result of \<open>connect\<close> that is given at once, if one is; else the transport is being opened.\<close>

definition connect :: "SerialConfig \<Rightarrow> session \<Rightarrow> (SerialError + unit) option \<times> session" where
  "connect c s =
     (if terminal s then (Some (Inl AlreadyClosed), s)
      else if is_Connected (session_state s) then (Some (Inr ()), s)
      else (None, (enter Connecting s)\<lparr>opens := opens s @ [c]\<rparr>))"

definition connect_opened :: "SerialConfig \<Rightarrow> session \<Rightarrow> session" where
  "connect_opened c s =
     connected c (s\<lparr>opens := remove1 c (opens s), current_config := Some c\<rparr>)"

definition connect_failed :: "SerialConfig \<Rightarrow> throwable \<Rightarrow> session \<Rightarrow> session" where
  "connect_failed c failure s =
     fail (OpenFailed (Some failure)) (s\<lparr>opens := remove1 c (opens s)\<rparr>)"

section \<open>Sending\<close>

definition put_channel :: "command_channel \<Rightarrow> session \<Rightarrow> session" where
  "put_channel c s = s\<lparr>channels := (channels s)(commands s := c)\<rparr>"

definition drop_command :: "session \<Rightarrow> session" where
  "drop_command s =
     (let (gone, c) = tryReceive (channels s (commands s)); g = commands s
      in (put_channel c s)\<lparr>channel_dropped := (channel_dropped s)(g := channel_dropped s g @ gone)\<rparr>)"

definition enqueue :: "QueuedCommand \<Rightarrow> session \<Rightarrow> session option" where
  "enqueue q s =
     (let g = commands s
      in case trySend q (channels s g) of
           None \<Rightarrow> None
         | Some c \<Rightarrow>
             Some ((put_channel c s)\<lparr>channel_accepted := (channel_accepted s)(g := channel_accepted s g @ [q])\<rparr>))"

definition drops_oldest :: "session \<Rightarrow> bool" where
  "drops_oldest s =
     (case current_config s of None \<Rightarrow> False | Some c \<Rightarrow> overflow (queue_config c) = DropOldest)"

text \<open>\<open>send\<close> gives the handle of the command.\<close>

definition send :: "SerialCommand \<Rightarrow> session \<Rightarrow> nat \<times> session" where
  "send command s0 =
     (let h = handles s0; s = s0\<lparr>handles := h + 1\<rparr>; queued = (h, command)
      in (h,
          if terminal s then complete_handle h (Failed AlreadyClosed) s
          else if \<not> is_Connected (session_state s) then complete_handle h (Failed NotConnected) s
          else
            (case enqueue queued s of
               Some s1 \<Rightarrow> s1
             | None \<Rightarrow>
                 if drops_oldest s
                 then (let s1 = drop_command s
                       in case enqueue queued s1 of
                            Some s2 \<Rightarrow> s2
                          | None \<Rightarrow> complete_handle h (Failed QueueFull) s1)
                 else complete_handle h (Failed QueueFull) s)))"

section \<open>The writer\<close>

fun is_Waiting :: "writer_phase \<Rightarrow> bool" where
  "is_Waiting Waiting = True"
| "is_Waiting _ = False"

definition set_phase :: "nat \<Rightarrow> writer_job \<Rightarrow> writer_phase \<Rightarrow> session \<Rightarrow> session" where
  "set_phase g w p s = s\<lparr>writers := (writers s)(g \<mapsto> w\<lparr>phase := p\<rparr>)\<rparr>"

text \<open>\<open>for (queued in commands)\<close>\<close>

definition take_command :: "nat \<Rightarrow> session \<Rightarrow> session option" where
  "take_command g s =
     (case (writers s g, buffer_of (channels s g)) of
        (Some w, q # rest) \<Rightarrow>
          (case phase w of
             Waiting \<Rightarrow>
               Some (set_phase g w (Writing q)
                 (s\<lparr>channels := (channels s)(g := (channels s g)\<lparr>buffer_of := rest\<rparr>),
                    channel_taken := (channel_taken s)(g := channel_taken s g @ [q])\<rparr>))
           | _ \<Rightarrow> None)
      | _ \<Rightarrow> None)"

datatype write_outcome = Wrote int | WriteTimedOut | WriteThrew throwable

definition attempt_write ::
  "int \<Rightarrow> (nat \<Rightarrow> write_outcome) \<Rightarrow> nat \<Rightarrow> CommandResult \<times> nat \<Rightarrow> CommandResult \<times> nat" where
  "attempt_write tmo outcomes attempt rn =
     (case rn of
        (Sent n, k) \<Rightarrow> (Sent n, k)
      | (r, k) \<Rightarrow>
          ((case outcomes k of
              Wrote n \<Rightarrow> Sent n
            | WriteTimedOut \<Rightarrow> TimedOut tmo
            | WriteThrew failure \<Rightarrow> Failed (WriteError (Some failure))), k + 1))"

text \<open>
  The result of writing a command and the number of writes: \<open>repeat (maxRetries + 1)\<close>, where the
  sum is an \<open>Int\<close>. The transport's answers are a sequence.
\<close>

definition write_command ::
  "int \<Rightarrow> SerialCommand \<Rightarrow> (nat \<Rightarrow> write_outcome) \<Rightarrow> CommandResult \<times> nat" where
  "write_command tmo command outcomes =
     fold (attempt_write tmo outcomes) [0..<nat (i32 (maxRetries command + 1))]
       (Failed (WriteError None), 0)"

definition timeout_of :: "SerialConfig \<Rightarrow> SerialCommand \<Rightarrow> int" where
  "timeout_of c command =
     (case timeout command of None \<Rightarrow> defaultTimeout (queue_config c) | Some d \<Rightarrow> d)"

definition write_taken :: "nat \<Rightarrow> (nat \<Rightarrow> write_outcome) \<Rightarrow> session \<Rightarrow> session option" where
  "write_taken g outcomes s =
     (case writers s g of
        None \<Rightarrow> None
      | Some w \<Rightarrow>
          (case phase w of
             Writing q \<Rightarrow>
               Some (set_phase g w (Settling q
                 (fst (write_command (timeout_of (active_config w) (snd q)) (snd q) outcomes))) s)
           | _ \<Rightarrow> None))"

text \<open>What follows the writes, up to the next command.\<close>

definition report :: "int \<Rightarrow> SerialCommand \<Rightarrow> CommandResult \<Rightarrow> session \<Rightarrow> session" where
  "report tmo command result s =
     (case result of
        Sent n \<Rightarrow> emit_event (CommandSent (command_id command) n) s
      | TimedOut d \<Rightarrow> emit_event (CommandTimedOut (command_id command) (tag command) (toMillis tmo)) s
      | Failed e \<Rightarrow> fail e s
      | _ \<Rightarrow> s)"

definition await_response :: "int \<Rightarrow> QueuedCommand \<Rightarrow> session \<Rightarrow> session" where
  "await_response tmo q s =
     (let d = (case responseTimeout (snd q) of None \<Rightarrow> tmo | Some d \<Rightarrow> d)
      in s\<lparr>pendingResponse := Some q, timers := (if scope_active s then timers s @ [(q, d)] else timers s)\<rparr>)"

fun is_Sent :: "CommandResult \<Rightarrow> bool" where
  "is_Sent (Sent n) = True"
| "is_Sent _ = False"

definition awaits :: "SerialCommand \<Rightarrow> CommandResult \<Rightarrow> bool" where
  "awaits command result \<longleftrightarrow> is_Sent result \<and> responseMatcher command \<noteq> None"

definition settle :: "nat \<Rightarrow> session \<Rightarrow> session option" where
  "settle g s =
     (case writers s g of
        None \<Rightarrow> None
      | Some w \<Rightarrow>
          (case phase w of
             Settling q result \<Rightarrow>
               (let tmo = timeout_of (active_config w) (snd q);
                    s1 = report tmo (snd q) result s
                in Some (set_phase g w Waiting
                     (if awaits (snd q) result then await_response tmo q s1
                      else complete_handle (fst q) result s1)))
           | _ \<Rightarrow> None))"

text \<open>The coroutine that waits for the time of a response to be over.\<close>

definition response_timeout :: "nat \<Rightarrow> session \<Rightarrow> session option" where
  "response_timeout i s =
     (if i < length (timers s) \<and> scope_active s
      then (let (q, d) = timers s ! i;
                s1 = s\<lparr>timers := take i (timers s) @ drop (i + 1) (timers s)\<rparr>
            in Some (if map_option fst (pendingResponse s1) = Some (fst q)
                     then complete_handle (fst q) (TimedOut d) (s1\<lparr>pendingResponse := None\<rparr>) else s1))
      else None)"

text \<open>A writer ends when it is cancelled, or when its channel is closed and empty.\<close>

definition writer_ends :: "nat \<Rightarrow> session \<Rightarrow> session option" where
  "writer_ends g s =
     (case writers s g of
        None \<Rightarrow> None
      | Some w \<Rightarrow>
          if writer_cancelled w \<or>
            is_Waiting (phase w) \<and> channel_closed (channels s g) \<and> buffer_of (channels s g) = []
          then Some (s\<lparr>writers := (writers s)(g := None)\<rparr>) else None)"

section \<open>The reader\<close>

text \<open>A round of the loop: without data, of which a length below zero is a case, nothing happens.\<close>

definition read_data :: "nat \<Rightarrow> byte list \<Rightarrow> session \<Rightarrow> session option" where
  "read_data g data s =
     (case readers s g of
        None \<Rightarrow> None
      | Some cancelled \<Rightarrow>
          Some (if data = [] then s
            else
              (let s1 = (case pendingResponse s of
                           None \<Rightarrow> s
                         | Some waiting \<Rightarrow>
                             (case responseMatcher (snd waiting) of
                                None \<Rightarrow> s
                              | Some m \<Rightarrow>
                                  if m (payload (snd waiting)) data
                                  then (complete_handle (fst waiting) (Response data) s)\<lparr>pendingResponse := None\<rparr>
                                  else s))
               in emit_event (DataReceived data) s1)))"

definition read_fails :: "nat \<Rightarrow> throwable \<Rightarrow> session \<Rightarrow> session option" where
  "read_fails g failure s =
     (case readers s g of
        None \<Rightarrow> None
      | Some cancelled \<Rightarrow>
          Some ((fail (ReadError (Some failure)) s)\<lparr>readers := (readers s)(g := None)\<rparr>))"

definition reader_ends :: "nat \<Rightarrow> session \<Rightarrow> session option" where
  "reader_ends g s =
     (if readers s g = Some True then Some (s\<lparr>readers := (readers s)(g := None)\<rparr>) else None)"

section \<open>Disconnecting and closing\<close>

definition disconnect :: "session \<Rightarrow> session" where
  "disconnect s =
     (if terminal s \<or> \<not> is_Connected (session_state s) then s
      else (drop_command (cancel_workers (enter (Closing Requested) s)))\<lparr>disconnects := disconnects s + 1\<rparr>)"

definition disconnected :: "session \<Rightarrow> session option" where
  "disconnected s =
     (if 0 < disconnects s then Some (enter Idle (s\<lparr>disconnects := disconnects s - 1\<rparr>)) else None)"

definition session_close :: "session \<Rightarrow> session" where
  "session_close s = (if terminal s then s else s\<lparr>terminal := True, close_job := CloseLaunched\<rparr>)"

definition close_runs :: "session \<Rightarrow> session option" where
  "close_runs s =
     (if close_job s = CloseLaunched then Some ((cancel_workers s)\<lparr>close_job := CloseTransport\<rparr>) else None)"

definition close_channel :: "session \<Rightarrow> session" where
  "close_channel s = put_channel ((channels s (commands s))\<lparr>channel_closed := True\<rparr>) s"

definition close_finishes :: "session \<Rightarrow> session option" where
  "close_finishes s =
     (if close_job s = CloseTransport
      then Some (cancel_scope (enter StateClosed ((close_channel s)\<lparr>close_job := CloseFinished\<rparr>)))
      else None)"

section \<open>Reconnecting\<close>

definition leave_reconnect :: "session \<Rightarrow> session" where
  "leave_reconnect s = s\<lparr>reconnect_job := None, reconnecting := False\<rparr>"

text \<open>The loop from attempt \<open>n\<close> on, up to the delay. A delay that cannot be computed does not occur.\<close>

definition next_attempt ::
  "(int \<Rightarrow> real \<Rightarrow> int \<Rightarrow> int) \<Rightarrow> SerialConfig \<Rightarrow> int \<Rightarrow> session \<Rightarrow> session" where
  "next_attempt scaled c n s =
     (if maxAttempts (reconnect_policy c) \<le> n then leave_reconnect (emit_event ReconnectExhausted s)
      else if terminal s then leave_reconnect s
      else
        (case delayFor scaled (reconnect_policy c) n of
           Inl e \<Rightarrow> leave_reconnect s
         | Inr d \<Rightarrow>
             (emit_event (Reconnecting (n + 1) (toMillis d)) s)\<lparr>reconnect_job := Some (ReDelay c n)\<rparr>))"

definition reconnect_runs :: "session \<Rightarrow> session option" where
  "reconnect_runs s =
     (case reconnect_job s of
        Some (Launched c) \<Rightarrow> Some ((cancel_workers s)\<lparr>reconnect_job := Some (ReClosing c)\<rparr>)
      | _ \<Rightarrow> None)"

definition reconnect_closed ::
  "(int \<Rightarrow> real \<Rightarrow> int \<Rightarrow> int) \<Rightarrow> session \<Rightarrow> session option" where
  "reconnect_closed scaled s =
     (case reconnect_job s of Some (ReClosing c) \<Rightarrow> Some (next_attempt scaled c 0 s) | _ \<Rightarrow> None)"

definition reconnect_wakes :: "session \<Rightarrow> session option" where
  "reconnect_wakes s =
     (case reconnect_job s of
        Some (ReDelay c n) \<Rightarrow> Some ((enter Connecting s)\<lparr>reconnect_job := Some (ReOpening c n)\<rparr>)
      | _ \<Rightarrow> None)"

definition reconnect_opened :: "session \<Rightarrow> session option" where
  "reconnect_opened s =
     (case reconnect_job s of
        Some (ReOpening c n) \<Rightarrow> Some (leave_reconnect (emit_event ReconnectSucceeded (connected c s)))
      | _ \<Rightarrow> None)"

definition reconnect_fails ::
  "(int \<Rightarrow> real \<Rightarrow> int \<Rightarrow> int) \<Rightarrow> throwable \<Rightarrow> session \<Rightarrow> session option" where
  "reconnect_fails scaled failure s =
     (case reconnect_job s of
        Some (ReOpening c n) \<Rightarrow>
          Some (next_attempt scaled c (n + 1) (emit_event (ErrorRaised (OpenFailed (Some failure))) s))
      | _ \<Rightarrow> None)"

text \<open>Cancelled with the scope; one that has not run yet does not reach its \<open>finally\<close>.\<close>

definition reconnect_ends :: "session \<Rightarrow> session option" where
  "reconnect_ends s =
     (if scope_active s then None
      else
        (case reconnect_job s of
           None \<Rightarrow> None
         | Some (Launched c) \<Rightarrow> Some (s\<lparr>reconnect_job := None\<rparr>)
         | Some _ \<Rightarrow> Some (leave_reconnect s)))"

section \<open>Steps\<close>

datatype session_action =
    Connect SerialConfig
  | ConnectOpened SerialConfig
  | ConnectFailed SerialConfig throwable
  | Send SerialCommand
  | TakeCommand nat
  | WriteCommand nat "nat \<Rightarrow> write_outcome"
  | Settle nat
  | ResponseTimeout nat
  | WriterEnds nat
  | ReadData nat "byte list"
  | ReadFails nat throwable
  | ReaderEnds nat
  | Disconnect
  | Disconnected
  | Close
  | CloseRuns
  | CloseFinishes
  | ReconnectRuns
  | ReconnectClosed
  | ReconnectWakes
  | ReconnectOpened
  | ReconnectFails throwable
  | ReconnectEnds

text \<open>What an action does, where it can happen.\<close>

fun act :: "(int \<Rightarrow> real \<Rightarrow> int \<Rightarrow> int) \<Rightarrow> session_action \<Rightarrow> session \<Rightarrow> session option" where
  "act scaled (Connect c) s = Some (snd (connect c s))"
| "act scaled (ConnectOpened c) s = (if c \<in> set (opens s) then Some (connect_opened c s) else None)"
| "act scaled (ConnectFailed c e) s = (if c \<in> set (opens s) then Some (connect_failed c e s) else None)"
| "act scaled (Send command) s = Some (snd (send command s))"
| "act scaled (TakeCommand g) s = take_command g s"
| "act scaled (WriteCommand g outcomes) s = write_taken g outcomes s"
| "act scaled (Settle g) s = settle g s"
| "act scaled (ResponseTimeout i) s = response_timeout i s"
| "act scaled (WriterEnds g) s = writer_ends g s"
| "act scaled (ReadData g data) s = read_data g data s"
| "act scaled (ReadFails g e) s = read_fails g e s"
| "act scaled (ReaderEnds g) s = reader_ends g s"
| "act scaled Disconnect s = Some (disconnect s)"
| "act scaled Disconnected s = disconnected s"
| "act scaled Close s = Some (session_close s)"
| "act scaled CloseRuns s = close_runs s"
| "act scaled CloseFinishes s = close_finishes s"
| "act scaled ReconnectRuns s = reconnect_runs s"
| "act scaled ReconnectClosed s = reconnect_closed scaled s"
| "act scaled ReconnectWakes s = reconnect_wakes s"
| "act scaled ReconnectOpened s = reconnect_opened s"
| "act scaled (ReconnectFails e) s = reconnect_fails scaled e s"
| "act scaled ReconnectEnds s = reconnect_ends s"

text \<open>
  A run from one state to another in which each action meets a condition on the state it starts in.
\<close>

inductive session_runs ::
  "(int \<Rightarrow> real \<Rightarrow> int \<Rightarrow> int) \<Rightarrow> (session \<Rightarrow> session_action \<Rightarrow> bool) \<Rightarrow>
    session \<Rightarrow> session_action list \<Rightarrow> session \<Rightarrow> bool"
  for scaled allowed where
  stop: "session_runs scaled allowed s [] s"
| go: "allowed s a \<Longrightarrow> act scaled a s = Some t \<Longrightarrow> session_runs scaled allowed t as u \<Longrightarrow>
    session_runs scaled allowed s (a # as) u"

inductive_simps session_runs_Nil [simp]: "session_runs scaled allowed s [] t"
inductive_simps session_runs_Cons: "session_runs scaled allowed s (a # as) t"

abbreviation anything :: "session \<Rightarrow> session_action \<Rightarrow> bool" where
  "anything \<equiv> \<lambda>_ _. True"

end
