(* ===== verification/Session_Laws.thy ===== *)
theory Session_Laws
  imports Serial_Session "HOL-Library.Sublist"
begin

text \<open>
  What holds of every run of a session, first the order in which commands are taken. The locale
  \<open>session_invariant\<close> carries what every action keeps to every run; the collections say what each
  operation leaves alone.
\<close>

locale session_invariant =
  fixes scaled :: "int \<Rightarrow> real \<Rightarrow> int \<Rightarrow> int"
    and allowed :: "session \<Rightarrow> session_action \<Rightarrow> bool" and Inv :: "session \<Rightarrow> bool"
  assumes initially: "Inv new_session"
    and kept: "Inv s \<Longrightarrow> allowed s a \<Longrightarrow> act scaled a s = Some t \<Longrightarrow> Inv t"
begin

lemma runs_keep: "session_runs scaled allowed s as t \<Longrightarrow> Inv s \<Longrightarrow> Inv t"
  by (induction rule: session_runs.induct) (auto intro: kept)

lemma always: "session_runs scaled allowed new_session as t \<Longrightarrow> Inv t"
  using runs_keep initially by blast

end

section \<open>Frames\<close>

named_theorems session_frame \<open>the components of a session an operation leaves alone\<close>
named_theorems session_defs \<open>operations that are plain updates\<close>

lemmas [session_defs] = enter_def emit_event_def leave_reconnect_def set_phase_def put_channel_def
  cancel_reader_def cancel_writer_def cancel_scope_def startWorkers_def Let_def

lemma complete_frame [session_frame]:
  "channels (complete_handle h r s) = channels s" "commands (complete_handle h r s) = commands s"
  "writers (complete_handle h r s) = writers s" "readers (complete_handle h r s) = readers s"
  "generations (complete_handle h r s) = generations s" "handles (complete_handle h r s) = handles s"
  "channel_accepted (complete_handle h r s) = channel_accepted s"
  "channel_taken (complete_handle h r s) = channel_taken s"
  "channel_dropped (complete_handle h r s) = channel_dropped s"
  "pendingResponse (complete_handle h r s) = pendingResponse s"
  "session_state (complete_handle h r s) = session_state s" "terminal (complete_handle h r s) = terminal s"
  "reconnecting (complete_handle h r s) = reconnecting s" "reader (complete_handle h r s) = reader s"
  "writer (complete_handle h r s) = writer s" "reconnect_job (complete_handle h r s) = reconnect_job s"
  "close_job (complete_handle h r s) = close_job s" "scope_active (complete_handle h r s) = scope_active s"
  "current_config (complete_handle h r s) = current_config s"
  by (simp_all add: complete_handle_def)

lemma results_complete:
  "results (complete_handle h r s) k = (if k = h \<and> results s h = None then Some r else results s k)"
  by (simp add: complete_handle_def)

lemma fail_frame [session_frame]:
  "channels (fail e s) = channels s" "commands (fail e s) = commands s"
  "writers (fail e s) = writers s" "readers (fail e s) = readers s"
  "generations (fail e s) = generations s" "handles (fail e s) = handles s"
  "channel_accepted (fail e s) = channel_accepted s"
  "channel_taken (fail e s) = channel_taken s" "channel_dropped (fail e s) = channel_dropped s"
  "pendingResponse (fail e s) = pendingResponse s" "results (fail e s) = results s"
  "session_state (fail e s) = StateFailed e True" "terminal (fail e s) = terminal s"
  "reader (fail e s) = reader s" "writer (fail e s) = writer s"
  "close_job (fail e s) = close_job s" "scope_active (fail e s) = scope_active s"
  "current_config (fail e s) = current_config s"
  by (simp_all add: fail_def emit_event_def Let_def split: option.split)

lemma report_frame [session_frame]:
  "channels (report d c r s) = channels s" "commands (report d c r s) = commands s"
  "writers (report d c r s) = writers s" "readers (report d c r s) = readers s"
  "generations (report d c r s) = generations s" "handles (report d c r s) = handles s"
  "channel_accepted (report d c r s) = channel_accepted s"
  "channel_taken (report d c r s) = channel_taken s"
  "channel_dropped (report d c r s) = channel_dropped s"
  "pendingResponse (report d c r s) = pendingResponse s" "results (report d c r s) = results s"
  "terminal (report d c r s) = terminal s"
  "reader (report d c r s) = reader s" "writer (report d c r s) = writer s"
  "close_job (report d c r s) = close_job s" "scope_active (report d c r s) = scope_active s"
  by (simp_all add: report_def session_frame emit_event_def split: CommandResult.split)

lemma next_attempt_frame [session_frame]:
  "channels (next_attempt f c n s) = channels s" "commands (next_attempt f c n s) = commands s"
  "writers (next_attempt f c n s) = writers s" "readers (next_attempt f c n s) = readers s"
  "generations (next_attempt f c n s) = generations s" "handles (next_attempt f c n s) = handles s"
  "channel_accepted (next_attempt f c n s) = channel_accepted s"
  "channel_taken (next_attempt f c n s) = channel_taken s"
  "channel_dropped (next_attempt f c n s) = channel_dropped s"
  "pendingResponse (next_attempt f c n s) = pendingResponse s"
  "results (next_attempt f c n s) = results s"
  "session_state (next_attempt f c n s) = session_state s"
  "terminal (next_attempt f c n s) = terminal s"
  "reader (next_attempt f c n s) = reader s" "writer (next_attempt f c n s) = writer s"
  "close_job (next_attempt f c n s) = close_job s"
  "scope_active (next_attempt f c n s) = scope_active s"
  by (simp_all add: next_attempt_def session_defs split: sum.split)

lemma cancel_workers_frame [session_frame]:
  "channels (cancel_workers s) = channels s" "commands (cancel_workers s) = commands s"
  "generations (cancel_workers s) = generations s" "handles (cancel_workers s) = handles s"
  "channel_accepted (cancel_workers s) = channel_accepted s"
  "channel_taken (cancel_workers s) = channel_taken s"
  "channel_dropped (cancel_workers s) = channel_dropped s"
  "pendingResponse (cancel_workers s) = pendingResponse s"
  "results (cancel_workers s) = results s" "session_state (cancel_workers s) = session_state s"
  "terminal (cancel_workers s) = terminal s" "reconnecting (cancel_workers s) = reconnecting s"
  "reconnect_job (cancel_workers s) = reconnect_job s"
  "reader (cancel_workers s) = reader s" "writer (cancel_workers s) = writer s"
  "close_job (cancel_workers s) = close_job s" "scope_active (cancel_workers s) = scope_active s"
  "current_config (cancel_workers s) = current_config s"
  by (simp_all add: cancel_workers_def session_defs split: option.split)

lemma writers_cancel_workers:
  "writers (cancel_workers s) g =
     map_option (if writer s = Some g then writer_cancelled_update (\<lambda>_. True) else id) (writers s g)"
  by (simp add: cancel_workers_def session_defs option.map_id split: option.split)

lemma readers_cancel_workers:
  "readers (cancel_workers s) g = map_option (if reader s = Some g then \<lambda>_. True else id) (readers s g)"
  by (simp add: cancel_workers_def session_defs option.map_id split: option.split)

section \<open>Order\<close>

text \<open>
  What the writer of a channel took and what still waits, in this order, is part of what the channel
  accepted; what is missing was thrown out.
\<close>

definition served_in_order :: "session \<Rightarrow> nat \<Rightarrow> bool" where
  "served_in_order s g \<longleftrightarrow>
     subseq (channel_taken s g @ buffer_of (channels s g)) (channel_accepted s g) \<and>
     length (channel_accepted s g) =
       length (channel_taken s g) + length (buffer_of (channels s g)) + length (channel_dropped s g) \<and>
     distinct (map fst (channel_accepted s g))"

fun in_hand :: "writer_phase \<Rightarrow> QueuedCommand option" where
  "in_hand Waiting = None"
| "in_hand (Writing q) = Some q"
| "in_hand (Settling q r) = Some q"

text \<open>Most actions change neither the queues nor what a handle depends on.\<close>

definition same_view :: "session \<Rightarrow> session \<Rightarrow> bool" where
  "same_view s t \<longleftrightarrow>
     (\<forall>g. map_option (in_hand \<circ> phase) (writers t g) = map_option (in_hand \<circ> phase) (writers s g)) \<and>
     (\<forall>g. buffer_of (channels t g) = buffer_of (channels s g)) \<and>
     pendingResponse t = pendingResponse s \<and> results t = results s \<and> handles t = handles s \<and>
     commands t = commands s \<and> generations t = generations s \<and>
     channel_accepted t = channel_accepted s \<and> channel_taken t = channel_taken s \<and>
     channel_dropped t = channel_dropped s"

lemma same_view_operations:
  "read_fails g e s = Some t \<Longrightarrow> same_view s t" "reader_ends g s = Some t \<Longrightarrow> same_view s t"
  "disconnected s = Some t \<Longrightarrow> same_view s t" "same_view s (session_close s)"
  "close_runs s = Some t \<Longrightarrow> same_view s t" "close_finishes s = Some t \<Longrightarrow> same_view s t"
  "reconnect_runs s = Some t \<Longrightarrow> same_view s t" "reconnect_closed f s = Some t \<Longrightarrow> same_view s t"
  "reconnect_wakes s = Some t \<Longrightarrow> same_view s t" "reconnect_fails f e s = Some t \<Longrightarrow> same_view s t"
  "reconnect_ends s = Some t \<Longrightarrow> same_view s t" "same_view s (snd (connect c s))"
  "same_view s (connect_failed c e s)" "write_taken g outcomes s = Some t \<Longrightarrow> same_view s t"
proof -
  show "read_fails g e s = Some t \<Longrightarrow> same_view s t" "reader_ends g s = Some t \<Longrightarrow> same_view s t"
    "disconnected s = Some t \<Longrightarrow> same_view s t" "same_view s (session_close s)"
    by (auto simp: same_view_def read_fails_def reader_ends_def disconnected_def session_close_def
        session_frame session_defs split: option.splits if_splits)
  show "close_runs s = Some t \<Longrightarrow> same_view s t" "close_finishes s = Some t \<Longrightarrow> same_view s t"
    by (auto simp: same_view_def close_runs_def close_finishes_def close_channel_def session_frame
        session_defs writers_cancel_workers option.map_comp comp_def split: if_splits)
  show "reconnect_runs s = Some t \<Longrightarrow> same_view s t" "reconnect_closed f s = Some t \<Longrightarrow> same_view s t"
    "reconnect_wakes s = Some t \<Longrightarrow> same_view s t" "reconnect_fails f e s = Some t \<Longrightarrow> same_view s t"
    "reconnect_ends s = Some t \<Longrightarrow> same_view s t"
    by (auto simp: same_view_def reconnect_runs_def reconnect_closed_def reconnect_wakes_def
        reconnect_fails_def reconnect_ends_def session_frame session_defs writers_cancel_workers
        option.map_comp comp_def split: option.splits reconnect_phase.splits if_splits)
  show "same_view s (snd (connect c s))" "same_view s (connect_failed c e s)"
    "write_taken g outcomes s = Some t \<Longrightarrow> same_view s t"
    by (auto simp: same_view_def connect_def connect_failed_def write_taken_def session_frame
        session_defs split: option.splits writer_phase.splits if_splits)
qed

fun calm :: "session_action \<Rightarrow> bool" where
  "calm (ConnectOpened c) = False"
| "calm (Send c) = False"
| "calm (TakeCommand g) = False"
| "calm (Settle g) = False"
| "calm (ResponseTimeout i) = False"
| "calm (WriterEnds g) = False"
| "calm (ReadData g data) = False"
| "calm Disconnect = False"
| "calm ReconnectOpened = False"
| "calm _ = True"

lemma act_calm: "calm a \<Longrightarrow> act scaled a s = Some t \<Longrightarrow> same_view s t"
  by (cases a) (auto intro: same_view_operations split: if_splits)

text \<open>The invariant of the queues.\<close>

definition queue_inv :: "session \<Rightarrow> bool" where
  "queue_inv s \<longleftrightarrow> commands s < generations s \<and> (\<forall>g. served_in_order s g) \<and>
     (\<forall>g\<ge>generations s. channel_accepted s g = [] \<and> writers s g = None) \<and>
     (\<forall>g. \<forall>q\<in>set (channel_accepted s g). fst q < handles s) \<and>
     (\<forall>g w q. writers s g = Some w \<longrightarrow> in_hand (phase w) = Some q \<longrightarrow> q \<in> set (channel_taken s g)) \<and>
     (\<forall>q. pendingResponse s = Some q \<longrightarrow> (\<exists>g. q \<in> set (channel_taken s g))) \<and>
     (\<forall>h\<ge>handles s. results s h = None)"

lemma queue_invD:
  assumes "queue_inv s"
  shows "commands s < generations s" "served_in_order s g"
    "generations s \<le> g \<Longrightarrow> channel_accepted s g = []" "generations s \<le> g \<Longrightarrow> writers s g = None"
    "q \<in> set (channel_accepted s g) \<Longrightarrow> fst q < handles s"
    "writers s g = Some w \<Longrightarrow> in_hand (phase w) = Some q \<Longrightarrow> q \<in> set (channel_taken s g)"
    "pendingResponse s = Some q \<Longrightarrow> \<exists>g. q \<in> set (channel_taken s g)"
    "handles s \<le> h \<Longrightarrow> results s h = None"
  using assms by (auto simp only: queue_inv_def)

lemma taken_bound:
  assumes "queue_inv s" and "q \<in> set (channel_taken s g)"
  shows "fst q < handles s"
proof -
  have "subseq (channel_taken s g @ buffer_of (channels s g)) (channel_accepted s g)"
    using queue_invD(2) [OF assms(1)] by (simp add: served_in_order_def)
  from list_emb_set [OF this, of q] have "q \<in> set (channel_accepted s g)"
    using assms(2) by auto
  then show ?thesis
    by (rule queue_invD(5) [OF assms(1)])
qed

lemma known_bound:
  assumes "queue_inv s"
  shows "writers s g = Some w \<Longrightarrow> in_hand (phase w) = Some q \<Longrightarrow> fst q < handles s"
    and "pendingResponse s = Some q \<Longrightarrow> fst q < handles s"
  using taken_bound [OF assms] queue_invD(6,7) [OF assms] by blast+

lemma queue_invI:
  assumes "commands s < generations s" and "\<And>g. served_in_order s g"
    and "\<And>g. generations s \<le> g \<Longrightarrow> channel_accepted s g = []"
    and "\<And>g. generations s \<le> g \<Longrightarrow> writers s g = None"
    and "\<And>g q. q \<in> set (channel_accepted s g) \<Longrightarrow> fst q < handles s"
    and "\<And>g w q. writers s g = Some w \<Longrightarrow> in_hand (phase w) = Some q \<Longrightarrow> q \<in> set (channel_taken s g)"
    and "\<And>q. pendingResponse s = Some q \<Longrightarrow> \<exists>g. q \<in> set (channel_taken s g)"
    and "\<And>h. handles s \<le> h \<Longrightarrow> results s h = None"
  shows "queue_inv s"
  unfolding queue_inv_def using assms by (intro conjI allI impI ballI)

text \<open>An operation that leaves the channels as they are.\<close>

lemma queue_inv_same:
  assumes "queue_inv s" and "commands t = commands s" and "generations t = generations s"
    and "\<And>g. buffer_of (channels t g) = buffer_of (channels s g)"
    and "channel_accepted t = channel_accepted s"
    and "channel_taken t = channel_taken s" and "channel_dropped t = channel_dropped s"
    and "handles t = handles s"
    and "\<And>g w. writers t g = Some w \<Longrightarrow> \<exists>v. writers s g = Some v \<and>
      (in_hand (phase w) = in_hand (phase v) \<or> in_hand (phase w) = None)"
    and "\<And>q. pendingResponse t = Some q \<Longrightarrow> pendingResponse s = Some q \<or>
      (\<exists>g v. writers s g = Some v \<and> in_hand (phase v) = Some q)"
    and "\<And>h. handles s \<le> h \<Longrightarrow> results s h = None \<Longrightarrow> results t h = None"
  shows "queue_inv t"
proof -
  note I = queue_invD [OF assms(1)]
  have "writers t g = None" if "generations t \<le> g" for g
    using assms(9) [of g] I(4) [of g] that assms(3) by (cases "writers t g") auto
  moreover have "q \<in> set (channel_taken t g)"
    if "writers t g = Some w" "in_hand (phase w) = Some q" for g w q
    using assms(6) assms(9) [OF that(1)] that(2) I(6) [of g _ q] by (metis option.distinct(1))
  moreover have "\<exists>g. q \<in> set (channel_taken t g)" if "pendingResponse t = Some q" for q
    using assms(6) assms(10) [OF that] I(6,7) by metis
  moreover have "served_in_order t g" for g
    using assms(4-7) I(2) [of g] by (simp add: served_in_order_def)
  ultimately show ?thesis
    using I(1,3,5,8) assms(2,3,5,8,11) by (intro queue_invI) simp_all
qed

lemma queue_inv_same_view:
  assumes "queue_inv s" and "same_view s t"
  shows "queue_inv t"
proof (rule queue_inv_same [OF assms(1)])
  have hands: "map_option (in_hand \<circ> phase) (writers t g) = map_option (in_hand \<circ> phase) (writers s g)" for g
    using assms(2) by (simp add: same_view_def)
  show "\<exists>v. writers s g = Some v \<and> (in_hand (phase w) = in_hand (phase v) \<or> in_hand (phase w) = None)"
    if "writers t g = Some w" for g w
    using that hands [of g] by (cases "writers s g") auto
qed (use assms(2) in \<open>auto simp: same_view_def\<close>)

text \<open>A new connection.\<close>

lemma connected_frame [session_frame]:
  "commands (connected c s) = generations s" "generations (connected c s) = generations s + 1"
  "channels (connected c s) =
     (channels s)(generations s := new_channel (capacity (queue_config c)))"
  "writers (connected c s) = (writers s)(generations s :=
     if scope_active s then Some \<lparr>active_config = c, phase = Waiting, writer_cancelled = False\<rparr> else None)"
  "readers (connected c s) =
     (readers s)(generations s := if scope_active s then Some False else None)"
  "handles (connected c s) = handles s" "channel_accepted (connected c s) = channel_accepted s"
  "channel_taken (connected c s) = channel_taken s"
  "channel_dropped (connected c s) = channel_dropped s"
  "pendingResponse (connected c s) = pendingResponse s" "results (connected c s) = results s"
  "session_state (connected c s) = Connected c" "terminal (connected c s) = terminal s"
  "reader (connected c s) = Some (generations s)" "writer (connected c s) = Some (generations s)"
  "reconnecting (connected c s) = reconnecting s" "reconnect_job (connected c s) = reconnect_job s"
  "close_job (connected c s) = close_job s" "scope_active (connected c s) = scope_active s"
  by (simp_all add: connected_def session_defs)

lemma queue_inv_connected:
  assumes "queue_inv s"
  shows "queue_inv (connected c s)"
proof (rule queue_invI)
  note I = queue_invD [OF assms]
  have "channel_accepted s (generations s) = []"
    using I(3) by simp
  then show "served_in_order (connected c s) g" for g
    using I(2) [of g] by (auto simp: served_in_order_def session_frame new_channel_def)
  show "q \<in> set (channel_taken (connected c s) g)"
    if "writers (connected c s) g = Some w" "in_hand (phase w) = Some q" for g w q
    using that I(6) [of g w q] by (auto simp: session_frame split: if_splits)
qed (use queue_invD [OF assms] in \<open>auto simp: session_frame\<close>)

text \<open>The operations on a channel.\<close>

lemma queue_inv_dropped:
  assumes "queue_inv s"
  shows "queue_inv (drop_command s)"
proof (rule queue_invI)
  note I = queue_invD [OF assms]
  show "served_in_order (drop_command s) g" for g
  proof (cases "buffer_of (channels s (commands s))")
    case (Cons q rest)
    have "subseq (channel_taken s g @ rest) (channel_accepted s g)"
      if "subseq (channel_taken s g @ q # rest) (channel_accepted s g)"
      by (rule subseq_order.trans [OF _ that]) (simp add: subseq_append' list_emb_Cons)
    then show ?thesis
      using I(2) [of g] Cons
      by (auto simp: served_in_order_def drop_command_def tryReceive_def session_defs)
  qed (use I(2) [of g] in \<open>auto simp: served_in_order_def drop_command_def tryReceive_def session_defs\<close>)
qed (use queue_invD [OF assms] in \<open>auto simp: drop_command_def tryReceive_def session_defs\<close>)

lemma queue_inv_enqueue:
  assumes "queue_inv s" and "enqueue (handles s, c) (s\<lparr>handles := handles s + 1\<rparr>) = Some t"
  shows "queue_inv t"
proof (rule queue_invI)
  note I = queue_invD [OF assms(1)]
  have "handles s \<notin> fst ` set (channel_accepted s g)" for g
    using I(5) [of _ g] by fastforce
  then show "served_in_order t g" for g
    using I(2) [of g] assms(2)
    by (auto simp: served_in_order_def enqueue_def trySend_def session_defs simp flip: append_assoc
        intro: list_emb_append_mono split: option.splits if_splits)
  show "fst q < handles t" if "q \<in> set (channel_accepted t g)" for g q
    using that assms(2) I(5) [of q g]
    by (auto simp: enqueue_def trySend_def session_defs split: option.splits if_splits)
  show "channel_accepted t g = []" if "generations t \<le> g" for g
    using that I(1) I(3) [of g] assms(2)
    by (auto simp: enqueue_def trySend_def session_defs split: option.splits if_splits)
qed (use queue_invD [OF assms(1)] assms(2) in
    \<open>auto simp: enqueue_def trySend_def session_defs split: option.splits if_splits\<close>)

lemma drop_command_frame [session_frame]:
  "drop_command (s\<lparr>handles := n\<rparr>) = (drop_command s)\<lparr>handles := n\<rparr>"
  "commands (drop_command s) = commands s"
  "handles (drop_command s) = handles s" "writers (drop_command s) = writers s"
  "readers (drop_command s) = readers s" "generations (drop_command s) = generations s"
  "results (drop_command s) = results s" "pendingResponse (drop_command s) = pendingResponse s"
  "session_state (drop_command s) = session_state s" "terminal (drop_command s) = terminal s"
  "reader (drop_command s) = reader s" "writer (drop_command s) = writer s"
  "reconnecting (drop_command s) = reconnecting s" "reconnect_job (drop_command s) = reconnect_job s"
  "close_job (drop_command s) = close_job s" "scope_active (drop_command s) = scope_active s"
  "current_config (drop_command s) = current_config s"
  by (simp_all add: drop_command_def tryReceive_def session_defs)

lemma queue_inv_complete_fresh:
  "queue_inv s \<Longrightarrow> queue_inv (complete_handle (handles s) r (s\<lparr>handles := handles s + 1\<rparr>))"
  by (rule queue_invI)
    (auto simp: session_frame results_complete served_in_order_def intro: less_SucI dest: queue_invD Suc_leD)

lemma queue_inv_send:
  assumes "queue_inv s"
  shows "queue_inv (snd (send c s))"
proof -
  let ?h = "handles s" and ?s = "s\<lparr>handles := handles s + 1\<rparr>"
  have dropped: "queue_inv (drop_command s)"
    by (rule queue_inv_dropped [OF assms])
  have "queue_inv (case enqueue (?h, c) ?s of
      Some s1 \<Rightarrow> s1
    | None \<Rightarrow> if drops_oldest ?s
        then (case enqueue (?h, c) (drop_command ?s) of
            Some s2 \<Rightarrow> s2 | None \<Rightarrow> complete_handle ?h (Failed QueueFull) (drop_command ?s))
        else complete_handle ?h (Failed QueueFull) ?s)"
    using queue_inv_enqueue [OF assms, of c] queue_inv_enqueue [OF dropped, of c]
      queue_inv_complete_fresh [OF assms] queue_inv_complete_fresh [OF dropped]
    by (auto simp: session_frame split: option.split)
  then show ?thesis
    using queue_inv_complete_fresh [OF assms] unfolding send_def Let_def snd_conv
    by (simp split: if_split)
qed

lemma queue_inv_taken:
  assumes "queue_inv s" and "take_command g s = Some t"
  shows "queue_inv t"
proof (rule queue_invI)
  note I = queue_invD [OF assms(1)]
  obtain w q rest where t: "writers s g = Some w" "buffer_of (channels s g) = q # rest"
    "t = set_phase g w (Writing q)
            (s\<lparr>channels := (channels s)(g := (channels s g)\<lparr>buffer_of := rest\<rparr>),
               channel_taken := (channel_taken s)(g := channel_taken s g @ [q])\<rparr>)"
    using assms(2) by (auto simp: take_command_def split: option.splits list.splits writer_phase.splits if_splits)
  show "served_in_order t k" for k
    using I(2) [of k] t by (auto simp: served_in_order_def session_defs)
  show "r \<in> set (channel_taken t k)" if "writers t k = Some v" "in_hand (phase v) = Some r" for k v r
    using that t I(6) [of k v r] by (auto simp: session_defs split: if_splits)
  show "\<exists>k. r \<in> set (channel_taken t k)" if "pendingResponse t = Some r" for r
    using that t I(7) [of r] by (auto simp: session_defs)
  show "writers t k = None" if "generations t \<le> k" for k
    using that t I(4) [of k] by (auto simp: session_defs)
qed (use queue_invD [OF assms(1)] assms(2) in
    \<open>auto simp: take_command_def session_defs split: option.splits list.splits writer_phase.splits if_splits\<close>)

text \<open>The other actions.\<close>

lemma queue_inv_act:
  assumes "queue_inv s" and "act scaled a s = Some t"
  shows "queue_inv t"
proof -
  show ?thesis
  proof (cases a)
    case (ConnectOpened c)
    have "queue_inv (s\<lparr>opens := remove1 c (opens s), current_config := Some c\<rparr>)"
      by (rule queue_inv_same [OF assms(1)]) auto
    then show ?thesis
      using assms(2) ConnectOpened by (auto simp: connect_opened_def intro: queue_inv_connected split: if_splits)
  next
    case (Send c)
    then show ?thesis
      using assms(2) queue_inv_send [OF assms(1)] by auto
  next
    case (TakeCommand g)
    then show ?thesis
      using assms(2) queue_inv_taken [OF assms(1)] by simp
  next
    case (Settle g)
    then obtain w q r where w: "writers s g = Some w" "phase w = Settling q r"
      using assms(2) by (auto simp: settle_def split: option.splits writer_phase.splits)
    then have "fst q < handles s" "\<exists>g w. writers s g = Some w \<and> in_hand (phase w) = Some q"
      using known_bound(1) [OF assms(1), of g w q] by force+
    then show ?thesis
      using assms(2) Settle w
      by (auto simp: settle_def session_defs await_response_def session_frame results_complete
          intro!: queue_inv_same [OF assms(1)] split: if_splits)
  next
    case (ResponseTimeout i)
    then show ?thesis
      using assms(2) known_bound(2) [OF assms(1)]
      by (auto simp: response_timeout_def session_defs session_frame results_complete
          intro!: queue_inv_same [OF assms(1)] split: if_splits prod.splits)
  next
    case (ReadData g data)
    then show ?thesis
      using assms(2) known_bound(2) [OF assms(1)]
      by (auto simp: read_data_def session_defs session_frame results_complete
          intro!: queue_inv_same [OF assms(1)] split: if_splits option.splits)
  next
    case ReconnectOpened
    then obtain c where t: "t = leave_reconnect (emit_event ReconnectSucceeded (connected c s))"
      using assms(2) by (auto simp: reconnect_opened_def split: option.splits reconnect_phase.splits)
    show ?thesis
      unfolding t by (rule queue_inv_same [OF queue_inv_connected [OF assms(1), of c]])
        (auto simp: session_defs)
  next
    case Disconnect
    have "queue_inv (cancel_workers (enter (Closing Requested) s))"
      by (rule queue_inv_same [OF assms(1)]) (auto simp: session_frame session_defs writers_cancel_workers)
    then have "queue_inv ((drop_command (cancel_workers (enter (Closing Requested) s)))
        \<lparr>disconnects := disconnects s + 1\<rparr>)"
      by (rule queue_inv_same [OF queue_inv_dropped]) auto
    then show ?thesis
      using assms Disconnect by (auto simp: disconnect_def)
  next
    case (WriterEnds g)
    then show ?thesis
      using assms(2) by (auto simp: writer_ends_def intro!: queue_inv_same [OF assms(1)]
          split: option.splits if_splits)
  qed (use act_calm [OF _ assms(2)] queue_inv_same_view [OF assms(1)] in auto)
qed

interpretation queues: session_invariant scaled anything queue_inv for scaled
proof
  show "queue_inv new_session"
    by (simp add: queue_inv_def served_in_order_def new_session_def new_channel_def)
qed (rule queue_inv_act)

lemma served:
  assumes "queue_inv s"
  shows "subseq (channel_taken s g @ buffer_of (channels s g)) (channel_accepted s g) \<and>
    distinct (map fst (channel_taken s g @ buffer_of (channels s g))) \<and>
    (channel_dropped s g = [] \<longrightarrow> channel_taken s g @ buffer_of (channels s g) = channel_accepted s g)"
proof -
  let ?l = "channel_taken s g @ buffer_of (channels s g)"
  have l: "subseq ?l (channel_accepted s g)" "distinct (map fst (channel_accepted s g))"
      "length (channel_accepted s g) = length ?l + length (channel_dropped s g)"
    using queue_invD(2) [OF assms, of g] by (simp_all add: served_in_order_def)
  obtain N where "map fst ?l = nths (map fst (channel_accepted s g)) N"
    using subseq_map [OF l(1)] unfolding subseq_conv_nths by blast
  then have "distinct (map fst ?l)"
    using l(2) by (metis distinct_nthsI)
  then show ?thesis
    using l(1,3) subseq_same_length [OF l(1)] by simp
qed

text \<open>
  C14. The commands of a connection are taken by its writer in the order in which they were accepted,
  each at most once, whatever the coroutines do. As long as nothing was thrown out of the queue, all
  that were accepted were taken or still wait.
\<close>

theorem commands_in_order:
  assumes "session_runs scaled anything new_session as s"
  shows "subseq (channel_taken s g @ buffer_of (channels s g)) (channel_accepted s g) \<and>
    distinct (map fst (channel_taken s g @ buffer_of (channels s g))) \<and>
    (channel_dropped s g = [] \<longrightarrow> channel_taken s g @ buffer_of (channels s g) = channel_accepted s g)"
  by (rule served [OF queues.always [OF assms]])

section \<open>Examples\<close>

definition example_command :: SerialCommand where
  "example_command = \<lparr>payload = [1], timeout = None, delay = None, maxRetries = 0, retryDelay = 0,
     responseMatcher = Some match_Any, responseTimeout = None, tag = None, command_id = ''a''\<rparr>"

lemma example_command_simps [simp]:
  "write_command d example_command (\<lambda>_. Wrote 1) = (Sent 1, 1)"
  "responseMatcher example_command = Some match_Any"
  by (simp_all add: example_command_def write_command_def attempt_write_def)

lemma sample_config_simps [simp]:
  "capacity (queue_config (sample_config m)) = 2" "overflow (queue_config (sample_config m)) = Reject"
  "reconnectEnabled (reconnect_policy (sample_config m))"
  "maxAttempts (reconnect_policy (sample_config m)) = 1"
  by (simp_all add: sample_config_def)

text \<open>A session is opened, and two requests are written one after the other.\<close>

definition opened_session :: "session_action list" where
  "opened_session = [Connect (sample_config ReadWrite), ConnectOpened (sample_config ReadWrite)]"

definition exchange :: "session_action list" where
  "exchange = [TakeCommand 1, WriteCommand 1 (\<lambda>_. Wrote 1), Settle 1]"

definition two_requests :: "session_action list" where
  "two_requests = opened_session @ [Send example_command, Send example_command] @ exchange @ exchange"

lemmas evaluation = session_runs_Cons opened_session_def two_requests_def exchange_def new_session_def
  connect_def connect_opened_def connected_def send_def enqueue_def trySend_def channel_full_def
  new_channel_def take_command_def write_taken_def settle_def report_def awaits_def
  await_response_def session_defs

theorem commands_in_order_witness:
  "\<exists>s. session_runs exact_scaled anything new_session two_requests s \<and>
     map fst (channel_taken s 1) = [0, 1] \<and>
     subseq (channel_taken s 1 @ buffer_of (channels s 1)) (channel_accepted s 1)"
proof -
  obtain s where "session_runs exact_scaled anything new_session two_requests s"
      "map fst (channel_taken s 1) = [0, 1]"
    by (simp add: evaluation)
  then show ?thesis
    using commands_in_order [of exact_scaled two_requests s 1] by (intro exI [of _ s]) simp
qed

end
