(* ===== verification/Session_Handles.thy ===== *)
theory Session_Handles
  imports Session_Laws
begin

text \<open>
  The handles of a session: which actions may put one out of view, that one in view stays so until it
  is completed, and that one out of view is never completed.
\<close>

section \<open>Handles\<close>

text \<open>
  A handle that some coroutine still has in view: its command waits in the queue of a writer that
  has not ended, is in the hand of one, or awaits its response.
\<close>

definition held :: "session \<Rightarrow> nat \<Rightarrow> QueuedCommand set" where
  "held s g =
     (case writers s g of
        None \<Rightarrow> {}
      | Some w \<Rightarrow> set (buffer_of (channels s g)) \<union> set_option (in_hand (phase w)))"

definition in_view :: "session \<Rightarrow> nat \<Rightarrow> bool" where
  "in_view s h \<longleftrightarrow> (\<exists>q. fst q = h \<and> ((\<exists>g. q \<in> held s g) \<or> pendingResponse s = Some q))"

text \<open>The actions that may put a handle out of view.\<close>

definition forgetful :: "session \<Rightarrow> session_action \<Rightarrow> bool" where
  "forgetful s a \<longleftrightarrow>
     (\<exists>c. a = Send c \<and> drops_oldest s) \<or> a = Disconnect \<or> (\<exists>g. a = WriterEnds g) \<or>
     (\<exists>g. a = Settle g \<and> pendingResponse s \<noteq> None)"

lemma stays_in_view:
  assumes "in_view s h" and "\<And>g q. q \<in> held s g \<Longrightarrow> fst q = h \<Longrightarrow> in_view t h \<or> results t h \<noteq> None"
    and "\<And>q. pendingResponse s = Some q \<Longrightarrow> fst q = h \<Longrightarrow> in_view t h \<or> results t h \<noteq> None"
  shows "in_view t h \<or> results t h \<noteq> None"
  using assms unfolding in_view_def by blast

lemma view_same:
  assumes "in_view s h" and "\<And>g. held s g \<subseteq> held t g" and "pendingResponse t = pendingResponse s"
  shows "in_view t h"
  using assms unfolding in_view_def by (metis subsetD)

lemma held_same:
  "map_option (in_hand \<circ> phase) (writers t g) = map_option (in_hand \<circ> phase) (writers s g) \<Longrightarrow>
    buffer_of (channels t g) = buffer_of (channels s g) \<Longrightarrow> held t g = held s g"
  by (auto simp: held_def split: option.splits)

lemma same_view_held: "same_view s t \<Longrightarrow> held t g = held s g"
  unfolding same_view_def by (intro held_same) simp_all

lemma same_view_in_view: "same_view s t \<Longrightarrow> in_view t h = in_view s h"
  by (simp add: in_view_def same_view_held) (simp add: same_view_def)

lemma held_connected: "queue_inv s \<Longrightarrow> held (connected c s) g = held s g"
  using queue_invD(4) [of s "generations s"]
  by (auto simp: held_def session_frame new_channel_def split: option.splits)

lemma view_connected: "queue_inv s \<Longrightarrow> in_view (connected c s) h = in_view s h"
  by (simp add: in_view_def held_connected session_frame)

lemma held_taken: "take_command k s = Some t \<Longrightarrow> held t g = held s g"
  by (auto simp: take_command_def held_def session_defs split: option.splits list.splits writer_phase.splits if_splits)

lemma held_enqueue:
  "enqueue q s = Some t \<Longrightarrow> held s g \<subseteq> held t g \<and> held t g \<subseteq> insert q (held s g)"
  by (auto simp: enqueue_def trySend_def held_def session_defs split: option.splits if_splits)

lemma held_enqueue_in: "enqueue q s = Some t \<Longrightarrow> p \<in> held t g \<Longrightarrow> p = q \<or> p \<in> held s g"
  using held_enqueue [of q s t g] by blast

lemma held_dropped: "held (drop_command s) g \<subseteq> held s g"
  by (auto simp: drop_command_def tryReceive_def held_def session_defs dest: in_set_dropD split: option.splits)

lemma enqueue_frame:
  "enqueue q s = Some t \<Longrightarrow> pendingResponse t = pendingResponse s \<and> results t = results s \<and>
    handles t = handles s"
  by (auto simp: enqueue_def trySend_def session_defs split: option.splits if_splits)

lemma held_update [simp]:
  "held (s\<lparr>handles := n\<rparr>) = held s" "held (s\<lparr>disconnects := n\<rparr>) = held s"
  by (simp_all add: held_def fun_eq_iff split: option.split)

lemma held_complete [simp]: "held (complete_handle h r s) = held s"
  by (simp add: held_def fun_eq_iff session_frame split: option.split)

text \<open>What sending does to the handles in view.\<close>

lemma sending_cases:
  obtains (refused) r where "snd (send c s) = complete_handle (handles s) r (s\<lparr>handles := handles s + 1\<rparr>)"
  | (queued) t where "enqueue (handles s, c) (s\<lparr>handles := handles s + 1\<rparr>) = Some t" "snd (send c s) = t"
  | (lost) r where "drops_oldest s"
      "snd (send c s) = complete_handle (handles s) r ((drop_command s)\<lparr>handles := handles s + 1\<rparr>)"
  | (replaced) t where "drops_oldest s"
      "enqueue (handles s, c) ((drop_command s)\<lparr>handles := handles s + 1\<rparr>) = Some t" "snd (send c s) = t"
proof -
  have "drops_oldest (s\<lparr>handles := n\<rparr>) = drops_oldest s" for n
    by (simp add: drops_oldest_def)
  then have "(\<exists>r. snd (send c s) = complete_handle (handles s) r (s\<lparr>handles := handles s + 1\<rparr>)) \<or>
      enqueue (handles s, c) (s\<lparr>handles := handles s + 1\<rparr>) = Some (snd (send c s)) \<or>
      drops_oldest s \<and> (\<exists>r. snd (send c s) =
        complete_handle (handles s) r ((drop_command s)\<lparr>handles := handles s + 1\<rparr>)) \<or>
      drops_oldest s \<and>
        enqueue (handles s, c) ((drop_command s)\<lparr>handles := handles s + 1\<rparr>) = Some (snd (send c s))"
    unfolding send_def Let_def snd_conv
    by (auto simp: session_frame split: option.split if_split)
  then show thesis
    using that by blast
qed

lemma held_send:
  "held (snd (send c s)) g \<subseteq> insert (handles s, c) (held s g)"
  "\<not> drops_oldest s \<Longrightarrow> held s g \<subseteq> held (snd (send c s)) g"
  "pendingResponse (snd (send c s)) = pendingResponse s"
  "handles (snd (send c s)) = handles s + 1"
  "k \<noteq> handles s \<Longrightarrow> results (snd (send c s)) k = results s k"
proof -
  note cases = sending_cases [of c s]
  show "held (snd (send c s)) g \<subseteq> insert (handles s, c) (held s g)"
    using held_dropped [of s g]
    by (cases rule: cases) (auto simp: session_frame dest!: held_enqueue_in)
  show "\<not> drops_oldest s \<Longrightarrow> held s g \<subseteq> held (snd (send c s)) g"
    using held_enqueue [of "(handles s, c)" "s\<lparr>handles := handles s + 1\<rparr>" _ g]
    by (cases rule: cases) auto
  show "pendingResponse (snd (send c s)) = pendingResponse s"
    "handles (snd (send c s)) = handles s + 1"
    by (cases rule: cases; auto simp: session_frame dest: enqueue_frame)+
  show "k \<noteq> handles s \<Longrightarrow> results (snd (send c s)) k = results s k"
    by (cases rule: cases) (auto simp: session_frame results_complete dest: enqueue_frame)
qed

lemma held_ended:
  "writer_ends g s = Some t \<Longrightarrow> held t k \<subseteq> held s k" "held (disconnect s) k \<subseteq> held s k"
proof -
  have "same_view s (cancel_workers (enter (Closing Requested) s))"
    by (auto simp: same_view_def session_frame session_defs writers_cancel_workers option.map_comp comp_def)
  then show "held (disconnect s) k \<subseteq> held s k"
    using held_dropped [of "cancel_workers (enter (Closing Requested) s)" k]
    by (auto simp: disconnect_def same_view_held)
qed (auto simp: writer_ends_def held_def split: option.splits if_splits)

text \<open>What the other operations that complete a handle do.\<close>

lemma in_viewI:
  "q \<in> held s g \<Longrightarrow> in_view s (fst q)" "pendingResponse s = Some q \<Longrightarrow> in_view s (fst q)"
  unfolding in_view_def by blast+

lemma settle_effect:
  assumes "settle g s = Some t"
  obtains w q r where "writers s g = Some w" "phase w = Settling q r" "channels t = channels s"
    "writers t = (writers s)(g \<mapsto> w\<lparr>phase := Waiting\<rparr>)" "handles t = handles s"
    "pendingResponse t = Some q \<and> results t = results s \<or>
     pendingResponse t = pendingResponse s \<and> results t (fst q) \<noteq> None \<and>
       (\<forall>k. k \<noteq> fst q \<longrightarrow> results t k = results s k)"
  using assms
  by (auto simp: settle_def session_defs await_response_def session_frame results_complete fun_eq_iff
      split: option.splits writer_phase.splits if_splits)

text \<open>The response of the pending command is there, or it is late, or neither.\<close>

definition answers :: "session \<Rightarrow> session \<Rightarrow> bool" where
  "answers s t \<longleftrightarrow> channels t = channels s \<and> writers t = writers s \<and> handles t = handles s \<and>
     (pendingResponse t = pendingResponse s \<and> results t = results s \<or>
      (\<exists>q. pendingResponse s = Some q \<and> pendingResponse t = None \<and> results t (fst q) \<noteq> None \<and>
         (\<forall>k. k \<noteq> fst q \<longrightarrow> results t k = results s k)))"

lemma answers_operations:
  "response_timeout i s = Some t \<Longrightarrow> answers s t" "read_data g data s = Some t \<Longrightarrow> answers s t"
  by (auto simp: answers_def response_timeout_def read_data_def session_defs session_frame
      results_complete split: option.splits prod.splits if_splits)

lemma answers_held: "answers s t \<Longrightarrow> held t g = held s g"
  by (auto simp: answers_def held_def split: option.splits)

lemma answers_view:
  assumes "answers s t" and "in_view s h"
  shows "in_view t h \<or> results t h \<noteq> None"
proof (rule stays_in_view [OF assms(2)])
  show "in_view t h \<or> results t h \<noteq> None" if "q \<in> held s g" "fst q = h" for g q
    using that in_viewI(1) [of q t g] answers_held [OF assms(1)] by simp
  show "in_view t h \<or> results t h \<noteq> None" if "pendingResponse s = Some q" "fst q = h" for q
    using that assms(1) in_viewI(2) [of t q] by (auto simp: answers_def)
qed

lemma settle_view:
  assumes "settle g s = Some t" and "pendingResponse s = None" and "in_view s h"
  shows "in_view t h \<or> results t h \<noteq> None"
proof (rule settle_effect [OF assms(1)])
  fix w q r
  assume t: "writers s g = Some w" "phase w = Settling q r" "channels t = channels s"
    "writers t = (writers s)(g \<mapsto> w\<lparr>phase := Waiting\<rparr>)"
    "pendingResponse t = Some q \<and> results t = results s \<or>
     pendingResponse t = pendingResponse s \<and> results t (fst q) \<noteq> None \<and>
       (\<forall>k. k \<noteq> fst q \<longrightarrow> results t k = results s k)"
  show ?thesis
  proof (rule stays_in_view [OF assms(3)])
    show "in_view t h \<or> results t h \<noteq> None" if "p \<in> held s k" "fst p = h" for k p
    proof (cases "p \<in> held t k")
      case False
      then have "p = q"
        using that(1) t(1-4) by (auto simp: held_def split: if_splits option.splits)
      then show ?thesis
        using t(5) that(2) in_viewI(2) [of t q] by auto
    qed (use in_viewI(1) [of p t k] that(2) in simp)
  qed (use assms(2) in simp)
qed

lemma take_command_frame:
  "take_command g s = Some t \<Longrightarrow>
    pendingResponse t = pendingResponse s \<and> results t = results s \<and> handles t = handles s"
  by (auto simp: take_command_def session_defs split: option.splits list.splits writer_phase.splits if_splits)

lemma connection_view:
  assumes "queue_inv s"
  shows "c \<in> set (opens s) \<Longrightarrow> in_view (connect_opened c s) h = in_view s h"
    and "reconnect_opened s = Some t \<Longrightarrow> in_view t h = in_view s h"
proof -
  let ?s = "s\<lparr>opens := remove1 c (opens s), current_config := Some c\<rparr>"
  have "same_view s ?s" "queue_inv ?s"
    by (simp_all add: same_view_def) (rule queue_inv_same [OF assms]; simp)
  then show "in_view (connect_opened c s) h = in_view s h"
    by (simp add: connect_opened_def view_connected same_view_in_view)
  assume "reconnect_opened s = Some t"
  then obtain d where t: "t = leave_reconnect (emit_event ReconnectSucceeded (connected d s))"
    by (auto simp: reconnect_opened_def split: option.splits reconnect_phase.splits)
  have "same_view (connected d s) t"
    by (simp add: t same_view_def session_defs)
  then show "in_view t h = in_view s h"
    by (simp add: same_view_in_view view_connected [OF assms])
qed

text \<open>A handle in view stays in view or is completed.\<close>

lemma act_keeps_view:
  assumes "queue_inv s" and "act scaled a s = Some t" and "in_view s h" and "\<not> forgetful s a"
  shows "in_view t h \<or> results t h \<noteq> None"
proof (cases a)
  case (ConnectOpened c)
  then show ?thesis
    using assms(2,3) connection_view(1) [OF assms(1)] by (auto split: if_splits)
next
  case (Send c)
  then have "\<not> drops_oldest s"
    using assms(4) by (auto simp: forgetful_def)
  then show ?thesis
    using assms(2) Send view_same [OF assms(3) _ held_send(3)] held_send(2) by auto
next
  case (TakeCommand g)
  then have t: "take_command g s = Some t"
    using assms(2) by simp
  then show ?thesis
    using view_same [OF assms(3), of t] held_taken [OF t] take_command_frame [OF t] by simp
next
  case (Settle g)
  then show ?thesis
    using assms settle_view [of g s t h] by (cases "pendingResponse s") (auto simp: forgetful_def)
next
  case (ResponseTimeout i)
  then show ?thesis
    using assms(2,3) answers_operations(1) answers_view by (metis act.simps(8))
next
  case (ReadData g data)
  then show ?thesis
    using assms(2,3) answers_operations(2) answers_view by (metis act.simps(10))
next
  case ReconnectOpened
  then show ?thesis
    using assms(2,3) connection_view(2) [OF assms(1)] by simp
qed (use assms(3,4) act_calm [OF _ assms(2)] same_view_in_view in \<open>auto simp: forgetful_def\<close>)

text \<open>A handle without a result that no coroutine has in view any more.\<close>

definition forgotten :: "session \<Rightarrow> nat \<Rightarrow> bool" where
  "forgotten s h \<longleftrightarrow> h < handles s \<and> results s h = None \<and> \<not> in_view s h"

lemma forgotten_shrinks:
  assumes "forgotten s h" and "\<And>g q. q \<in> held t g \<Longrightarrow> in_view s (fst q) \<or> handles s \<le> fst q"
    and "pendingResponse t = pendingResponse s" and "results t h = results s h"
    and "handles s \<le> handles t"
  shows "forgotten t h"
proof -
  have "\<not> in_view t h"
    using assms(1-3) in_viewI(2) [of s] unfolding forgotten_def in_view_def [of t]
    by (metis leD)
  then show ?thesis
    using assms(1,4,5) by (simp add: forgotten_def)
qed

lemma same_view_forgotten: "same_view s t \<Longrightarrow> forgotten t h = forgotten s h"
  using same_view_in_view [of s t h] by (simp add: forgotten_def same_view_def)

lemma answers_forgotten:
  assumes "answers s t" and "forgotten s h"
  shows "forgotten t h"
proof -
  have "in_view t h \<Longrightarrow> in_view s h"
    using assms(1) answers_held [OF assms(1)] by (auto simp: in_view_def answers_def)
  moreover have "fst q \<noteq> h" if "pendingResponse s = Some q" for q
    using that assms(2) in_viewI(2) [of s q] by (auto simp: forgotten_def)
  then have "results t h = results s h"
    using assms(1) unfolding answers_def by metis
  ultimately show ?thesis
    using assms by (auto simp: forgotten_def answers_def)
qed

lemma settle_forgotten:
  assumes "settle g s = Some t" and "forgotten s h"
  shows "forgotten t h"
proof (rule settle_effect [OF assms(1)])
  fix w q r
  assume t: "writers s g = Some w" "phase w = Settling q r" "channels t = channels s"
    "writers t = (writers s)(g \<mapsto> w\<lparr>phase := Waiting\<rparr>)" "handles t = handles s"
    "pendingResponse t = Some q \<and> results t = results s \<or>
     pendingResponse t = pendingResponse s \<and> results t (fst q) \<noteq> None \<and>
       (\<forall>k. k \<noteq> fst q \<longrightarrow> results t k = results s k)"
  have "q \<in> held s g"
    using t(1,2) by (simp add: held_def)
  then have q: "in_view s (fst q)"
    by (rule in_viewI)
  have sub: "held t k \<subseteq> held s k" for k
    using t(1-4) by (auto simp: held_def split: option.splits if_splits)
  have "in_view s h" if view: "in_view t h"
  proof -
    obtain p where p: "fst p = h" "(\<exists>k. p \<in> held t k) \<or> pendingResponse t = Some p"
      using view unfolding in_view_def by blast
    then have "(\<exists>k. p \<in> held s k) \<or> pendingResponse s = Some p \<or> p = q"
      using sub t(6) by (metis option.inject subsetD)
    then show ?thesis
      using p(1) q in_viewI(1) [of p s] in_viewI(2) [of s p] by blast
  qed
  moreover have "h \<noteq> fst q"
    using assms(2) q by (auto simp: forgotten_def)
  ultimately show ?thesis
    using assms(2) t(5,6) by (auto simp: forgotten_def)
qed

lemma act_keeps_forgotten:
  assumes "queue_inv s" and "act scaled a s = Some t" and "forgotten s h"
  shows "forgotten t h"
proof (cases a)
  case (ConnectOpened c)
  then show ?thesis
    using assms(2,3) connection_view(1) [OF assms(1)]
    by (auto simp: forgotten_def connect_opened_def session_frame split: if_splits)
next
  case (Send c)
  then have t: "t = snd (send c s)"
    using assms(2) by simp
  show ?thesis
  proof (rule forgotten_shrinks [OF assms(3)])
    show "in_view s (fst q) \<or> handles s \<le> fst q" if "q \<in> held t g" for g q
      using that held_send(1) [of c s g] in_viewI(1) [of q s g] t by auto
  qed (use assms(3) held_send(3-5) t in \<open>auto simp: forgotten_def\<close>)
next
  case (TakeCommand g)
  then have t: "take_command g s = Some t"
    using assms(2) by simp
  then show ?thesis
    using forgotten_shrinks [OF assms(3), of t] held_taken [OF t] take_command_frame [OF t] in_viewI(1)
    by simp
next
  case (Settle g)
  then show ?thesis
    using assms settle_forgotten by simp
next
  case (ResponseTimeout i)
  then show ?thesis
    using assms(2,3) answers_operations(1) answers_forgotten by (metis act.simps(8))
next
  case (ReadData g data)
  then show ?thesis
    using assms(2,3) answers_operations(2) answers_forgotten by (metis act.simps(10))
next
  case ReconnectOpened
  then show ?thesis
    using assms(2,3) connection_view(2) [OF assms(1), of t h]
    by (auto simp: forgotten_def reconnect_opened_def session_frame session_defs
        split: option.splits reconnect_phase.splits)
next
  case (WriterEnds g)
  then have t: "writer_ends g s = Some t"
    using assms(2) by simp
  then show ?thesis
    using in_viewI(1) [OF subsetD [OF held_ended(1) [OF t]]]
    by (intro forgotten_shrinks [OF assms(3)]) (auto simp: writer_ends_def split: option.splits if_splits)
next
  case Disconnect
  then have t: "t = disconnect s"
    using assms(2) by simp
  then show ?thesis
    using in_viewI(1) [OF subsetD [OF held_ended(2)]]
    by (intro forgotten_shrinks [OF assms(3)]) (auto simp: disconnect_def session_frame session_defs)
qed (use assms(3) act_calm [OF _ assms(2)] same_view_forgotten in auto)

text \<open>A result that is there stays.\<close>

lemma act_keeps_result:
  assumes "queue_inv s" and "act scaled a s = Some t" and "results s h = Some r"
  shows "results t h = Some r"
proof (cases a)
  case (Send c)
  have "h \<noteq> handles s"
    using queue_invD(8) [OF assms(1), of h] assms(3) by auto
  then show ?thesis
    using Send assms(2,3) held_send(5) [of h s c] by simp
next
  case (TakeCommand g)
  then show ?thesis
    using assms(2,3) take_command_frame [of g s t] by simp
next
  case (Settle g)
  then show ?thesis
    using assms(2,3) by (auto simp: settle_def session_defs await_response_def session_frame
        results_complete split: option.splits writer_phase.splits if_splits)
next
  case (ResponseTimeout i)
  then show ?thesis
    using assms(2,3) by (auto simp: response_timeout_def session_defs results_complete
        split: prod.splits if_splits)
next
  case (ReadData g data)
  then show ?thesis
    using assms(2,3) by (auto simp: read_data_def session_defs results_complete
        split: option.splits if_splits)
qed (insert assms(2,3) act_calm [OF _ assms(2)], auto simp: same_view_def connect_opened_def
    reconnect_opened_def writer_ends_def disconnect_def session_frame session_defs
    split: option.splits reconnect_phase.splits if_splits)

lemma runs_from_reachable:
  assumes "session_runs scaled anything s as t" and "queue_inv s"
  shows "queue_inv t"
  using queues.runs_keep assms by blast

lemma view_kept:
  "session_runs scaled (\<lambda>s a. \<not> forgetful s a) s as t \<Longrightarrow> queue_inv s \<Longrightarrow>
    in_view s h \<or> results s h \<noteq> None \<Longrightarrow> in_view t h \<or> results t h \<noteq> None"
proof (induction rule: session_runs.induct)
  case (go s a t as u)
  then show ?case
    using queue_inv_act [of s scaled a t] act_keeps_view [of s scaled a t h]
      act_keeps_result [of s scaled a t h] by blast
qed simp

lemma forgotten_kept:
  "session_runs scaled anything s as t \<Longrightarrow> queue_inv s \<Longrightarrow> forgotten s h \<Longrightarrow> forgotten t h"
proof (induction rule: session_runs.induct)
  case (go s a t as u)
  then show ?case
    using queue_inv_act [of s scaled a t] act_keeps_forgotten [of s scaled a t h] by blast
qed simp


text \<open>
  C36. A handle that was lost stays lost: when no coroutine has a command in view and its handle has no
  result, whatever happens afterwards gives it none, and who waits for it waits for ever.
\<close>

theorem lost_for_ever:
  assumes "session_runs scaled anything new_session as s" and "h < handles s"
    and "results s h = None" and "\<not> in_view s h" and "session_runs scaled anything s bs t"
  shows "results t h = None"
  using forgotten_kept [OF assms(5) queues.always [OF assms(1)], of h] assms(2-4)
  by (simp add: forgotten_def)

text \<open>
  Two requests of which the second begins to await its response while the first one does: the first
  handle is lost, and even its own timeout does not complete it.
\<close>

theorem lost_for_ever_witness:
  "\<exists>s t. session_runs exact_scaled anything new_session two_requests s \<and> results s 0 = None \<and>
     session_runs exact_scaled anything s [ResponseTimeout 0] t \<and> results t 0 = None"
proof -
  obtain s t where s: "session_runs exact_scaled anything new_session two_requests s"
      "0 < handles s" "results s 0 = None" "\<not> in_view s 0"
      "session_runs exact_scaled anything s [ResponseTimeout 0] t"
    by (fastforce simp: evaluation in_view_def held_def response_timeout_def split: if_splits)
  then show ?thesis
    using lost_for_ever [of exact_scaled two_requests s 0 "[ResponseTimeout 0]" t] by blast
qed


end
