(* ===== verification/Session_Workers.thy ===== *)
theory Session_Workers
  imports Session_Handles
begin

text \<open>
  The workers of a session: a connected session has them, as long as no connection overtakes a
  reconnection; a session that was disconnected connects itself again; and how often a command is
  written.
\<close>

section \<open>Workers\<close>

text \<open>Runs in which no \<open>connect\<close> comes to its end while a reconnection is under way.\<close>

definition orderly :: "session \<Rightarrow> session_action \<Rightarrow> bool" where
  "orderly s a \<longleftrightarrow> (\<exists>c. a = ConnectOpened c) \<longrightarrow> \<not> reconnecting s"

definition working :: "session \<Rightarrow> bool" where
  "working s \<longleftrightarrow> reader s = Some (commands s) \<and> writer s = Some (commands s) \<and>
     readers s (commands s) = Some False \<and>
     map_option writer_cancelled (writers s (commands s)) = Some False \<and>
     \<not> channel_closed (channels s (commands s))"

definition workers_inv :: "session \<Rightarrow> bool" where
  "workers_inv s \<longleftrightarrow> (reconnect_job s \<noteq> None \<longrightarrow> reconnecting s) \<and>
     (reconnecting s \<longrightarrow> \<not> is_Connected (session_state s)) \<and>
     (\<not> terminal s \<longrightarrow> scope_active s \<and> close_job s = NotClosing) \<and>
     (\<not> terminal s \<longrightarrow> is_Connected (session_state s) \<longrightarrow> working s)"

lemma workers_inv_fail:
  "workers_inv s \<Longrightarrow> workers_inv (fail e s)"
  by (auto simp: workers_inv_def fail_def session_defs split: option.split)

text \<open>An operation that leaves the current workers as they are.\<close>

lemma workers_inv_same:
  assumes "workers_inv s" and "reconnect_job t = reconnect_job s" and "reconnecting t = reconnecting s"
    and "session_state t = session_state s" and "terminal t = terminal s"
    and "scope_active t = scope_active s" and "close_job t = close_job s"
    and "commands t = commands s" and "reader t = reader s"
    and "writer t = writer s" and "readers t (commands s) = readers s (commands s)"
    and "map_option writer_cancelled (writers t (commands s)) =
      map_option writer_cancelled (writers s (commands s))"
    and "channel_closed (channels t (commands s)) = channel_closed (channels s (commands s))"
  shows "workers_inv t"
  using assms by (simp add: workers_inv_def working_def)

lemma workers_inv_connected:
  "workers_inv s \<Longrightarrow> workers_inv (leave_reconnect (emit_event e (connected c s)))"
  "workers_inv s \<Longrightarrow> \<not> reconnecting s \<Longrightarrow> workers_inv (connected c s)"
  by (auto simp: workers_inv_def working_def session_frame new_channel_def leave_reconnect_def
      emit_event_def)

lemma enqueue_workers:
  assumes "enqueue q s = Some t" and "workers_inv s"
  shows "workers_inv t"
  using assms(1) by (auto simp: enqueue_def trySend_def session_defs split: option.splits if_splits
      intro!: workers_inv_same [OF assms(2)])

lemma workers_inv_send:
  assumes "workers_inv s"
  shows "workers_inv (snd (send c s))"
proof -
  have h: "workers_inv (x\<lparr>handles := n\<rparr>)" if "workers_inv x" for x n
    by (rule workers_inv_same [OF that]) simp_all
  have r: "workers_inv (complete_handle k r x)" if "workers_inv x" for x k r
    by (rule workers_inv_same [OF that]) (simp_all add: session_frame)
  have d: "workers_inv (drop_command s)"
    by (rule workers_inv_same [OF assms])
      (auto simp: session_frame drop_command_def tryReceive_def session_defs)
  show ?thesis
    by (cases rule: sending_cases [of c s])
      (use h [OF assms] h [OF d] r enqueue_workers in auto)
qed

lemma workers_inv_settle:
  assumes "workers_inv s" and "settle g s = Some t"
  shows "workers_inv t"
proof -
  obtain w q r where w: "writers s g = Some w" "phase w = Settling q r"
    using assms(2) by (auto simp: settle_def split: option.splits writer_phase.splits)
  have "workers_inv (report d c r s)" for d c
    using workers_inv_fail [OF assms(1)]
    by (cases r) (auto simp: report_def emit_event_def intro!: workers_inv_same [OF assms(1)])
  then have reported: "workers_inv (report (timeout_of (active_config w) (snd q)) (snd q) r s)" .
  show ?thesis
    using assms(2) w
    by (auto simp: settle_def session_defs await_response_def session_frame
        intro!: workers_inv_same [OF reported] split: if_splits)
qed

text \<open>What the coroutines of a connection do.\<close>

lemma workers_inv_coroutines:
  assumes "workers_inv s"
  shows "take_command g s = Some t \<Longrightarrow> workers_inv t"
    and "write_taken g outcomes s = Some t \<Longrightarrow> workers_inv t"
    and "response_timeout i s = Some t \<Longrightarrow> workers_inv t"
    and "writer_ends g s = Some t \<Longrightarrow> workers_inv t"
    and "read_data g data s = Some t \<Longrightarrow> workers_inv t"
    and "read_fails g e s = Some t \<Longrightarrow> workers_inv t"
    and "reader_ends g s = Some t \<Longrightarrow> workers_inv t"
proof -
  note same = workers_inv_same [OF assms]
  show "take_command g s = Some t \<Longrightarrow> workers_inv t" "write_taken g outcomes s = Some t \<Longrightarrow> workers_inv t"
    by (auto simp: take_command_def write_taken_def session_defs intro!: same
        split: option.splits list.splits writer_phase.splits if_splits)
  show "response_timeout i s = Some t \<Longrightarrow> workers_inv t" "read_data g data s = Some t \<Longrightarrow> workers_inv t"
    by (auto simp: response_timeout_def read_data_def session_defs session_frame intro!: same
        split: option.splits prod.splits if_splits)
  show "writer_ends g s = Some t \<Longrightarrow> workers_inv t" "reader_ends g s = Some t \<Longrightarrow> workers_inv t"
    using assms by (auto simp: writer_ends_def reader_ends_def workers_inv_def working_def
        split: option.splits if_splits)
  show "read_fails g e s = Some t \<Longrightarrow> workers_inv t"
    using workers_inv_fail [OF assms, of "ReadError (Some e)"]
    by (auto simp: read_fails_def workers_inv_def session_frame split: option.splits)
qed

text \<open>What opens and ends a connection.\<close>

lemma workers_inv_connection:
  assumes "workers_inv s"
  shows "workers_inv (snd (connect c s))"
    and "\<not> reconnecting s \<Longrightarrow> workers_inv (connect_opened c s)"
    and "workers_inv (connect_failed c e s)" and "workers_inv (disconnect s)"
    and "reconnect_opened s = Some t \<Longrightarrow> workers_inv t"
proof -
  have s: "workers_inv (s\<lparr>opens := remove1 c (opens s)\<rparr>)"
      "workers_inv (s\<lparr>opens := remove1 c (opens s), current_config := Some c\<rparr>)"
    by (rule workers_inv_same [OF assms]; simp)+
  show "\<not> reconnecting s \<Longrightarrow> workers_inv (connect_opened c s)" "workers_inv (connect_failed c e s)"
    using workers_inv_connected(2) [OF s(2)] workers_inv_fail [OF s(1)]
    by (simp_all add: connect_opened_def connect_failed_def)
  show "reconnect_opened s = Some t \<Longrightarrow> workers_inv t"
    using workers_inv_connected(1) [OF assms]
    by (auto simp: reconnect_opened_def split: option.splits reconnect_phase.splits)
  show "workers_inv (snd (connect c s))" "workers_inv (disconnect s)"
    using assms by (auto simp: connect_def disconnect_def workers_inv_def session_frame session_defs)
qed

lemma workers_inv_act:
  assumes "workers_inv s" and "orderly s a" and "act scaled a s = Some t"
  shows "workers_inv t"
proof (cases "a \<in> {Disconnected, Close, CloseRuns, CloseFinishes, ReconnectRuns, ReconnectClosed,
    ReconnectWakes, ReconnectEnds} \<or> (\<exists>e. a = ReconnectFails e)")
  case True
  then show ?thesis
    using assms(1,3) by (auto simp: workers_inv_def disconnected_def session_close_def close_runs_def
      close_finishes_def close_channel_def reconnect_runs_def reconnect_closed_def reconnect_wakes_def
      reconnect_fails_def reconnect_ends_def next_attempt_def session_frame session_defs
      split: option.splits reconnect_phase.splits sum.splits if_splits)
next
  case False
  then show ?thesis
    using assms(2,3) workers_inv_coroutines [OF assms(1)] workers_inv_connection [OF assms(1)]
      workers_inv_send [OF assms(1)] workers_inv_settle [OF assms(1)]
    by (cases a) (auto simp: orderly_def split: if_splits)
qed

interpretation workers: session_invariant scaled orderly workers_inv for scaled
proof
  show "workers_inv new_session"
    by (simp add: workers_inv_def new_session_def)
qed (rule workers_inv_act)

lemma sent_in_view:
  assumes "workers_inv s"
  shows "in_view (snd (send c s)) (handles s) \<or> results (snd (send c s)) (handles s) \<noteq> None"
proof (cases "\<not> terminal s \<and> is_Connected (session_state s)")
  case False
  then show ?thesis
    by (auto simp: send_def Let_def results_complete complete_handle_def)
next
  case True
  then obtain w where w: "writers s (commands s) = Some w"
    using assms by (auto simp: workers_inv_def working_def)
  have queued: "in_view t (handles s)"
    if "enqueue (handles s, c) x = Some t" "writers x = writers s" "commands x = commands s" for x t
  proof -
    have "(handles s, c) \<in> held t (commands s)"
      using that w by (auto simp: enqueue_def trySend_def held_def session_defs split: option.splits if_splits)
    then show ?thesis
      using in_viewI(1) by fastforce
  qed
  have told: "results (complete_handle h r x) h \<noteq> None" for h r x
    by (simp add: complete_handle_def)
  show ?thesis
    by (cases rule: sending_cases [of c s]) (use told queued in \<open>auto simp: session_frame\<close>)
qed


section \<open>A disconnected session that connects itself\<close>

text \<open>
  C37. A session with reconnection connects itself again after it was disconnected: closing the
  transport makes the read that was under way throw, the cancelled reader reports that as a failure,
  and the reconnection opens the transport once more.
\<close>

theorem disconnected_session_reconnects:
  assumes "is_Connected (session_state s)" and "\<not> terminal s" and "scope_active s"
    and "\<not> reconnecting s" and "readers s g \<noteq> None" and "current_config s = Some c"
    and "reconnectEnabled (reconnect_policy c)" and "1 \<le> maxAttempts (reconnect_policy c)"
  shows "\<exists>t. session_runs scaled anything s
    [Disconnect, Disconnected, ReadFails g e, ReconnectRuns, ReconnectClosed, ReconnectWakes,
     ReconnectOpened] t \<and> session_state t = Connected c"
proof -
  let ?s1 = "disconnect s"
  let ?s2 = "enter Idle (?s1\<lparr>disconnects := disconnects s\<rparr>)"
  let ?s3 = "(fail (ReadError (Some e)) ?s2)\<lparr>readers := (readers ?s2)(g := None)\<rparr>"
  let ?s4 = "(cancel_workers ?s3)\<lparr>reconnect_job := Some (ReClosing c)\<rparr>"
  let ?s5 = "next_attempt scaled c 0 ?s4"
  let ?s6 = "(enter Connecting ?s5)\<lparr>reconnect_job := Some (ReOpening c 0)\<rparr>"
  let ?s7 = "leave_reconnect (emit_event ReconnectSucceeded (connected c ?s6))"
  have 1: "disconnects ?s1 = disconnects s + 1" "readers ?s1 g \<noteq> None" "terminal ?s1 = False"
      "scope_active ?s1" "current_config ?s1 = Some c" "reconnecting ?s1 = False"
    using assms by (simp_all add: disconnect_def session_frame session_defs readers_cancel_workers)
  have 2: "disconnected ?s1 = Some ?s2"
    using 1 by (simp add: disconnected_def)
  have 3: "read_fails g e ?s2 = Some ?s3"
    using 1 by (auto simp: read_fails_def session_defs)
  have "reconnect_job ?s3 = Some (Launched c)" "terminal ?s3 = False"
    using 1 assms(7) by (simp_all add: fail_def session_defs)
  then have 4: "reconnect_runs ?s3 = Some ?s4" "terminal ?s4 = False"
    by (simp_all add: reconnect_runs_def session_frame)
  then have 5: "reconnect_closed scaled ?s4 = Some ?s5" "\<exists>n. reconnect_job ?s5 = Some (ReDelay c 0)"
    using assms(8) by (simp_all add: reconnect_closed_def next_attempt_def delayFor_def session_defs)
  then have 6: "reconnect_wakes ?s5 = Some ?s6" "reconnect_opened ?s6 = Some ?s7"
    by (simp_all add: reconnect_wakes_def reconnect_opened_def)
  have "session_runs scaled anything s [Disconnect, Disconnected, ReadFails g e, ReconnectRuns,
      ReconnectClosed, ReconnectWakes, ReconnectOpened] ?s7"
    by (simp only: session_runs_Cons session_runs_Nil act.simps 2 3 4 5 6 option.inject simp_thms ex_simps)
  moreover have "session_state ?s7 = Connected c"
    by (simp add: session_frame session_defs)
  ultimately show ?thesis
    by blast
qed

section \<open>Writing\<close>

fun wrote :: "write_outcome \<Rightarrow> bool" where
  "wrote (Wrote n) = True"
| "wrote _ = False"

lemma fold_attempts:
  "snd (fold (attempt_write d outs) [0..<n] (Failed x, 0)) =
     (if \<exists>i<n. wrote (outs i) then (LEAST i. wrote (outs i)) + 1 else n) \<and>
   (is_Sent (fst (fold (attempt_write d outs) [0..<n] (Failed x, 0))) \<longleftrightarrow> (\<exists>i<n. wrote (outs i)))"
proof (induction n)
  case (Suc n)
  let ?p = "fold (attempt_write d outs) [0..<n] (Failed x, 0)"
  show ?case
  proof (cases "\<exists>i<n. wrote (outs i)")
    case True
    then obtain m where p: "?p = (Sent m, (LEAST i. wrote (outs i)) + 1)"
      using Suc by (cases ?p; cases "fst ?p") auto
    then have "fold (attempt_write d outs) [0..<Suc n] (Failed x, 0) = ?p"
      by (simp add: attempt_write_def)
    then show ?thesis
      using True p by (auto intro: less_SucI)
  next
    case False
    then have p: "snd ?p = n" "\<not> is_Sent (fst ?p)"
      using Suc by auto
    then have "attempt_write d outs n ?p = ((case outs n of Wrote m \<Rightarrow> Sent m | WriteTimedOut \<Rightarrow> TimedOut d
        | WriteThrew e \<Rightarrow> Failed (WriteError (Some e))), n + 1)"
      by (cases ?p; cases "fst ?p") (simp_all add: attempt_write_def)
    moreover have "(LEAST i. wrote (outs i)) = n" if "wrote (outs n)"
      using that False by (intro Least_equality) (auto simp: not_less[symmetric])
    moreover have "(\<exists>i<Suc n. wrote (outs i)) \<longleftrightarrow> wrote (outs n)"
      using False by (auto simp: less_Suc_eq)
    ultimately show ?thesis
      by (cases "outs n") auto
  qed
qed simp

text \<open>
  A command is written until a write gives a number, and at most \<open>maxRetries + 1\<close> times, where the sum
  wraps at 32 bits: with the largest number of retries it is not written at all.
\<close>

theorem writes_bounded:
  "snd (write_command d c outs) =
     (if \<exists>i < nat (i32 (maxRetries c + 1)). wrote (outs i) then (LEAST i. wrote (outs i)) + 1
      else nat (i32 (maxRetries c + 1))) \<and>
   (is_Sent (fst (write_command d c outs)) \<longleftrightarrow> (\<exists>i < nat (i32 (maxRetries c + 1)). wrote (outs i)))"
  unfolding write_command_def by (rule fold_attempts)

lemma largest_retries_write_nothing:
  "maxRetries c = 2 ^ 31 - 1 \<Longrightarrow> write_command d c outs = (Failed (WriteError None), 0)"
  by (simp add: write_command_def i32_def)

section \<open>Examples\<close>

lemma opened_run:
  "\<exists>s. session_runs exact_scaled anything new_session opened_session s \<and>
     session_runs exact_scaled orderly new_session opened_session s \<and>
     session_state s = Connected (sample_config ReadWrite) \<and> \<not> terminal s \<and> scope_active s \<and>
     \<not> reconnecting s \<and> readers s 1 \<noteq> None \<and> current_config s = Some (sample_config ReadWrite)"
  by (auto simp: evaluation orderly_def)


theorem disconnected_session_reconnects_witness:
  "\<exists>s t. session_runs exact_scaled anything new_session opened_session s \<and>
     session_runs exact_scaled anything s
       [Disconnect, Disconnected, ReadFails 1 (OtherThrowable ''closed''), ReconnectRuns,
        ReconnectClosed, ReconnectWakes, ReconnectOpened] t \<and>
     session_state t = Connected (sample_config ReadWrite)"
proof -
  obtain s where s: "session_runs exact_scaled anything new_session opened_session s"
      "session_state s = Connected (sample_config ReadWrite)" "\<not> terminal s" "scope_active s"
      "\<not> reconnecting s" "readers s 1 \<noteq> None" "current_config s = Some (sample_config ReadWrite)"
    using opened_run by blast
  then show ?thesis
    using disconnected_session_reconnects [of s 1 "sample_config ReadWrite" exact_scaled
        "OtherThrowable ''closed''"] by auto
qed

text \<open>
  A connection that overtakes a reconnection: the reconnection cancels the new workers, makes no
  attempt, and leaves the session connected with workers that are cancelled.
\<close>

definition no_attempts :: SerialConfig where
  "no_attempts = (sample_config ReadWrite)\<lparr>reconnect_policy := \<lparr>reconnectEnabled = True, maxAttempts = 0,
     initialDelay = 0, maxDelay = 0, multiplier = 1\<rparr>\<rparr>"

lemma overtaken_reconnection:
  "\<exists>s. session_runs exact_scaled anything new_session
     [Connect no_attempts, ConnectOpened no_attempts, ReadFails 1 (OtherThrowable ''x''),
      Connect no_attempts, ConnectOpened no_attempts, ReconnectRuns, ReconnectClosed] s \<and>
     is_Connected (session_state s) \<and> \<not> terminal s \<and> \<not> reconnecting s \<and> \<not> working s"
  by (auto simp: evaluation read_fails_def fail_def reconnect_runs_def cancel_workers_def
      reconnect_closed_def next_attempt_def working_def no_attempts_def)

text \<open>A response that is read before the writer has noted what it is for.\<close>

lemma early_response_missed:
  "\<exists>s. session_runs exact_scaled anything new_session
     (opened_session @ [Send example_command, TakeCommand 1, WriteCommand 1 (\<lambda>_. Wrote 1),
        ReadData 1 [1], Settle 1]) s \<and>
     results s 0 = None \<and> pendingResponse s = Some (0, example_command)"
  by (auto simp: evaluation read_data_def)

end
