(* ===== verification/Serial_Proxy.thy ===== *)
theory Serial_Proxy
  imports Session_Handles
begin

text \<open>
  The proxy (\<open>SerialProxy.kt\<close>): a server that accepts TCP clients, gives what they send to a session
  as commands and sends them what the session receives. The state is that of the session and of the
  coroutines of the proxy, an operation a function for each stretch between two waits, and a run does
  them in any order, among the actions of the session.

  To wait in \<open>accept\<close>, \<open>read\<close> and \<open>write\<close> of a socket is to block: a coroutine that is cancelled there
  does not notice it. One that is cancelled before it first runs never runs. A coroutine that fails
  cancels the one that launched it, and with it all the others this one has launched. What the system
  answers is given with each action: a server socket cannot be bound to a port that one is bound to.
\<close>

section \<open>State\<close>

datatype SerialProxyState = ProxyStopped | ProxyRunning int | ProxyFailed throwable

record ProxyConfig =
  host :: string
  proxy_port :: int

definition default_proxy_config :: ProxyConfig where
  "default_proxy_config = \<lparr>host = ''127.0.0.1'', proxy_port = 30001\<rparr>"

text \<open>The coroutine of the server: launched, in its loop with the socket bound to a port, or past it.\<close>

datatype server_phase = ServerLaunched ProxyConfig | Accepting int | LoopOver

record server_job =
  sv_phase :: server_phase
  sv_cancelled :: bool

text \<open>The coroutine of a client, and the one it launches to forward what the session receives.\<close>

datatype pump_phase = PumpLaunched | Pumping | PumpOver
datatype forward_phase = NotForwarding | ForwardLaunched | Collecting | ForwardOver

text \<open>
  Beside the phases: the bytes read from the socket and the commands made of them, with the handles
  nobody keeps; the bytes written, and the events of the session the collector has seen.
\<close>

record proxy_client =
  of_server :: nat
  pump :: pump_phase
  forward :: forward_phase
  socket_closed :: bool
  client_read :: "byte list"
  client_sends :: "QueuedCommand list"
  client_written :: "byte list"
  sub_from :: nat
  sub_upto :: nat

record proxy =
  proxy_state :: SerialProxyState
  proxy_job :: "nat option"
  servers :: "nat \<Rightarrow> server_job option"
  server_count :: nat
  clients :: "nat \<Rightarrow> proxy_client option"
  client_count :: nat
  px_session :: session

definition new_proxy :: "session \<Rightarrow> proxy" where
  "new_proxy s = \<lparr>proxy_state = ProxyStopped, proxy_job = None, servers = (\<lambda>_. None), server_count = 0,
     clients = (\<lambda>_. None), client_count = 0, px_session = s\<rparr>"

definition put_server :: "nat \<Rightarrow> server_job \<Rightarrow> proxy \<Rightarrow> proxy" where
  "put_server j v s = s\<lparr>servers := (servers s)(j \<mapsto> v)\<rparr>"

definition put_client :: "nat \<Rightarrow> proxy_client \<Rightarrow> proxy \<Rightarrow> proxy" where
  "put_client k c s = s\<lparr>clients := (clients s)(k \<mapsto> c)\<rparr>"

definition server_gone :: "nat \<Rightarrow> proxy \<Rightarrow> bool" where
  "server_gone j s = (case servers s j of None \<Rightarrow> True | Some v \<Rightarrow> sv_cancelled v)"

definition cancel_server :: "nat \<Rightarrow> proxy \<Rightarrow> proxy" where
  "cancel_server j s =
     (case servers s j of None \<Rightarrow> s | Some v \<Rightarrow> put_server j (v\<lparr>sv_cancelled := True\<rparr>) s)"

text \<open>\<open>isActive\<close>: not cancelled, and running or waiting for a coroutine it has launched.\<close>

definition client_active :: "proxy_client \<Rightarrow> bool" where
  "client_active c \<longleftrightarrow> pump c \<noteq> PumpOver \<or> forward c = ForwardLaunched \<or> forward c = Collecting"

definition job_active :: "nat \<Rightarrow> proxy \<Rightarrow> bool" where
  "job_active j s =
     (case servers s j of
        None \<Rightarrow> False
      | Some v \<Rightarrow>
          \<not> sv_cancelled v \<and>
          (sv_phase v \<noteq> LoopOver \<or>
           list_ex (\<lambda>k. case clients s k of None \<Rightarrow> False
             | Some c \<Rightarrow> of_server c = j \<and> client_active c) [0..<client_count s]))"

section \<open>The server\<close>

definition proxy_start :: "ProxyConfig \<Rightarrow> proxy \<Rightarrow> proxy" where
  "proxy_start config s =
     (if (case proxy_job s of None \<Rightarrow> False | Some j \<Rightarrow> job_active j s) then s
      else (let j = server_count s
            in put_server j \<lparr>sv_phase = ServerLaunched config, sv_cancelled = False\<rparr>
                 (s\<lparr>proxy_job := Some j, server_count := j + 1\<rparr>)))"

definition bound_ports :: "proxy \<Rightarrow> int list" where
  "bound_ports s = concat (map (\<lambda>j. case servers s j of
       Some v \<Rightarrow> (case sv_phase v of Accepting p \<Rightarrow> [p] | _ \<Rightarrow> []) | None \<Rightarrow> []) [0..<server_count s])"

text \<open>
  The constructor of \<open>ServerSocket\<close> throws or gives a socket with a local port, which is the one asked
  for unless this is zero.
\<close>

definition server_runs :: "nat \<Rightarrow> throwable + int \<Rightarrow> proxy \<Rightarrow> proxy option" where
  "server_runs j answer s =
     (case servers s j of
        Some v \<Rightarrow>
          (case sv_phase v of
             ServerLaunched config \<Rightarrow>
               if sv_cancelled v then Some (put_server j (v\<lparr>sv_phase := LoopOver\<rparr>) s)
               else
                 (case answer of
                    Inl e \<Rightarrow> Some (put_server j (v\<lparr>sv_phase := LoopOver\<rparr>) (s\<lparr>proxy_state := ProxyFailed e\<rparr>))
                  | Inr p \<Rightarrow>
                      if p \<in> set (bound_ports s) \<or> proxy_port config \<notin> {0, p} then None
                      else Some (put_server j (v\<lparr>sv_phase := Accepting p\<rparr>)
                        (s\<lparr>proxy_state := ProxyRunning p\<rparr>)))
           | _ \<Rightarrow> None)
      | None \<Rightarrow> None)"

text \<open>A coroutine launched by a cancelled one does not run, and the socket it was to close stays open.\<close>

definition server_accepts :: "nat \<Rightarrow> proxy \<Rightarrow> proxy option" where
  "server_accepts j s =
     (case servers s j of
        Some v \<Rightarrow>
          (case sv_phase v of
             Accepting p \<Rightarrow>
               (let k = client_count s
                in Some (put_client k
                     \<lparr>of_server = j, pump = (if sv_cancelled v then PumpOver else PumpLaunched),
                      forward = NotForwarding, socket_closed = False, client_read = [],
                      client_sends = [], client_written = [], sub_from = 0, sub_upto = 0\<rparr>
                     (s\<lparr>client_count := k + 1\<rparr>)))
           | _ \<Rightarrow> None)
      | None \<Rightarrow> None)"

text \<open>\<open>use\<close> closes the socket, and \<open>onFailure\<close> tells the state.\<close>

definition accept_fails :: "nat \<Rightarrow> throwable \<Rightarrow> proxy \<Rightarrow> proxy option" where
  "accept_fails j e s =
     (case servers s j of
        Some v \<Rightarrow>
          (case sv_phase v of
             Accepting p \<Rightarrow> Some (put_server j (v\<lparr>sv_phase := LoopOver\<rparr>) (s\<lparr>proxy_state := ProxyFailed e\<rparr>))
           | _ \<Rightarrow> None)
      | None \<Rightarrow> None)"

definition proxy_close :: "proxy \<Rightarrow> proxy" where
  "proxy_close s =
     (case proxy_job s of None \<Rightarrow> s | Some j \<Rightarrow> cancel_server j s)\<lparr>proxy_state := ProxyStopped\<rparr>"

section \<open>Clients\<close>

definition pump_runs :: "nat \<Rightarrow> proxy \<Rightarrow> proxy option" where
  "pump_runs k s =
     (case clients s k of
        Some c \<Rightarrow>
          if pump c = PumpLaunched
          then Some (put_client k (if server_gone (of_server c) s then c\<lparr>pump := PumpOver\<rparr>
                 else c\<lparr>pump := Pumping, forward := ForwardLaunched\<rparr>) s)
          else None
      | None \<Rightarrow> None)"

definition proxy_command :: "byte list \<Rightarrow> string \<Rightarrow> SerialCommand" where
  "proxy_command data ident = \<lparr>payload = data, timeout = None, delay = None, maxRetries = 0,
     retryDelay = 0, responseMatcher = None, responseTimeout = None, tag = None, command_id = ident\<rparr>"

text \<open>\<open>input.read (buffer)\<close> with a buffer of 4096 bytes gives at least one byte; then \<open>session.send\<close>.\<close>

definition pump_chunk :: "nat \<Rightarrow> byte list \<Rightarrow> string \<Rightarrow> proxy \<Rightarrow> proxy option" where
  "pump_chunk k data ident s =
     (case clients s k of
        Some c \<Rightarrow>
          if pump c = Pumping \<and> data \<noteq> [] \<and> length data \<le> 4096
          then (let command = proxy_command data ident; (h, sess) = send command (px_session s)
                in Some (put_client k (c\<lparr>client_read := client_read c @ data,
                       client_sends := client_sends c @ [(h, command)]\<rparr>)
                     (s\<lparr>px_session := sess\<rparr>)))
          else None
      | None \<Rightarrow> None)"

text \<open>At the end of the stream the loop is left: \<open>forward.cancel ()\<close>, and the socket is closed.\<close>

definition pump_ends :: "nat \<Rightarrow> proxy \<Rightarrow> proxy option" where
  "pump_ends k s =
     (case clients s k of
        Some c \<Rightarrow>
          if pump c = Pumping then Some (put_client k (c\<lparr>pump := PumpOver, socket_closed := True\<rparr>) s)
          else None
      | None \<Rightarrow> None)"

text \<open>A read that throws: the socket is closed, and the failure cancels the server.\<close>

definition pump_fails :: "nat \<Rightarrow> proxy \<Rightarrow> proxy option" where
  "pump_fails k s =
     (case clients s k of
        Some c \<Rightarrow>
          if pump c = Pumping
          then Some (cancel_server (of_server c)
            (put_client k (c\<lparr>pump := PumpOver, socket_closed := True\<rparr>) s))
          else None
      | None \<Rightarrow> None)"

section \<open>Forwarding\<close>

text \<open>Cancelled by its client, which is over, or with the server.\<close>

definition forward_cancelled :: "proxy_client \<Rightarrow> proxy \<Rightarrow> bool" where
  "forward_cancelled c s \<longleftrightarrow> pump c = PumpOver \<or> server_gone (of_server c) s"

text \<open>A subscriber sees the events from its subscription on.\<close>

definition forward_runs :: "nat \<Rightarrow> proxy \<Rightarrow> proxy option" where
  "forward_runs k s =
     (case clients s k of
        Some c \<Rightarrow>
          if forward c = ForwardLaunched
          then Some (put_client k
            (if forward_cancelled c s then c\<lparr>forward := ForwardOver\<rparr>
             else (let n = length (event_log (px_session s))
                   in c\<lparr>forward := Collecting, sub_from := n, sub_upto := n\<rparr>)) s)
          else None
      | None \<Rightarrow> None)"

fun event_data :: "SerialEvent \<Rightarrow> byte list" where
  "event_data (DataReceived d) = d"
| "event_data _ = []"

text \<open>
  The next event: data is written to the socket. The action of \<open>collectLatest\<close> runs to its end before
  the next event is looked at, because it nowhere waits, so that none is cancelled half-way.
\<close>

definition forward_event :: "nat \<Rightarrow> proxy \<Rightarrow> proxy option" where
  "forward_event k s =
     (case clients s k of
        Some c \<Rightarrow>
          if forward c = Collecting \<and> sub_upto c < length (event_log (px_session s))
          then Some (put_client k (c\<lparr>sub_upto := sub_upto c + 1,
                 client_written := client_written c @ event_data (event_log (px_session s) ! sub_upto c)\<rparr>) s)
          else None
      | None \<Rightarrow> None)"

definition forward_ends :: "nat \<Rightarrow> proxy \<Rightarrow> proxy option" where
  "forward_ends k s =
     (case clients s k of
        Some c \<Rightarrow>
          if forward c = Collecting \<and> forward_cancelled c s
          then Some (put_client k (c\<lparr>forward := ForwardOver\<rparr>) s) else None
      | None \<Rightarrow> None)"

text \<open>A write that throws cancels the client, which does not notice it in \<open>read\<close>, and the server.\<close>

definition forward_fails :: "nat \<Rightarrow> proxy \<Rightarrow> proxy option" where
  "forward_fails k s =
     (case clients s k of
        Some c \<Rightarrow>
          if forward c = Collecting
          then Some (cancel_server (of_server c) (put_client k (c\<lparr>forward := ForwardOver\<rparr>) s)) else None
      | None \<Rightarrow> None)"

section \<open>Runs\<close>

datatype proxy_action =
    ProxyStart ProxyConfig
  | ServerRuns nat "throwable + int"
  | ServerAccepts nat
  | AcceptFails nat throwable
  | ProxyClose
  | PumpRuns nat
  | PumpChunk nat "byte list" string
  | PumpEnds nat
  | PumpFails nat
  | ForwardRuns nat
  | ForwardEvent nat
  | ForwardEnds nat
  | ForwardFails nat
  | SessionActs session_action

fun proxy_act ::
  "(int \<Rightarrow> real \<Rightarrow> int \<Rightarrow> int) \<Rightarrow> proxy_action \<Rightarrow> proxy \<Rightarrow> proxy option" where
  "proxy_act scaled (ProxyStart config) s = Some (proxy_start config s)"
| "proxy_act scaled (ServerRuns j answer) s = server_runs j answer s"
| "proxy_act scaled (ServerAccepts j) s = server_accepts j s"
| "proxy_act scaled (AcceptFails j e) s = accept_fails j e s"
| "proxy_act scaled ProxyClose s = Some (proxy_close s)"
| "proxy_act scaled (PumpRuns k) s = pump_runs k s"
| "proxy_act scaled (PumpChunk k data ident) s = pump_chunk k data ident s"
| "proxy_act scaled (PumpEnds k) s = pump_ends k s"
| "proxy_act scaled (PumpFails k) s = pump_fails k s"
| "proxy_act scaled (ForwardRuns k) s = forward_runs k s"
| "proxy_act scaled (ForwardEvent k) s = forward_event k s"
| "proxy_act scaled (ForwardEnds k) s = forward_ends k s"
| "proxy_act scaled (ForwardFails k) s = forward_fails k s"
| "proxy_act scaled (SessionActs a) s =
     map_option (\<lambda>t. s\<lparr>px_session := t\<rparr>) (act scaled a (px_session s))"

inductive proxy_runs ::
  "(int \<Rightarrow> real \<Rightarrow> int \<Rightarrow> int) \<Rightarrow> proxy \<Rightarrow> proxy_action list \<Rightarrow> proxy \<Rightarrow> bool" for scaled where
  proxy_stop: "proxy_runs scaled s [] s"
| proxy_go: "proxy_act scaled a s = Some t \<Longrightarrow> proxy_runs scaled t as u \<Longrightarrow>
    proxy_runs scaled s (a # as) u"

inductive_simps proxy_runs_Nil [simp]: "proxy_runs scaled s [] t"
inductive_simps proxy_runs_Cons: "proxy_runs scaled s (a # as) t"

lemmas proxy_defs = put_server_def put_client_def proxy_start_def server_runs_def server_accepts_def
  accept_fails_def proxy_close_def cancel_server_def pump_runs_def pump_chunk_def pump_ends_def
  pump_fails_def forward_runs_def forward_event_def forward_ends_def forward_fails_def Let_def

lemmas proxy_splits = option.splits sum.splits server_phase.splits prod.splits if_splits

section \<open>What a session never takes back\<close>

definition session_grows :: "session \<Rightarrow> session \<Rightarrow> bool" where
  "session_grows s t \<longleftrightarrow>
     prefix (event_log s) (event_log t) \<and> handles s \<le> handles t \<and>
     (\<forall>h. results s h \<noteq> None \<longrightarrow> results t h \<noteq> None) \<and>
     (\<forall>g. \<exists>qs. channel_accepted t g = channel_accepted s g @ qs \<and> (\<forall>q\<in>set qs. handles s \<le> fst q) \<and>
       sorted_wrt (<) (map fst qs))"

lemma session_grows_refl [simp]: "session_grows s s"
  by (simp add: session_grows_def)

lemma log_fail: "prefix (event_log s) (event_log (fail e s))"
  by (auto simp: fail_def session_defs split: option.split)

lemma log_same [simp]:
  "event_log (complete_handle h r s) = event_log s" "event_log (cancel_workers s) = event_log s"
  "event_log (drop_command s) = event_log s"
  by (auto simp: complete_handle_def cancel_workers_def drop_command_def tryReceive_def session_defs
      split: option.split)

lemma log_operations:
  "prefix (event_log s) (event_log (report d x r s))"
  "prefix (event_log s) (event_log (connected y s))"
  "prefix (event_log s) (event_log (next_attempt f y n s))"
  using log_fail [of s]
  by (auto simp: report_def connected_def next_attempt_def session_defs
      split: option.split CommandResult.split sum.split)

lemma log_enqueue: "enqueue q s = Some t \<Longrightarrow> event_log t = event_log s"
  by (auto simp: enqueue_def session_defs split: option.splits)

lemma enqueue_accepts:
  "enqueue q s = Some t \<Longrightarrow> channel_accepted t =
    (channel_accepted s)(commands s := channel_accepted s (commands s) @ [q])"
  by (auto simp: enqueue_def session_defs split: option.splits)

lemma log_send: "event_log (snd (send c s)) = event_log s"
  by (cases rule: sending_cases [of c s]) (auto dest: log_enqueue)

lemma act_log:
  assumes "act scaled a s = Some t"
  shows "prefix (event_log s) (event_log t)"
proof -
  note ops = log_fail [of "s\<lparr>opens := x\<rparr>" for x] log_fail [of s] log_operations [of s]
    log_operations [of "s\<lparr>opens := x, current_config := y\<rparr>" for x y]
  show ?thesis
  proof (cases a)
    case (Send c)
    then show ?thesis
      using assms log_send [of c s] by simp
  next
    case (Settle g)
    then show ?thesis
      using assms log_operations(1) [of s]
      by (auto simp: settle_def await_response_def session_defs
          split: option.splits writer_phase.splits if_splits)
  next
    case (ReconnectFails e)
    then obtain y n where "t = next_attempt scaled y n (emit_event (ErrorRaised (OpenFailed (Some e))) s)"
      using assms by (auto simp: reconnect_fails_def split: option.splits reconnect_phase.splits)
    then show ?thesis
      using log_operations(3) [of "emit_event (ErrorRaised (OpenFailed (Some e))) s"]
      by (auto simp: emit_event_def dest: append_prefixD)
  qed (use assms ops in \<open>auto simp: connect_def connect_opened_def connect_failed_def
      take_command_def write_taken_def response_timeout_def writer_ends_def read_data_def
      read_fails_def reader_ends_def disconnect_def disconnected_def session_close_def close_runs_def
      close_channel_def close_finishes_def reconnect_runs_def reconnect_closed_def reconnect_wakes_def
      reconnect_opened_def reconnect_ends_def session_defs
      split: option.splits list.splits writer_phase.splits reconnect_phase.splits prod.splits
        if_splits\<close>)
qed

text \<open>Only \<open>send\<close> gives a channel something, and that has the newest handle.\<close>

lemma act_accepts:
  assumes "act scaled a s = Some t"
  shows "channel_accepted t g = channel_accepted s g \<or>
    (\<exists>c. a = Send c \<and> channel_accepted t g = channel_accepted s g @ [(handles s, c)])"
    and "handles t = (case a of Send c \<Rightarrow> handles s + 1 | _ \<Rightarrow> handles s)"
proof -
  have "(channel_accepted t g = channel_accepted s g \<or>
      (\<exists>c. a = Send c \<and> channel_accepted t g = channel_accepted s g @ [(handles s, c)])) \<and>
      handles t = (case a of Send c \<Rightarrow> handles s + 1 | _ \<Rightarrow> handles s)"
  proof (cases a)
    case (Send c)
    have dropped: "channel_accepted (drop_command s) = channel_accepted s"
      by (simp add: drop_command_def tryReceive_def session_defs)
    show ?thesis
      using assms Send held_send(4) [of c s]
      by (cases rule: sending_cases [of c s])
        (auto simp: dropped session_frame dest!: enqueue_accepts)
  next
    case (TakeCommand g)
    then show ?thesis
      using assms take_command_frame [of g s t] by (auto simp: take_command_def session_defs
          split: option.splits list.splits writer_phase.splits)
  next
    case (Settle g)
    then show ?thesis
      using assms by (auto simp: settle_def session_defs await_response_def session_frame
          split: option.splits writer_phase.splits if_splits)
  next
    case (ResponseTimeout i)
    then show ?thesis
      using assms by (auto simp: response_timeout_def session_defs session_frame
          split: prod.splits if_splits)
  next
    case (ReadData g data)
    then show ?thesis
      using assms by (auto simp: read_data_def session_defs session_frame
          split: option.splits if_splits)
  next
    case Disconnect
    have "channel_accepted (drop_command u) = channel_accepted u" for u
      by (simp add: drop_command_def tryReceive_def session_defs)
    then show ?thesis
      using Disconnect assms by (auto simp: disconnect_def session_frame session_defs split: if_splits)
  qed (insert assms act_calm [OF _ assms], auto simp: same_view_def connect_opened_def
    reconnect_opened_def writer_ends_def session_frame session_defs
    split: option.splits reconnect_phase.splits if_splits)
  then show "channel_accepted t g = channel_accepted s g \<or>
    (\<exists>c. a = Send c \<and> channel_accepted t g = channel_accepted s g @ [(handles s, c)])"
    "handles t = (case a of Send c \<Rightarrow> handles s + 1 | _ \<Rightarrow> handles s)"
    by simp_all
qed

lemma act_grows:
  assumes "queue_inv s" and "act scaled a s = Some t"
  shows "session_grows s t"
proof -
  have "\<exists>qs. channel_accepted t g = channel_accepted s g @ qs \<and> (\<forall>q\<in>set qs. handles s \<le> fst q) \<and>
      sorted_wrt (<) (map fst qs)" for g
    using act_accepts(1) [OF assms(2), of g] by auto
  moreover have "handles s \<le> handles t"
    using act_accepts(2) [OF assms(2)] by (cases a) simp_all
  moreover have "results t h \<noteq> None" if "results s h \<noteq> None" for h
    using that act_keeps_result [OF assms, of h] by auto
  ultimately show ?thesis
    using act_log [OF assms(2)] by (simp add: session_grows_def)
qed

text \<open>A command is queued, with a handle that tells so, or its handle has a result.\<close>

definition cared_for :: "session \<Rightarrow> QueuedCommand \<Rightarrow> bool" where
  "cared_for s q \<longleftrightarrow> results s (fst q) \<noteq> None \<or> (\<exists>g. q \<in> set (channel_accepted s g))"

lemma cared_for_grows: "cared_for s q \<Longrightarrow> session_grows s t \<Longrightarrow> cared_for t q"
  by (auto simp: cared_for_def session_grows_def) (metis UnI1 set_append)

lemma sent_cared_for:
  assumes "queue_inv s"
  shows "cared_for (snd (send c s)) (handles s, c)"
proof -
  have fresh: "results s (handles s) = None"
    using queue_invD(8) [OF assms] by simp
  show ?thesis
    using fresh by (cases rule: sending_cases [of c s])
      (auto simp: cared_for_def results_complete session_frame dest!: enqueue_accepts
        intro!: exI [of _ "commands s"])
qed

section \<open>What a client gives and gets\<close>

definition client_ok :: "session \<Rightarrow> proxy_client \<Rightarrow> bool" where
  "client_ok s c \<longleftrightarrow>
     client_read c = concat (map (payload \<circ> snd) (client_sends c)) \<and>
     sorted_wrt (<) (map fst (client_sends c)) \<and>
     (\<forall>q\<in>set (client_sends c). fst q < handles s \<and> cared_for s q) \<and>
     (pump c = PumpLaunched \<longrightarrow> forward c = NotForwarding) \<and>
     (forward c = NotForwarding \<or> forward c = ForwardLaunched \<longrightarrow> client_written c = []) \<and>
     sub_from c \<le> sub_upto c \<and> sub_upto c \<le> length (event_log s) \<and>
     client_written c =
       concat (map event_data (take (sub_upto c - sub_from c) (drop (sub_from c) (event_log s))))"

lemma client_ok_grows:
  assumes "client_ok s c" and "session_grows s t"
  shows "client_ok t c"
proof -
  obtain es where es: "event_log t = event_log s @ es"
    using assms(2) by (auto simp: session_grows_def prefix_def)
  have "take (sub_upto c - sub_from c) (drop (sub_from c) (event_log t)) =
      take (sub_upto c - sub_from c) (drop (sub_from c) (event_log s))"
    using assms(1) unfolding es client_ok_def by simp
  moreover have "handles s \<le> handles t"
    using assms(2) by (simp add: session_grows_def)
  ultimately show ?thesis
    using assms cared_for_grows [OF _ assms(2)] es by (auto simp: client_ok_def)
qed

definition accepted_sorted :: "session \<Rightarrow> bool" where
  "accepted_sorted s \<longleftrightarrow> (\<forall>g. sorted_wrt (<) (map fst (channel_accepted s g)))"

lemma accepted_sorted_grows:
  assumes "accepted_sorted s" and "session_grows s t" and "queue_inv s"
  shows "accepted_sorted t"
  unfolding accepted_sorted_def
proof
  fix g
  obtain qs where "channel_accepted t g = channel_accepted s g @ qs"
      "\<forall>q\<in>set qs. handles s \<le> fst q" "sorted_wrt (<) (map fst qs)"
    using assms(2) unfolding session_grows_def by blast
  moreover have "\<forall>q\<in>set (channel_accepted s g). fst q < handles s"
    using queue_invD(5) [OF assms(3)] by blast
  ultimately show "sorted_wrt (<) (map fst (channel_accepted t g))"
    using assms(1) by (fastforce simp: accepted_sorted_def sorted_wrt_append)
qed

definition proxy_inv :: "proxy \<Rightarrow> bool" where
  "proxy_inv s \<longleftrightarrow> queue_inv (px_session s) \<and> accepted_sorted (px_session s) \<and>
     (\<forall>j. servers s j \<noteq> None \<longrightarrow> j < server_count s) \<and>
     (\<forall>k c. clients s k = Some c \<longrightarrow> client_ok (px_session s) c)"

lemma proxy_inv_session:
  assumes "proxy_inv s" and "act scaled a (px_session s) = Some u"
  shows "proxy_inv (s\<lparr>px_session := u\<rparr>)"
proof -
  have I: "queue_inv (px_session s)" "accepted_sorted (px_session s)"
    using assms(1) by (simp_all add: proxy_inv_def)
  have g: "session_grows (px_session s) u"
    by (rule act_grows [OF I(1) assms(2)])
  show ?thesis
    using assms(1) queue_inv_act [OF I(1) assms(2)] accepted_sorted_grows [OF I(2) g I(1)]
      client_ok_grows [OF _ g]
    by (simp add: proxy_inv_def)
qed

text \<open>The changes of phase.\<close>

lemma client_ok_phases:
  "client_ok s c \<Longrightarrow> client_ok s (c\<lparr>pump := PumpOver\<rparr>)"
  "client_ok s c \<Longrightarrow> client_ok s (c\<lparr>pump := PumpOver, socket_closed := b\<rparr>)"
  "client_ok s c \<Longrightarrow> pump c = PumpLaunched \<Longrightarrow>
    client_ok s (c\<lparr>pump := Pumping, forward := ForwardLaunched\<rparr>)"
  "client_ok s c \<Longrightarrow> forward c \<noteq> NotForwarding \<Longrightarrow> client_ok s (c\<lparr>forward := ForwardOver\<rparr>)"
  "client_ok s c \<Longrightarrow> forward c = ForwardLaunched \<Longrightarrow> client_ok s (c\<lparr>forward := Collecting,
    sub_from := length (event_log s), sub_upto := length (event_log s)\<rparr>)"
  by (auto simp: client_ok_def)

lemma client_ok_fresh:
  "client_ok s \<lparr>of_server = j, pump = x, forward = NotForwarding, socket_closed = b, client_read = [],
    client_sends = [], client_written = [], sub_from = 0, sub_upto = 0\<rparr>"
  by (simp add: client_ok_def)

lemma proxy_inv_client: "proxy_inv s \<Longrightarrow> clients s k = Some c \<Longrightarrow> client_ok (px_session s) c"
  by (simp add: proxy_inv_def)

lemma proxy_inv_put: "proxy_inv s \<Longrightarrow> client_ok (px_session s) d \<Longrightarrow> proxy_inv (put_client k d s)"
  by (simp add: proxy_inv_def put_client_def)

lemma proxy_inv_cancel: "proxy_inv s \<Longrightarrow> proxy_inv (cancel_server j s)"
  by (auto simp: proxy_inv_def cancel_server_def put_server_def split: option.split)

lemma client_ok_event:
  assumes "client_ok s c" and "sub_upto c < length (event_log s)" and "forward c = Collecting"
  shows "client_ok s (c\<lparr>sub_upto := sub_upto c + 1,
    client_written := client_written c @ event_data (event_log s ! sub_upto c)\<rparr>)"
proof -
  let ?n = "sub_upto c - sub_from c" and ?l = "drop (sub_from c) (event_log s)"
  have n: "?n < length ?l" "Suc (sub_upto c) - sub_from c = Suc ?n" "?l ! ?n = event_log s ! sub_upto c"
    using assms by (auto simp: client_ok_def)
  then have "take (Suc (sub_upto c) - sub_from c) ?l = take ?n ?l @ [event_log s ! sub_upto c]"
    by (simp add: take_Suc_conv_app_nth)
  then show ?thesis
    using assms by (auto simp: client_ok_def)
qed

lemma client_ok_chunk:
  assumes "client_ok s c" and "queue_inv s"
  shows "client_ok (snd (send q s)) (c\<lparr>client_read := client_read c @ payload q,
    client_sends := client_sends c @ [(handles s, q)]\<rparr>)"
proof -
  have g: "session_grows s (snd (send q s))"
    using act_grows [OF assms(2), of undefined "Send q"] by simp
  show ?thesis
    using client_ok_grows [OF assms(1) g] assms(1) sent_cared_for [OF assms(2), of q]
      held_send(4) [of q s]
    by (auto simp: client_ok_def sorted_wrt_append)
qed

lemma proxy_inv_act:
  assumes "proxy_inv s" and "proxy_act scaled a s = Some t"
  shows "proxy_inv t"
proof (cases a)
  case (SessionActs b)
  then show ?thesis
    using assms(2) proxy_inv_session [OF assms(1)] by auto
next
  case (PumpChunk k data ident)
  let ?q = "proxy_command data ident"
  obtain c where c: "clients s k = Some c" "t = put_client k (c\<lparr>client_read := client_read c @ data,
      client_sends := client_sends c @ [(fst (send ?q (px_session s)), ?q)]\<rparr>)
      (s\<lparr>px_session := snd (send ?q (px_session s))\<rparr>)"
    using assms(2) PumpChunk
    by (auto simp: pump_chunk_def Let_def split: option.splits if_splits prod.splits)
  have q: "fst (send ?q (px_session s)) = handles (px_session s)" "payload ?q = data"
    by (simp_all add: send_def Let_def proxy_command_def)
  have "client_ok (px_session s) c" "queue_inv (px_session s)"
    using assms(1) c(1) by (auto simp: proxy_inv_def)
  then show ?thesis
    using client_ok_chunk [of "px_session s" c ?q] c(2) q
      proxy_inv_session [OF assms(1), of scaled "Send ?q"]
    by (auto simp: proxy_inv_def put_client_def)
next
  case (ForwardEvent k)
  then show ?thesis
    using assms client_ok_event
    by (auto simp: forward_event_def put_client_def proxy_inv_def split: option.splits if_splits)
next
  case (ProxyStart config)
  then show ?thesis
    using assms by (auto simp: proxy_inv_def proxy_start_def put_server_def Let_def less_SucI split: if_splits)
next
  case (ServerRuns j answer)
  then show ?thesis
    using assms by (auto simp: proxy_inv_def server_runs_def put_server_def split: proxy_splits)
next
  case (ServerAccepts j)
  then show ?thesis
    using assms by (auto simp: proxy_inv_def server_accepts_def put_client_def Let_def client_ok_fresh
        split: proxy_splits)
next
  case (AcceptFails j e)
  then show ?thesis
    using assms by (auto simp: proxy_inv_def accept_fails_def put_server_def split: proxy_splits)
next
  case ProxyClose
  then show ?thesis
    using assms
    by (auto simp: proxy_inv_def proxy_close_def cancel_server_def put_server_def split: proxy_splits)
qed (use assms(2) proxy_inv_client [OF assms(1)] in \<open>auto simp: pump_runs_def pump_ends_def
  pump_fails_def forward_runs_def forward_ends_def forward_fails_def Let_def
  intro!: proxy_inv_put [OF assms(1)] proxy_inv_cancel client_ok_phases
  split: option.splits if_splits\<close>)

lemma sorted_wrt_subseq: "subseq xs ys \<Longrightarrow> sorted_wrt P ys \<Longrightarrow> sorted_wrt P xs"
proof (induction rule: list_emb.induct)
  case (list_emb_Cons2 x y xs ys)
  then show ?case
    by (auto dest: list_emb_set)
qed simp_all

lemma proxy_inv_runs: "proxy_runs scaled s as t \<Longrightarrow> proxy_inv s \<Longrightarrow> proxy_inv t"
  by (induction rule: proxy_runs.induct) (auto intro: proxy_inv_act)

lemma proxy_inv_new: "proxy_inv (new_proxy new_session)"
  using queues.initially
  by (simp add: proxy_inv_def new_proxy_def accepted_sorted_def) (simp add: new_session_def)


section \<open>A server that was closed\<close>

fun fails_in_accept :: "nat \<Rightarrow> proxy_action \<Rightarrow> bool" where
  "fails_in_accept j (AcceptFails i e) \<longleftrightarrow> i = j"
| "fails_in_accept j _ \<longleftrightarrow> False"

text \<open>Only a failing \<open>accept\<close> takes a server out of its loop, and none comes back from being cancelled.\<close>

definition closed_in_loop :: "nat \<Rightarrow> int \<Rightarrow> proxy \<Rightarrow> bool" where
  "closed_in_loop j p s \<longleftrightarrow> servers s j = Some \<lparr>sv_phase = Accepting p, sv_cancelled = True\<rparr>"

lemma act_keeps_loop:
  assumes "proxy_act scaled a s = Some t" and "closed_in_loop j p s" and "proxy_inv s"
    and "\<not> fails_in_accept j a"
  shows "closed_in_loop j p t"
proof -
  have "j < server_count s"
    using assms(2,3) by (auto simp: closed_in_loop_def proxy_inv_def)
  then show ?thesis
    using assms by (cases a) (auto simp: closed_in_loop_def proxy_defs split: proxy_splits)
qed

lemma run_keeps_loop:
  "proxy_runs scaled s as t \<Longrightarrow> closed_in_loop j p s \<Longrightarrow> proxy_inv s \<Longrightarrow>
    \<forall>a\<in>set as. \<not> fails_in_accept j a \<Longrightarrow> closed_in_loop j p t"
proof (induction rule: proxy_runs.induct)
  case (proxy_go a s t as u)
  then show ?case
    using act_keeps_loop [OF proxy_go.hyps(1), of j p] proxy_inv_act [OF _ proxy_go.hyps(1)] by auto
qed


section \<open>Examples\<close>

text \<open>A client of a proxy on a connected session sends two bytes and is sent one.\<close>

definition relayed_run :: "proxy_action list" where
  "relayed_run = map SessionActs opened_session @
     [ProxyStart default_proxy_config, ServerRuns 0 (Inr 30001), ServerAccepts 0, PumpRuns 0,
      ForwardRuns 0, PumpChunk 0 [1, 2] ''a'', SessionActs (ReadData 1 [9]), ForwardEvent 0]"

lemmas proxy_evaluation = proxy_runs_Cons proxy_defs new_proxy_def default_proxy_config_def
  bound_ports_def server_gone_def forward_cancelled_def


definition listening_run :: "proxy_action list" where
  "listening_run = [ProxyStart default_proxy_config, ServerRuns 0 (Inr 30001)]"

definition restarted_run :: "proxy_action list" where
  "restarted_run = [ProxyStart default_proxy_config, ServerRuns 1 (Inl (OtherThrowable ''BindException''))]"


text \<open>
  When reading from one client fails, the server is cancelled with all it has launched: the forwarding
  to every other client of it can only end, while the coroutine that waits in \<open>read\<close> notices nothing
  and goes on.
\<close>

lemma one_failure_silences_all:
  assumes "clients s k = Some c" and "pump c = Pumping" and "clients s i = Some d" and "i \<noteq> k"
    and "of_server d = of_server c"
  shows "\<exists>t. pump_fails k s = Some t \<and> \<not> job_active (of_server c) t \<and> clients t i = Some d \<and>
    forward_cancelled d t"
  using assms
  by (auto simp: pump_fails_def forward_cancelled_def server_gone_def cancel_server_def job_active_def
      put_server_def put_client_def split: option.splits)

text \<open>
  What a client sends while the session is not connected is lost: the command fails at once, and nobody
  looks at its result.
\<close>

lemma chunk_lost_without_connection:
  assumes "clients s k = Some c" and "pump c = Pumping" and "data \<noteq> []" and "length data \<le> 4096"
    and "\<not> terminal (px_session s)" and "session_state (px_session s) = Idle"
    and "proxy_inv s"
  shows "\<exists>t. pump_chunk k data ident s = Some t \<and>
    results (px_session t) (handles (px_session s)) = Some (Failed NotConnected) \<and>
    channel_accepted (px_session t) = channel_accepted (px_session s)"
proof -
  have "results (px_session s) (handles (px_session s)) = None"
    using assms(7) queue_invD(8) [of "px_session s"] by (simp add: proxy_inv_def)
  then show ?thesis
    using assms(1-6)
    by (simp add: pump_chunk_def send_def Let_def put_client_def complete_handle_def)
qed

end
