(* ===== verification/Spec2Isabelle.thy ===== *)
theory Spec2Isabelle
  imports Ring_Queue Port_Settings Command_Replies Negotiation Telnet_Receive Unix_Io Main_Loop
    Loop_Behaviour Telnet_Stream Telnet_Decoder End_To_End Proxy_Notify Jni_Serial Port_Log Hdb_Lock
    Loop_Log Command_Line Frame_Parser Serial_Transport Session_Workers Serial_Proxy
begin

text \<open>
  A verification development of the serial port library: its native part, the redirector
  \<open>sercd\<close> of RFC 2217 and the port opened for Java, in \<open>src/library/src/main/jni\<close>, and of the Kotlin
  part in \<open>src/library/src/main/kotlin/io/android/serial/api\<close> the parser of frames with its checksums
  and conversions, the session and its transport, and the TCP proxy around a session.

  The program. \<open>sercd\<close> joins a TCP client and a serial port. Data from the port is escaped for Telnet
  and sent to the client; data from the client is searched for Telnet commands, and what is left goes
  to the port. Through the Com Port Control option the client reads and changes the settings of the
  port and is told of its modem lines. Two ring buffers of 2048 bytes lie between the two ends, and
  one loop around \<open>select\<close> moves everything. The configuration modelled is the Android one, which is
  the only one this repository can build, and beside it the lock files and the start of the others;
  the machine is little-endian, with \<open>unsigned long\<close>, \<open>size_t\<close> and \<open>ssize_t\<close> of 32 or of 64 bits (the type \<open>abi\<close>),
  since the library is built for both.

  The theories, in the order of their imports, each with the code it models, what its lemmas show and
  the properties it holds.

  \<^item> \<open>Prelude\<close>: bytes and words, the faults (a failed assertion, an access outside an array, a null
    pointer), the result type \<open>fault + 'a\<close> with \<open>bind_r\<close> and \<open>each_r\<close>, arithmetic of the ring, and the
    locale \<open>simulation\<close>: a machine that may fault refines one that cannot.
  \<^item> \<open>Ring_Buffer\<close> (\<open>sercd.c\<close> 64 to 70 and 306 to 396): \<open>BufferType\<close> and its operations, with the indices as
    32-bit words. \<open>contents\<close> is the queue of bytes a buffer stands for, and the lemmas say what each
    operation does to it. The locale \<open>byte_queue\<close> is the contract the senders rely on.
  \<^item> \<open>Ring_Queue\<close>: the ring buffer as an abstract data type; any lawful sequence of requests is answered
    as a list of bytes would answer it (C9).
  \<^item> \<open>Telnet_Constants\<close> (\<open>sercd.h\<close>): the protocol's codes.
  \<^item> \<open>Serial_Port\<close> (\<open>unix.c\<close> 66 to 595): the conversions between terminal attributes and the codes of
    RFC 2217, the getters and the setters. The terminal driver is the record \<open>tty\<close>, a parameter;
    \<open>tty_faithful\<close> is its documented behaviour, and \<open>mem_tty\<close> a driver that has it.
  \<^item> \<open>Port_Settings\<close>: a setting reads back and disturbs no other (locale \<open>port_setting\<close>); C18 and
    C26.
  \<^item> \<open>Sercd_State\<close>: the state, one record for the static variables of \<open>sercd.c\<close> and \<open>unix.c\<close>, the
    variables of the main function, the port, and a trace of what leaves the program; the frames
    \<open>kept\<close> and \<open>handles\<close> the handlers are proved against.
  \<^item> \<open>Telnet_Send\<close> (\<open>sercd.c\<close> 398 to 466 and 612 to 692): everything that writes to the network buffer. The
    locale \<open>net_sender\<close> states the senders' contract once: the bytes appended, the room they need, and
    the assertion that fails without it.
  \<^item> \<open>Telnet_Command\<close> (\<open>sercd.c\<close> 694 to 1099): the handlers of complete commands.
  \<^item> \<open>Command_Laws\<close>: the handlers stay within the room their macros declare.
  \<^item> \<open>Command_Replies\<close>: what each request of Com Port Control changes and answers; C19 and C20.
  \<^item> \<open>Negotiation\<close>: the four negotiation commands and the opening of a connection. The locales
    \<open>untouched\<close> and \<open>untouched_by_all\<close> carry what a command other than these leaves alone; C21 to C23.
  \<^item> \<open>Telnet_Receive\<close> (\<open>sercd.c\<close> 468 to 611): the receiver's state machine, its invariant \<open>rx_inv\<close>, and
    what it does to data, commands and signatures; C7 and C39.
  \<^item> \<open>Telnet_Decoder\<close>: a decoder without array, positions and flags, which \<open>EscRedirectChar\<close> refines
    (C3, an interpretation of \<open>simulation\<close>), and the streams of well-formed items it executes in order
    (C10). The locale \<open>unseen\<close> lets a proof change a field the receiver does not read.
  \<^item> \<open>Unix_Io\<close> (\<open>unix.c\<close> 722 to 785 and 874 to 1015): opening and closing the port, \<open>SercdSelect\<close>, and
    reads and writes; what the system answers in one iteration is the record \<open>env\<close>; C32.
  \<^item> \<open>Main_Loop\<close> (\<open>sercd.c\<close> 272 to 304, 1102 to 1118, 1242 to 1662): the start, one definition per stage of an
    iteration, the iteration, the socket options, the exit entry point; the loop's invariant and
    reachability. The locale \<open>stage_invariant\<close> lifts what every stage keeps to every run; C4 and C5.
  \<^item> \<open>Loop_Behaviour\<close>: data passes in order and without loss, and the exceptions; C33 and C34.
  \<^item> \<open>Telnet_Stream\<close>: a grammar of Telnet with Com Port Control. Every sender and handler utters whole
    units of it (locale \<open>speech\<close>), so all a client is ever sent is a word of the grammar (C6).
  \<^item> \<open>End_To_End\<close>: the composition of senders, receiver, ring buffers and loop. What a client decodes is
    what the port delivered, and what the port is written is what the client's stream decodes to (the
    locale \<open>session_relation\<close>, interpreted for each direction); C1 and C2.
  \<^item> \<open>Proxy_Notify\<close> (\<open>android.c\<close>): the automaton of the states told to the Java service, which every
    run follows (C8), and the calls into the Java virtual machine, a parameter, that tell it.
  \<^item> \<open>Jni_Serial\<close> (\<open>serial.c\<close>): the port opened for Java, with its error paths.
  \<^item> \<open>Port_Log\<close>: the log's priorities, the line that describes the port (\<open>LogMsg\<close>, \<open>LogPortSettings\<close>,
    \<open>UnixLogPortSettings\<close>), and the functions run at exit and on signals.
  \<^item> \<open>Hdb_Lock\<close> (\<open>unix.c\<close> 597 to 800): the lock file, with the system calls a parameter and \<open>disk_calls\<close>
    their documented behaviour while other processes act between any two of them; C28, C29, C31 and C40.
  \<^item> \<open>Command_Log\<close> (\<open>unix.c\<close> 317 to 567, \<open>sercd.c\<close> 694 to 1099): what each setter and each handler logs, a
    function \<open>f_log\<close> beside each operation \<open>f\<close>. The log names the values the answers carry (C25).
  \<^item> \<open>Loop_Log\<close> (\<open>sercd.c\<close> 469 to 611, 1102 to 1118 and 1353 to 1652): what the receiver and the stages of
    the loop log. \<open>logged_runs\<close> are the runs with their lines, and the lines account for every
    connection (C24).
  \<^item> \<open>Command_Line\<close> (\<open>sercd.c\<close> 399 to 433, 1209 to 1229 and 1260 to 1413, \<open>unix.c\<close> 815 to 833): the desktop program's
    command line, with \<open>getopt\<close> and \<open>strtol\<close>, its complaints and its usage text, its start with a listener or under
    \<open>inetd\<close>, and its signal handlers. The values it accepts print as a command line that gives them again.
  \<^item> \<open>Byte_Utils\<close> (\<open>ByteUtils.kt\<close>): text, numbers and bits of bytes, with the exceptions of Kotlin as a
    sum; the conversions undo each other (C30).
  \<^item> \<open>Checksums\<close> (\<open>Checksum.kt\<close>): the checksum of Modbus is the shift register of its polynomial and finds
    bursts and odd numbers of wrong bits (C27).
  \<^item> \<open>Frame_Parser\<close> (\<open>SerialFrameParser.kt\<close>): the incremental parser. The pieces of a stream do not
    matter, every frame comes out and nothing else does (C11 to C13), under \<open>config_safe\<close>.
  \<^item> \<open>Serial_Api\<close>: the data of the Kotlin interface, with the checks of its constructors.
  \<^item> \<open>Serial_Transport\<close> (\<open>AndroidSerialTransport.kt\<close>): a port opened from Kotlin down to the calls that
    \<open>SerialPort_open\<close> makes (C35).
  \<^item> \<open>Serial_Session\<close> (\<open>SerialSession.kt\<close>): the session as a record, one function for each stretch of a
    coroutine between two waits, and the step relation that runs them in any order.
  \<^item> \<open>Session_Laws\<close>, \<open>Session_Handles\<close>, \<open>Session_Workers\<close>: what holds of every run (locale
    \<open>session_invariant\<close>, interpreted for the queues and for the workers): the order of commands (C14),
    what loses a handle and that it stays lost (C15, C36), the workers of a connection (C16), and a
    session that connects itself (C37).
  \<^item> \<open>Serial_Proxy\<close> (\<open>SerialProxy.kt\<close>): the server, its clients and the forwarding to them, as steps between
    the steps of a session. It relays in both directions in order, and every command it gives to the
    session is queued or has a result (C17); a server that is closed keeps its port (C38).
  \<^item> this theory: the two ways to a port.

  How the parts interact. \<open>SercdService_main\<close> gives the first state and \<open>main_iteration\<close> a round of the
  loop: \<open>SercdSelect\<close> reports events, each stage reads or writes through \<open>Unix_Io\<close>, \<open>device_in\<close> calls the
  senders, \<open>socket_in\<close> the receiver, which calls the handlers, which call the setters of \<open>Serial_Port\<close>
  and the senders again; the two rings join the stages. \<open>runs\<close> is the loop repeated, and each theorem
  on all runs rests on what the stages keep.

  On the Kotlin side a session queues commands, writes them through a transport, which on Android is
  the port opened by \<open>SerialPort_open\<close>, and gives the data it reads to a pending request and to its
  listeners, who may put it through the frame parser. The proxy is such a listener for each of its
  clients, and what a client sends it gives to the session as commands; the actions of the proxy and of
  the session are steps of one relation, so that its theorems hold of every interleaving.

  How the code is translated. An unsigned integer is a word of its width; \<open>size_t\<close> positions that stay
  small are naturals with the bound checked. A function that changes state takes and returns the
  record \<open>'p sercd\<close>, where \<open>'p\<close> is the type of the port's own state. \<open>assert\<close>, an index outside its array
  and a null pointer are values of \<open>fault\<close>, so that "no fault" is something to prove. A pointer that is
  null or points at a descriptor is an \<open>option\<close>. The bits that \<open>SercdSelect\<close> returns are a set, and
  so are the bits of an \<open>fd_set\<close>. A \<open>continue\<close> of the loop is the constructor \<open>Continue\<close> of a stage's
  result, and a \<open>return\<close> the constructor \<open>Return\<close> of an iteration's.

  Bounds. 516 is the value of \<open>HandleIACCommand_bytes\<close> on both machines and follows from the macros.
  The loop over the read buffer has at most 512 rounds, or 4294967295 when a failed read is compared
  as unsigned; it is a recursion with a measure. The loop of \<open>HDBLockFile\<close> may run for ever if other
  processes keep putting stale locks in its way, so that it is a \<open>partial_function\<close> and not returning
  is \<open>None\<close>; C29 gives the condition under which it returns. The loop of the frame parser is a
  \<open>partial_function\<close> too, and C11 shows that it ends. Nothing in the development uses fuel.

  Not modelled: what \<open>serial.c\<close> and \<open>android.c\<close> give to Android's own log;
  the desktop program's loop, which differs from the one modelled by the lock in
  \<open>OpenPort\<close> and \<open>ClosePort\<close> and cannot be compiled, because it calls
  \<open>changeState\<close> with variables it does not have; \<open>inet_addr\<close>, a parameter;
  the code between the \<open>COMMENT\<close> directives, which no build includes; the Java object
  behind a descriptor; the conversions of \<open>Float\<close> and \<open>Double\<close>, for whose
  bit patterns HOL has no type; the logger of the Kotlin part, an interface, and its entry point, a
  call of a constructor; a client of the proxy that reads so slowly that the session waits for it;
  time, which in a session is only the order of its steps; and interleavings of a session finer than
  its steps, which the threads of a dispatcher could make.
\<close>

section \<open>Two ways to a port\<close>

lemma opened_speed:
  assumes "SerialPort_open A p b flags = (Some fd, calls)" and "SysSetattr fd cfg \<in> set calls"
  shows "b \<in> fst ` set baudrate_codes" and "c_ospeed cfg = getBaudrate b"
  using assms getBaudrate_invalid [of b]
  by (auto simp: SerialPort_open_def Let_def cfsetispeed_def cfsetospeed_def
      split: if_splits option.splits)

text \<open>
  A port opened for Java at some rate is seen by \<open>sercd\<close> at the same rate up to 460800; for the
  faster rates, which only the Java side knows, \<open>sercd\<close> reports zero.
\<close>

theorem java_speed_seen_by_sercd:
  assumes "SerialPort_open A p b flags = (Some fd, calls)" and "SysSetattr fd cfg \<in> set calls"
  shows "Termios2TncomSpeed cfg = (if b \<le> 460800 then word_of_int b else 0)"
proof -
  have "b \<in> fst ` set baudrate_codes"
    by (rule opened_speed(1) [OF assms])
  then have "(case map_of [(B50, 50), (B75, 75), (B110, 110), (B134, 134), (B150, 150), (B200, 200),
        (B300, 300), (B600, 600), (B1200, 1200), (B1800, 1800), (B2400, 2400), (B4800, 4800),
        (B9600, 9600), (B19200, 19200), (B38400, 38400), (B57600, 57600), (B115200, 115200),
        (B230400, 230400), (B460800, 460800)] (getBaudrate b) of Some v \<Rightarrow> v | None \<Rightarrow> (0 :: ulong)) =
      (if b \<le> 460800 then word_of_int b else 0)"
    by (auto simp: baudrate_codes_def getBaudrate_def)
  then show ?thesis
    by (simp add: Termios2TncomSpeed_def cfgetospeed_def opened_speed(2) [OF assms])
qed

theorem java_speed_seen_by_sercd_witness:
  "\<exists>cfg. SerialPort_open sample_answers [] 115200 0 =
      (Some 7, [SysOpen [] 2, SysSetattr 7 cfg]) \<and> Termios2TncomSpeed cfg = 115200"
proof -
  obtain cfg where "SerialPort_open sample_answers [] 115200 0 =
      (Some 7, [SysOpen [] 2, SysSetattr 7 cfg])"
    by (simp add: SerialPort_open_def sample_answers_def getBaudrate_def baudrate_codes_def Let_def
        O_RDWR_def)
  then show ?thesis
    using java_speed_seen_by_sercd [of sample_answers "[]" 115200 0 7 _ cfg] by auto
qed

end
